(* ===== verification/TF_Prelude.thy ===== *)
theory TF_Prelude
  imports Complex_Main "HOL-Library.List_Lexorder" "HOL-Library.Char_ord"
    "HOL-Library.Product_Lexorder"
begin

text \<open>
  Shared vocabulary of the development: time stamps, exceptions as values, the JSON values
  that cross the database, decimal printing of integers, and the generic facts about tables
  kept as lists of rows (\<^verbatim>\<open>UPDATE ... WHERE\<close>, \<^verbatim>\<open>INSERT ... ON CONFLICT DO NOTHING\<close>,
  \<^verbatim>\<open>ORDER BY ... LIMIT 1\<close>) that all component theories use.
\<close>

named_theorems table_simps \<open>facts about rows selected, updated and inserted\<close>

section \<open>Time\<close>

text \<open>
  Postgres keeps a \<^verbatim>\<open>timestamptz\<close> as a number of microseconds, and a Python
  \<^verbatim>\<open>timedelta\<close> is a number of microseconds as well: both are integers here.
\<close>

type_synonym timestamp = int

definition seconds :: "int \<Rightarrow> int" where
  "seconds n = n * 1000000"

definition hours :: "int \<Rightarrow> int" where
  "hours n = seconds (3600 * n)"

lemma seconds_mono [simp]: "seconds a \<le> seconds b \<longleftrightarrow> a \<le> b"
  by (simp add: seconds_def)

lemma seconds_pos [simp]: "0 < seconds a \<longleftrightarrow> 0 < a"
  by (simp add: seconds_def)

section \<open>Exceptions as values\<close>

text \<open>
  The Python exceptions the code raises or lets through, each with the text the code gives
  it where it gives one. \<^verbatim>\<open>ValidationError\<close> is pydantic's, \<^verbatim>\<open>UniqueViolation\<close>
  and \<^verbatim>\<open>UndefinedObject\<close> are Postgres', \<^verbatim>\<open>HTTPException\<close> is FastAPI's.
\<close>

datatype exn =
    ValueError string
  | TypeError string
  | KeyError string
  | AssertionError
  | RuntimeError string
  | ValidationError string
  | AgentOverloadedError string
  | AgentPermanentError string
  | UniqueViolation string
  | UndefinedObject string
  | TimeoutException
  | HTTPError string
  | HTTPException int string
  | BatchTimeoutError string
  | AttributeError string

fun bindr :: "exn + 'a \<Rightarrow> ('a \<Rightarrow> exn + 'b) \<Rightarrow> exn + 'b" where
  "bindr (Inl e) f = Inl e"
| "bindr (Inr x) f = f x"

lemma bindr_Inr_iff: "bindr r f = Inr y \<longleftrightarrow> (\<exists>x. r = Inr x \<and> f x = Inr y)"
  by (cases r) auto

lemma bindr_Inl_iff: "bindr r f = Inl e \<longleftrightarrow> (r = Inl e \<or> (\<exists>x. r = Inr x \<and> f x = Inl e))"
  by (cases r) auto

lemma bindr_cong: "r = r' \<Longrightarrow> (\<And>x. r' = Inr x \<Longrightarrow> f x = g x) \<Longrightarrow> bindr r f = bindr r' g"
  by (cases r') auto

lemma bindr_assoc: "bindr (bindr r f) g = bindr r (\<lambda>x. bindr (f x) g)"
  by (cases r) auto

section \<open>JSON values\<close>

text \<open>
  Task payloads, results, signals and graph interrupts are JSON values. An object keeps its
  members as an association list; a lookup takes the first.
\<close>

datatype json =
    JNull
  | JBool bool
  | JNum rat
  | JStr string
  | JArr "json list"
  | JObj "(string \<times> json) list"

fun jget :: "json \<Rightarrow> string \<Rightarrow> json option" where
  "jget (JObj kvs) k = map_of kvs k"
| "jget _ k = None"

fun is_jobj :: "json \<Rightarrow> bool" where
  "is_jobj (JObj _) = True"
| "is_jobj _ = False"

section \<open>Tables as lists of rows\<close>

text \<open>\<^verbatim>\<open>UPDATE t SET ... WHERE ...\<close>: the rows that match are replaced in place.\<close>

definition update_where :: "('r \<Rightarrow> bool) \<Rightarrow> ('r \<Rightarrow> 'r) \<Rightarrow> 'r list \<Rightarrow> 'r list" where
  "update_where P f rows = map (\<lambda>r. if P r then f r else r) rows"

text \<open>
  \<^verbatim>\<open>SELECT ... ORDER BY k LIMIT 1\<close>: the first row with the least key. Postgres leaves
  the order of rows with equal keys open; the model takes the earlier one.
\<close>

definition first_by :: "('r \<Rightarrow> 'k::linorder) \<Rightarrow> 'r list \<Rightarrow> 'r option" where
  "first_by k rows = (if rows = [] then None else Some (arg_min_list k rows))"

text \<open>\<^verbatim>\<open>SELECT ... WHERE key = %s\<close> on a key column: the row with that key, if any.\<close>

definition find_by :: "('r \<Rightarrow> 'k) \<Rightarrow> 'k \<Rightarrow> 'r list \<Rightarrow> 'r option" where
  "find_by key k rows = find (\<lambda>r. key r = k) rows"

lemma update_where_Nil [simp]: "update_where P f [] = []"
  by (simp add: update_where_def)

lemma update_where_Cons [simp]:
  "update_where P f (r # rows) = (if P r then f r else r) # update_where P f rows"
  by (simp add: update_where_def)

lemma length_update_where [simp]: "length (update_where P f rows) = length rows"
  by (simp add: update_where_def)

lemma set_update_where: "set (update_where P f rows) = (\<lambda>r. if P r then f r else r) ` set rows"
  by (simp add: update_where_def)

lemma in_update_whereE:
  assumes "r \<in> set (update_where P f rows)"
  obtains r0 where "r0 \<in> set rows" "r = (if P r0 then f r0 else r0)"
  using assms by (auto simp: set_update_where)

lemma map_update_where:
  "(\<And>r. P r \<Longrightarrow> key (f r) = key r) \<Longrightarrow> map key (update_where P f rows) = map key rows"
  by (induction rows) auto

lemma update_where_none:
  "(\<And>r. r \<in> set rows \<Longrightarrow> \<not> P r) \<Longrightarrow> update_where P f rows = rows"
  by (induction rows) auto

lemma update_where_id:
  "(\<And>r. r \<in> set rows \<Longrightarrow> P r \<Longrightarrow> f r = r) \<Longrightarrow> update_where P f rows = rows"
  by (induction rows) auto

lemma update_where_twice:
  "(\<And>r. P r \<Longrightarrow> Q (f r) = P r) \<Longrightarrow> (\<And>r. \<not> P r \<Longrightarrow> Q r = P r) \<Longrightarrow> (\<And>r. P r \<Longrightarrow> g (f r) = f r) \<Longrightarrow>
   update_where Q g (update_where P f rows) = update_where P f rows"
  by (induction rows) auto

lemma list_ex_update_where:
  "(\<And>r. P r \<Longrightarrow> Q (f r) = Q r) \<Longrightarrow> list_ex Q (update_where P f rows) = list_ex Q rows"
  by (induction rows) auto

lemma filter_update_where:
  "(\<And>r. P r \<Longrightarrow> Q (f r) = Q r) \<Longrightarrow>
   filter Q (update_where P f rows) = update_where P f (filter Q rows)"
  by (induction rows) auto

lemma first_by_Some:
  assumes "first_by k rows = Some r"
  shows "r \<in> set rows" and "\<forall>r' \<in> set rows. k r \<le> k r'"
proof -
  have ne: "rows \<noteq> []" and r: "r = arg_min_list k rows"
    using assms by (auto simp: first_by_def split: if_splits)
  show "r \<in> set rows" using r ne by (simp add: arg_min_list_in)
  have "k r = Min (k ` set rows)" using r ne by (simp add: f_arg_min_list_f)
  then show "\<forall>r' \<in> set rows. k r \<le> k r'" by simp
qed

lemma first_by_None [simp]: "first_by k rows = None \<longleftrightarrow> rows = []"
  by (simp add: first_by_def)

lemma first_by_Nil [simp]: "first_by k [] = None"
  by (simp add: first_by_def)

lemma first_by_single [simp]: "first_by k [r] = Some r"
  by (simp add: first_by_def)

lemma find_by_Some:
  "find_by key k rows = Some r \<Longrightarrow> r \<in> set rows \<and> key r = k"
  by (auto simp: find_by_def find_Some_iff in_set_conv_nth)

lemma find_by_None: "find_by key k rows = None \<longleftrightarrow> (\<forall>r \<in> set rows. key r \<noteq> k)"
  by (auto simp: find_by_def find_None_iff)

lemma list_ex_find_by: "list_ex (\<lambda>r. key r = k) rows \<longleftrightarrow> (\<exists>r. find_by key k rows = Some r)"
  by (induction rows) (auto simp: find_by_def)

lemma find_by_Nil [simp]: "find_by key k [] = None"
  by (simp add: find_by_def)

lemma find_by_Cons [simp]:
  "find_by key k (r # rows) = (if key r = k then Some r else find_by key k rows)"
  by (simp add: find_by_def)

lemma find_by_append:
  "find_by key k (xs @ ys) = (case find_by key k xs of Some r \<Rightarrow> Some r | None \<Rightarrow> find_by key k ys)"
  by (induction xs) auto

lemma find_by_unique:
  assumes "distinct (map key rows)" and "r \<in> set rows"
  shows "find_by key (key r) rows = Some r"
  using assms by (induction rows) (auto simp: image_iff)

lemma find_by_update_where_key:
  assumes "\<And>r. P r \<Longrightarrow> key (f r) = key r"
  shows "find_by key k (update_where P f rows) =
    map_option (\<lambda>r. if P r then f r else r) (find_by key k rows)"
  using assms by (induction rows) auto

lemma distinct_key_inj:
  "distinct (map key rows) \<Longrightarrow> r \<in> set rows \<Longrightarrow> r' \<in> set rows \<Longrightarrow> key r = key r' \<Longrightarrow> r = r'"
  by (auto simp: distinct_map inj_on_def)

lemma distinct_map_filter_key:
  "distinct (map key rows) \<Longrightarrow> distinct (map key (filter P rows))"
  by (rule distinct_map_filter)

lemma update_where_key_single:
  assumes "distinct (map key rows)" and "r \<in> set rows"
  shows "filter (\<lambda>x. key x = key r) (update_where (\<lambda>x. key x = key r) f rows) =
    (if key (f r) = key r then [f r] else [])"
  using assms
proof (induction rows)
  case (Cons x rows)
  have "key x = key r \<Longrightarrow> filter (\<lambda>x. key x = key r) (update_where (\<lambda>x. key x = key r) f rows) = []"
  proof -
    assume eq: "key x = key r"
    then have "\<forall>y \<in> set rows. key y \<noteq> key r" using Cons.prems(1) by (force simp: image_iff)
    then show ?thesis by (auto simp: update_where_none filter_empty_conv)
  qed
  with Cons show ?case by (force simp: image_iff)
qed simp

declare update_where_none [table_simps] map_update_where [table_simps]
  set_update_where [table_simps] find_by_update_where_key [table_simps]
  find_by_append [table_simps]

section \<open>Strings\<close>

text \<open>
  Python's \<^verbatim>\<open>str\<close> of an integer (f-strings use it), its \<^verbatim>\<open>in\<close> on strings, and
  \<^verbatim>\<open>join\<close>, \<^verbatim>\<open>split\<close>, \<^verbatim>\<open>strip\<close> and \<^verbatim>\<open>lower\<close> on ASCII text.
\<close>

definition digit_char :: "nat \<Rightarrow> char" where
  "digit_char d = char_of (48 + d)"

fun show_nat :: "nat \<Rightarrow> string" where
  "show_nat n = (if n < 10 then [digit_char n] else show_nat (n div 10) @ [digit_char (n mod 10)])"

declare show_nat.simps [simp del]

definition show_int :: "int \<Rightarrow> string" where
  "show_int i = (if i < 0 then ''-'' @ show_nat (nat (- i)) else show_nat (nat i))"

text \<open>\<^verbatim>\<open>repr\<close> of a text without quotes in it.\<close>

definition quoted :: "string \<Rightarrow> string" where
  "quoted s = CHR 0x27 # s @ [CHR 0x27]"

fun starts_with :: "string \<Rightarrow> string \<Rightarrow> bool" where
  "starts_with [] s = True"
| "starts_with (p # ps) [] = False"
| "starts_with (p # ps) (c # cs) = (p = c \<and> starts_with ps cs)"

fun contains_str :: "string \<Rightarrow> string \<Rightarrow> bool" where
  "contains_str k [] = (k = [])"
| "contains_str k (c # cs) = (starts_with k (c # cs) \<or> contains_str k cs)"

definition lower_char :: "char \<Rightarrow> char" where
  "lower_char c = (let n = of_char c :: nat in if 65 \<le> n \<and> n \<le> 90 then char_of (n + 32) else c)"

definition lower :: "string \<Rightarrow> string" where
  "lower s = map lower_char s"

definition is_space :: "char \<Rightarrow> bool" where
  "is_space c = (of_char c \<in> {9, 10, 11, 12, 13, 28, 29, 30, 31, 32 :: nat})"

definition strip :: "string \<Rightarrow> string" where
  "strip s = rev (dropWhile is_space (rev (dropWhile is_space s)))"

fun join :: "string \<Rightarrow> string list \<Rightarrow> string" where
  "join sep [] = []"
| "join sep [s] = s"
| "join sep (s # ss) = s @ sep @ join sep ss"

fun split_on :: "char \<Rightarrow> string \<Rightarrow> string list" where
  "split_on c [] = [[]]"
| "split_on c (x # xs) =
     (if x = c then [] # split_on c xs
      else case split_on c xs of [] \<Rightarrow> [[x]] | w # ws \<Rightarrow> (x # w) # ws)"

lemma split_on_nonempty [simp]: "split_on c s \<noteq> []"
  by (induction s) (auto split: list.splits)

lemma starts_with_iff: "starts_with p s \<longleftrightarrow> (\<exists>t. s = p @ t)"
  by (induction p s rule: starts_with.induct) auto

lemma contains_str_iff: "contains_str k s \<longleftrightarrow> (\<exists>a b. s = a @ k @ b)"
proof (induction s)
  case (Cons c cs)
  show ?case
  proof
    assume "contains_str k (c # cs)"
    then consider "starts_with k (c # cs)" | "contains_str k cs" by auto
    then show "\<exists>a b. c # cs = a @ k @ b"
    proof cases
      case 1
      then obtain t where "c # cs = [] @ k @ t" by (auto simp: starts_with_iff)
      then show ?thesis by blast
    next
      case 2
      then obtain a b where "c # cs = (c # a) @ k @ b" using Cons.IH by auto
      then show ?thesis by blast
    qed
  next
    assume "\<exists>a b. c # cs = a @ k @ b"
    then obtain a b where ab: "c # cs = a @ k @ b" by blast
    show "contains_str k (c # cs)"
    proof (cases a)
      case Nil
      then show ?thesis using ab by (metis append_Nil contains_str.simps(2) starts_with_iff)
    next
      case (Cons d a')
      then have "cs = a' @ k @ b" using ab by simp
      then have "contains_str k cs" using Cons.IH by blast
      then show ?thesis by simp
    qed
  qed
qed simp

lemma split_on_join:
  assumes "ws \<noteq> []" and "\<forall>w \<in> set ws. c \<notin> set w"
  shows "split_on c (join [c] ws) = ws"
proof -
  have one: "c \<notin> set w \<Longrightarrow> split_on c w = [w]" for w
    by (induction w) auto
  have app: "c \<notin> set w \<Longrightarrow> split_on c (w @ c # s) = w # split_on c s" for w s
    by (induction w) auto
  show ?thesis using assms
    by (induction "[c]" ws rule: join.induct) (auto simp: one app)
qed

end
