(* ===== verification/Interfaces.thy ===== *)
theory Interfaces
  imports TF_Prelude
begin

text \<open>
  The contracts one component relies on another for, as locales: a store of leases (task queue
  and workflow runs), an at-most-once ledger (refunds and replies), and an idempotent insert
  (tasks by idempotency key, runs by ticket id). Each is interpreted on the model's own
  definitions in the theory of the component that provides it.
\<close>

section \<open>Leases\<close>

text \<open>
  Workers claim a key for a fixed time; a janitor clears leases whose time is over. The client
  is a process that holds a lease: it relies on nobody taking its key while the lease lives.
\<close>

datatype lease_event = Claim timestamp string | Reclaim timestamp

fun event_time :: "lease_event \<Rightarrow> timestamp" where
  "event_time (Claim now w) = now"
| "event_time (Reclaim now) = now"

locale lease_store =
  fixes claim :: "timestamp \<Rightarrow> string \<Rightarrow> 's \<Rightarrow> 'k option \<times> 's"
    and reclaim :: "timestamp \<Rightarrow> 's \<Rightarrow> 's"
    and lease :: "'s \<Rightarrow> 'k \<Rightarrow> (string \<times> timestamp) option"
    and inv :: "'s \<Rightarrow> bool"
    and duration :: int
  assumes claim_free:
      "inv s \<Longrightarrow> claim now w s = (Some k, s') \<Longrightarrow> lease s k = Some (ow, e) \<Longrightarrow> e < now"
    and claim_holds:
      "inv s \<Longrightarrow> claim now w s = (Some k, s') \<Longrightarrow> lease s' = (lease s)(k \<mapsto> (w, now + duration))"
    and claim_none: "inv s \<Longrightarrow> claim now w s = (None, s') \<Longrightarrow> lease s' = lease s"
    and reclaim_expired:
      "inv s \<Longrightarrow> lease s k = Some (ow, e) \<Longrightarrow> e < now \<Longrightarrow> lease (reclaim now s) k = None"
    and reclaim_live:
      "inv s \<Longrightarrow> lease s k = Some (ow, e) \<Longrightarrow> now \<le> e \<Longrightarrow> lease (reclaim now s) k = Some (ow, e)"
    and reclaim_none: "inv s \<Longrightarrow> lease s k = None \<Longrightarrow> lease (reclaim now s) k = None"
    and inv_claim: "inv s \<Longrightarrow> inv (snd (claim now w s))"
    and inv_reclaim: "inv s \<Longrightarrow> inv (reclaim now s)"
begin

fun lease_apply :: "lease_event \<Rightarrow> 's \<Rightarrow> 's" where
  "lease_apply (Claim now w) s = snd (claim now w s)"
| "lease_apply (Reclaim now) s = reclaim now s"

lemma inv_lease_apply: "inv s \<Longrightarrow> inv (lease_apply ev s)"
  by (cases ev) (simp_all add: inv_claim inv_reclaim)

lemma claim_other:
  assumes "inv s" and "lease s k = Some (ow, e)" and "now \<le> e"
  shows "fst (claim now w s) \<noteq> Some k" and "lease (snd (claim now w s)) k = Some (ow, e)"
proof -
  obtain r s' where c: "claim now w s = (r, s')" by fastforce
  show ne: "fst (claim now w s) \<noteq> Some k"
  proof
    assume "fst (claim now w s) = Some k"
    then have "claim now w s = (Some k, s')" using c by simp
    from claim_free [OF assms(1) this assms(2)] assms(3) show False by simp
  qed
  show "lease (snd (claim now w s)) k = Some (ow, e)"
  proof (cases r)
    case None
    then show ?thesis using claim_none [OF assms(1)] c assms(2) by simp
  next
    case (Some k')
    then have "k' \<noteq> k" using ne c by simp
    then show ?thesis using claim_holds [OF assms(1)] c Some assms(2) by simp
  qed
qed

lemma live_lease_step:
  assumes "inv s" and "lease s k = Some (ow, e)" and "event_time ev \<le> e"
  shows "lease (lease_apply ev s) k = Some (ow, e)"
  using assms by (cases ev) (simp_all add: claim_other reclaim_live)

text \<open>
  Whatever claims and sweeps happen while a lease lives, its holder keeps it and nobody else is
  given its key.
\<close>

lemma live_lease_kept:
  assumes "inv s" and "lease s k = Some (ow, e)" and "\<forall>ev \<in> set evs. event_time ev \<le> e"
  shows "inv (fold lease_apply evs s) \<and> lease (fold lease_apply evs s) k = Some (ow, e)"
  using assms by (induction evs arbitrary: s) (simp_all add: live_lease_step inv_lease_apply)

lemma live_lease_exclusive:
  assumes "inv s" and "lease s k = Some (ow, e)" and "\<forall>ev \<in> set evs. event_time ev \<le> e"
    and "now \<le> e"
  shows "fst (claim now w (fold lease_apply evs s)) \<noteq> Some k"
  using live_lease_kept [OF assms(1-3)] claim_other(1) assms(4) by blast

end

section \<open>At-most-once ledgers\<close>

text \<open>
  An effect is recorded under a key at most once, every delivery is logged. The client is a
  worker that delivers the same effect any number of times.
\<close>

locale once_ledger =
  fixes record_effect :: "'k \<Rightarrow> 'v \<Rightarrow> nat \<Rightarrow> 's \<Rightarrow> bool \<times> 's"
    and entry :: "'s \<Rightarrow> 'k \<Rightarrow> 'v option"
    and attempts_of :: "'s \<Rightarrow> 'k \<Rightarrow> nat list"
  assumes first_iff: "fst (record_effect k v n s) \<longleftrightarrow> entry s k = None"
    and entry_after:
      "entry (snd (record_effect k v n s)) = (if entry s k = None then (entry s)(k \<mapsto> v) else entry s)"
    and attempts_after:
      "attempts_of (snd (record_effect k v n s)) k' =
         attempts_of s k' @ (if k' = k then [n] else [])"
begin

text \<open>A sequence of deliveries, with what each one answered.\<close>

fun deliver :: "('k \<times> 'v \<times> nat) list \<Rightarrow> 's \<Rightarrow> bool list \<times> 's" where
  "deliver [] s = ([], s)"
| "deliver ((k, v, n) # ds) s =
     (let (b, s') = record_effect k v n s; (bs, s'') = deliver ds s' in (b # bs, s''))"

definition firsts :: "'k \<Rightarrow> ('k \<times> 'v \<times> nat) list \<Rightarrow> bool list \<Rightarrow> nat" where
  "firsts k ds bs = length (filter (\<lambda>(d, b). fst d = k \<and> b) (zip ds bs))"

lemma entry_kept: "entry s k = Some v \<Longrightarrow> entry (snd (deliver ds s)) k = Some v"
proof (induction ds arbitrary: s)
  case (Cons d ds)
  obtain k' v' n where d: "d = (k', v', n)" by (cases d) auto
  have "entry (snd (record_effect k' v' n s)) k = Some v"
    using Cons.prems by (auto simp: entry_after)
  from Cons.IH [OF this] show ?case by (simp add: d split_beta Let_def)
qed simp

lemma firsts_recorded: "entry s k \<noteq> None \<Longrightarrow> firsts k ds (fst (deliver ds s)) = 0"
proof (induction ds arbitrary: s)
  case (Cons d ds)
  obtain k' v' n where d: "d = (k', v', n)" by (cases d) auto
  have "entry (snd (record_effect k' v' n s)) k \<noteq> None"
    using Cons.prems by (auto simp: entry_after)
  from Cons.IH [OF this] show ?case using Cons.prems
    by (auto simp: d split_beta Let_def firsts_def first_iff)
qed (simp add: firsts_def)

text \<open>Exactly one delivery for a key is told it was the first, if there is any at all.\<close>

lemma firsts_fresh:
  assumes "entry s k = None"
  shows "firsts k ds (fst (deliver ds s)) = (if k \<in> fst ` set ds then 1 else 0)"
  using assms
proof (induction ds arbitrary: s)
  case (Cons d ds)
  obtain k' v' n where d: "d = (k', v', n)" by (cases d) auto
  let ?s = "snd (record_effect k' v' n s)"
  show ?case
  proof (cases "k' = k")
    case True
    then have "entry ?s k \<noteq> None" using Cons.prems by (simp add: entry_after)
    from firsts_recorded [OF this, of ds] True Cons.prems show ?thesis
      by (simp add: d split_beta Let_def firsts_def first_iff)
  next
    case False
    then have "entry ?s k = None" using Cons.prems by (simp add: entry_after)
    from Cons.IH [OF this] False show ?thesis
      by (auto simp: d split_beta Let_def firsts_def)
  qed
qed (simp add: firsts_def)

text \<open>The value recorded is the one of the first delivery.\<close>

lemma entry_first:
  assumes "entry s k = None"
  shows "entry (snd (deliver ds s)) k = map_option (\<lambda>(_, v, _). v) (find (\<lambda>d. fst d = k) ds)"
  using assms
proof (induction ds arbitrary: s)
  case (Cons d ds)
  obtain k' v' n where d: "d = (k', v', n)" by (cases d) auto
  let ?s = "snd (record_effect k' v' n s)"
  show ?case
  proof (cases "k' = k")
    case True
    then have "entry ?s k = Some v'" using Cons.prems by (simp add: entry_after)
    from entry_kept [OF this] True show ?thesis by (simp add: d split_beta Let_def)
  next
    case False
    then have "entry ?s k = None" using Cons.prems by (simp add: entry_after)
    from Cons.IH [OF this] False show ?thesis by (simp add: d split_beta Let_def)
  qed
qed simp

lemma attempts_all:
  "attempts_of (snd (deliver ds s)) k =
     attempts_of s k @ map (\<lambda>(_, _, n). n) (filter (\<lambda>d. fst d = k) ds)"
proof (induction ds arbitrary: s)
  case (Cons d ds)
  obtain k' v' n where d: "d = (k', v', n)" by (cases d) auto
  show ?case by (simp add: d split_beta Let_def Cons.IH attempts_after)
qed simp

end

section \<open>Idempotent inserts\<close>

text \<open>
  \<^verbatim>\<open>INSERT ... ON CONFLICT (key) DO NOTHING\<close>: the first insert under a key wins, every
  later one leaves the rows as they are. The client is a process that may insert the same row
  again after a crash, or race another one that inserts it.
\<close>

locale insert_once =
  fixes insert_row :: "'a \<Rightarrow> 's \<Rightarrow> 's"
    and key_of :: "'a \<Rightarrow> 'k"
    and row :: "'s \<Rightarrow> 'k \<Rightarrow> 'r option"
    and make :: "'a \<Rightarrow> 's \<Rightarrow> 'r"
  assumes row_insert:
    "row (insert_row a s) k =
       (if k = key_of a \<and> row s k = None then Some (make a s) else row s k)"
begin

lemma insert_present: "row s (key_of a) \<noteq> None \<Longrightarrow> row (insert_row a s) = row s"
  by (auto simp: row_insert fun_eq_iff)

lemma insert_again: "key_of b = key_of a \<Longrightarrow> row (insert_row b (insert_row a s)) = row (insert_row a s)"
  by (rule insert_present) (simp add: row_insert)

lemma row_kept: "row s k = Some r \<Longrightarrow> row (insert_row a s) k = Some r"
  by (simp add: row_insert)

lemma rows_kept: "row s k = Some r \<Longrightarrow> row (fold insert_row as s) k = Some r"
  by (induction as arbitrary: s) (simp_all add: row_kept)

end

end
