(* ===== verification/TaskQueue.thy ===== *)
theory TaskQueue
  imports Interfaces
begin

text \<open>
  The durable task queue: table \<^verbatim>\<open>task_queue\<close> (migration 001 of
  \<^verbatim>\<open>src/ticketflow/db.py\<close>), the operations of \<^verbatim>\<open>src/ticketflow/taskqueue.py\<close> and
  \<^verbatim>\<open>dequeue\<close> of \<^verbatim>\<open>db.py\<close>. Every operation is one SQL statement, so it is one function on
  the table; \<^verbatim>\<open>now\<close> is the transaction's \<^verbatim>\<open>now()\<close>. Rows are listed in the order of
  their serial ids.
\<close>

section \<open>State\<close>

datatype task_status = Pending | Leased | Done | Failed

record task =
  t_id :: int
  queue_name :: string
  task_type :: string
  t_workflow_id :: string
  payload :: json
  idempotency_key :: string
  t_status :: task_status
  attempts :: nat
  max_attempts :: nat
  available_at :: timestamp
  enqueued_at :: timestamp
  t_lease_owner :: "string option"
  t_lease_expires_at :: "timestamp option"
  t_result :: "json option"
  t_error :: "string option"
  permanent :: bool

record task_table =
  t_rows :: "task list"
  t_seq :: int

definition empty_queue :: task_table where
  "empty_queue = \<lparr> t_rows = [], t_seq = 1 \<rparr>"

definition task_by_key :: "string \<Rightarrow> task_table \<Rightarrow> task option" where
  "task_by_key k q = find_by idempotency_key k (t_rows q)"

definition task_by_id :: "int \<Rightarrow> task_table \<Rightarrow> task option" where
  "task_by_id i q = find_by t_id i (t_rows q)"

section \<open>Operations\<close>

text \<open>
  \<^verbatim>\<open>enqueue\<close>: the row gets the next serial id, which \<^verbatim>\<open>ON CONFLICT DO NOTHING\<close> uses up
  as well.
\<close>

definition enqueue ::
  "timestamp \<Rightarrow> string \<Rightarrow> string \<Rightarrow> string \<Rightarrow> json \<Rightarrow> string \<Rightarrow> nat \<Rightarrow> timestamp option
     \<Rightarrow> task_table \<Rightarrow> int option \<times> task_table" where
  "enqueue now qn ty wid pl key maxa avail q =
     (if list_ex (\<lambda>r. idempotency_key r = key) (t_rows q)
      then (None, q\<lparr> t_seq := t_seq q + 1 \<rparr>)
      else (Some (t_seq q),
            q\<lparr> t_rows := t_rows q @
                 [\<lparr> t_id = t_seq q, queue_name = qn, task_type = ty, t_workflow_id = wid,
                    payload = pl, idempotency_key = key, t_status = Pending, attempts = 0,
                    max_attempts = maxa,
                    available_at = (case avail of None \<Rightarrow> now | Some t \<Rightarrow> t),
                    enqueued_at = now, t_lease_owner = None, t_lease_expires_at = None,
                    t_result = None, t_error = None, permanent = False \<rparr>],
               t_seq := t_seq q + 1 \<rparr>))"

text \<open>\<^verbatim>\<open>aenqueue\<close>: the same statement on an async connection.\<close>

definition aenqueue ::
  "timestamp \<Rightarrow> string \<Rightarrow> string \<Rightarrow> string \<Rightarrow> json \<Rightarrow> string \<Rightarrow> nat \<Rightarrow> timestamp option
     \<Rightarrow> task_table \<Rightarrow> int option \<times> task_table" where
  "aenqueue now qn ty wid pl key maxa avail q =
     (if list_ex (\<lambda>r. idempotency_key r = key) (t_rows q)
      then (None, q\<lparr> t_seq := t_seq q + 1 \<rparr>)
      else (Some (t_seq q),
            q\<lparr> t_rows := t_rows q @
                 [\<lparr> t_id = t_seq q, queue_name = qn, task_type = ty, t_workflow_id = wid,
                    payload = pl, idempotency_key = key, t_status = Pending, attempts = 0,
                    max_attempts = maxa,
                    available_at = (case avail of None \<Rightarrow> now | Some t \<Rightarrow> t),
                    enqueued_at = now, t_lease_owner = None, t_lease_expires_at = None,
                    t_result = None, t_error = None, permanent = False \<rparr>],
               t_seq := t_seq q + 1 \<rparr>))"

text \<open>The default of \<^verbatim>\<open>max_attempts\<close> in \<^verbatim>\<open>enqueue\<close>'s signature.\<close>

definition default_max_attempts :: nat where
  "default_max_attempts = 3"

definition is_pending :: "string \<Rightarrow> task_table \<Rightarrow> bool" where
  "is_pending key q = list_ex (\<lambda>r. idempotency_key r = key \<and> t_status r = Pending) (t_rows q)"

definition cancel_pending :: "string \<Rightarrow> string \<Rightarrow> task_table \<Rightarrow> bool \<times> task_table" where
  "cancel_pending key reason q =
     (let P = (\<lambda>r. idempotency_key r = key \<and> t_status r = Pending)
      in (list_ex P (t_rows q),
          q\<lparr> t_rows := update_where P
               (\<lambda>r. r\<lparr> t_status := Failed, t_error := Some reason, permanent := True \<rparr>)
               (t_rows q) \<rparr>))"

definition acancel_pending :: "string \<Rightarrow> string \<Rightarrow> task_table \<Rightarrow> bool \<times> task_table" where
  "acancel_pending key reason q =
     (let P = (\<lambda>r. idempotency_key r = key \<and> t_status r = Pending)
      in (list_ex P (t_rows q),
          q\<lparr> t_rows := update_where P
               (\<lambda>r. r\<lparr> t_status := Failed, t_error := Some reason, permanent := True \<rparr>)
               (t_rows q) \<rparr>))"

definition leased_with_id :: "int \<Rightarrow> task \<Rightarrow> bool" where
  "leased_with_id i r = (t_id r = i \<and> t_status r = Leased)"

definition complete_row :: "json \<Rightarrow> task \<Rightarrow> task" where
  "complete_row res r =
     r\<lparr> t_status := Done, t_result := Some res, t_error := None,
        t_lease_owner := None, t_lease_expires_at := None \<rparr>"

definition complete :: "int \<Rightarrow> json \<Rightarrow> task_table \<Rightarrow> task_status option \<times> task_table" where
  "complete i res q =
     (map_option (\<lambda>r. t_status (complete_row res r)) (find (leased_with_id i) (t_rows q)),
      q\<lparr> t_rows := update_where (leased_with_id i) (complete_row res) (t_rows q) \<rparr>)"

text \<open>
  \<^verbatim>\<open>fail\<close>: the right-hand sides of \<^verbatim>\<open>SET\<close> read the old row, so the retry test uses the
  row's \<^verbatim>\<open>permanent\<close> flag and the caller's.
\<close>

definition retryable :: "bool \<Rightarrow> task \<Rightarrow> bool" where
  "retryable perm r = (attempts r < max_attempts r \<and> \<not> (permanent r \<or> perm))"

definition backoff :: "nat \<Rightarrow> int" where
  "backoff n = seconds (2 ^ n)"

definition fail_row :: "timestamp \<Rightarrow> string \<Rightarrow> bool \<Rightarrow> task \<Rightarrow> task" where
  "fail_row now err perm r =
     r\<lparr> t_status := (if retryable perm r then Pending else Failed),
        available_at := (if retryable perm r then now + backoff (attempts r)
                         else available_at r),
        t_error := Some err, permanent := (permanent r \<or> perm),
        t_lease_owner := None, t_lease_expires_at := None \<rparr>"

definition fail ::
  "timestamp \<Rightarrow> int \<Rightarrow> string \<Rightarrow> bool \<Rightarrow> task_table \<Rightarrow> task_status option \<times> task_table" where
  "fail now i err perm q =
     (map_option (\<lambda>r. t_status (fail_row now err perm r)) (find (leased_with_id i) (t_rows q)),
      q\<lparr> t_rows := update_where (leased_with_id i) (fail_row now err perm) (t_rows q) \<rparr>)"

definition expired_lease :: "timestamp \<Rightarrow> task \<Rightarrow> bool" where
  "expired_lease now r =
     (t_status r = Leased \<and> (case t_lease_expires_at r of Some e \<Rightarrow> e < now | None \<Rightarrow> False))"

definition reclaim_expired :: "timestamp \<Rightarrow> task_table \<Rightarrow> nat \<times> task_table" where
  "reclaim_expired now q =
     (length (filter (expired_lease now) (t_rows q)),
      q\<lparr> t_rows := update_where (expired_lease now)
           (\<lambda>r. r\<lparr> t_status := Pending, t_lease_owner := None, t_lease_expires_at := None \<rparr>)
           (t_rows q) \<rparr>)"

definition settled :: "task \<Rightarrow> bool" where
  "settled r = (t_status r = Done \<or> t_status r = Failed)"

definition prune_settled :: "timestamp \<Rightarrow> int \<Rightarrow> task_table \<Rightarrow> nat \<times> task_table" where
  "prune_settled now max_age q =
     (let P = (\<lambda>r. settled r \<and> enqueued_at r < now - max_age)
      in (length (filter P (t_rows q)), q\<lparr> t_rows := filter (\<lambda>r. \<not> P r) (t_rows q) \<rparr>))"

text \<open>
  \<^verbatim>\<open>dequeue\<close>: \<^verbatim>\<open>SKIP LOCKED\<close> passes over the rows another transaction holds, the
  parameter \<^verbatim>\<open>locked\<close>.
\<close>

definition due_in :: "timestamp \<Rightarrow> string \<Rightarrow> int set \<Rightarrow> task \<Rightarrow> bool" where
  "due_in now qn locked r =
     (queue_name r = qn \<and> t_status r = Pending \<and> available_at r \<le> now \<and> t_id r \<notin> locked)"

definition lease_row :: "timestamp \<Rightarrow> string \<Rightarrow> task \<Rightarrow> task" where
  "lease_row now w r =
     r\<lparr> t_status := Leased, t_lease_owner := Some w,
        t_lease_expires_at := Some (now + seconds 30), attempts := attempts r + 1 \<rparr>"

definition dequeue ::
  "timestamp \<Rightarrow> int set \<Rightarrow> string \<Rightarrow> string \<Rightarrow> task_table \<Rightarrow> task option \<times> task_table" where
  "dequeue now locked qn w q =
     (case first_by available_at (filter (due_in now qn locked) (t_rows q)) of
        None \<Rightarrow> (None, q)
      | Some r \<Rightarrow> (Some (lease_row now w r),
           q\<lparr> t_rows := update_where (\<lambda>x. t_id x = t_id r) (lease_row now w) (t_rows q) \<rparr>))"

section \<open>Well-formed tables\<close>

definition wf_task :: "task \<Rightarrow> bool" where
  "wf_task r =
     ((t_status r = Leased \<longleftrightarrow> t_lease_owner r \<noteq> None) \<and>
      (t_status r = Leased \<longleftrightarrow> t_lease_expires_at r \<noteq> None) \<and>
      (t_status r = Done \<longleftrightarrow> t_result r \<noteq> None) \<and>
      (t_status r = Failed \<longrightarrow> t_error r \<noteq> None) \<and>
      (t_status r = Leased \<longrightarrow> 0 < attempts r) \<and>
      (permanent r \<longrightarrow> t_status r = Failed))"

definition wf_queue :: "task_table \<Rightarrow> bool" where
  "wf_queue q =
     (distinct (map t_id (t_rows q)) \<and> distinct (map idempotency_key (t_rows q)) \<and>
      (\<forall>r \<in> set (t_rows q). t_id r < t_seq q) \<and> (\<forall>r \<in> set (t_rows q). wf_task r))"

text \<open>A statement of the queue's API, and its effect on the table.\<close>

datatype queue_op =
    Enqueue timestamp string string string json string nat "timestamp option"
  | Dequeue timestamp "int set" string string
  | Complete int json
  | Fail timestamp int string bool
  | Cancel string string
  | ReclaimTasks timestamp
  | Prune timestamp int

fun queue_apply :: "queue_op \<Rightarrow> task_table \<Rightarrow> task_table" where
  "queue_apply (Enqueue now qn ty wid pl key maxa avail) q =
     snd (enqueue now qn ty wid pl key maxa avail q)"
| "queue_apply (Dequeue now locked qn w) q = snd (dequeue now locked qn w q)"
| "queue_apply (Complete i res) q = snd (complete i res q)"
| "queue_apply (Fail now i err perm) q = snd (fail now i err perm q)"
| "queue_apply (Cancel key reason) q = snd (cancel_pending key reason q)"
| "queue_apply (ReclaimTasks now) q = snd (reclaim_expired now q)"
| "queue_apply (Prune now age) q = snd (prune_settled now age q)"

section \<open>Preservation lemmas\<close>

lemma wf_queue_empty: "wf_queue empty_queue"
  by (simp add: wf_queue_def empty_queue_def)

lemma wf_queue_update:
  assumes "wf_queue q" and "\<And>r. r \<in> set (t_rows q) \<Longrightarrow> P r \<Longrightarrow> wf_task (f r)"
    and "\<And>r. t_id (f r) = t_id r" and "\<And>r. idempotency_key (f r) = idempotency_key r"
  shows "wf_queue (q\<lparr> t_rows := update_where P f (t_rows q) \<rparr>)"
  using assms by (auto simp: wf_queue_def map_update_where set_update_where)

lemma wf_queue_filter: "wf_queue q \<Longrightarrow> wf_queue (q\<lparr> t_rows := filter P (t_rows q) \<rparr>)"
  by (auto simp: wf_queue_def distinct_map_filter)

lemma wf_queue_skip: "wf_queue q \<Longrightarrow> wf_queue (q\<lparr> t_seq := t_seq q + 1 \<rparr>)"
  by (fastforce simp: wf_queue_def)

lemma wf_queue_insert:
  assumes "wf_queue q" and "\<forall>x \<in> set (t_rows q). idempotency_key x \<noteq> idempotency_key r"
    and "t_id r = t_seq q" and "wf_task r"
  shows "wf_queue (q\<lparr> t_rows := t_rows q @ [r], t_seq := t_seq q + 1 \<rparr>)"
  using assms by (fastforce simp: wf_queue_def)

lemma wf_enqueue: "wf_queue q \<Longrightarrow> wf_queue (snd (enqueue now qn ty wid pl key maxa avail q))"
  unfolding enqueue_def
  by (cases "list_ex (\<lambda>r. idempotency_key r = key) (t_rows q)")
     (simp_all add: wf_queue_skip wf_queue_insert wf_task_def list_ex_iff)

lemma wf_cancel: "wf_queue q \<Longrightarrow> wf_queue (snd (cancel_pending key reason q))"
  unfolding cancel_pending_def Let_def snd_conv
  by (rule wf_queue_update) (auto simp: wf_queue_def wf_task_def)

lemma wf_complete: "wf_queue q \<Longrightarrow> wf_queue (snd (complete i res q))"
  unfolding complete_def snd_conv
  by (rule wf_queue_update) (auto simp: wf_queue_def wf_task_def complete_row_def leased_with_id_def)

lemma wf_fail: "wf_queue q \<Longrightarrow> wf_queue (snd (fail now i err perm q))"
  unfolding fail_def snd_conv
  by (rule wf_queue_update)
     (auto simp: wf_queue_def wf_task_def fail_row_def leased_with_id_def retryable_def)

lemma wf_reclaim: "wf_queue q \<Longrightarrow> wf_queue (snd (reclaim_expired now q))"
  unfolding reclaim_expired_def snd_conv
  by (rule wf_queue_update) (auto simp: wf_queue_def wf_task_def expired_lease_def)

lemma wf_prune: "wf_queue q \<Longrightarrow> wf_queue (snd (prune_settled now age q))"
  by (simp add: prune_settled_def Let_def wf_queue_filter)

lemma wf_lease_row: "wf_task r \<Longrightarrow> t_status r = Pending \<Longrightarrow> wf_task (lease_row now w r)"
  by (auto simp: wf_task_def lease_row_def)

text \<open>What \<^verbatim>\<open>dequeue\<close> does, from its two outcomes.\<close>

lemma dequeue_NoneE:
  assumes "dequeue now locked qn w q = (None, q')"
  shows "q' = q" and "\<forall>r \<in> set (t_rows q). \<not> due_in now qn locked r"
  using assms by (auto simp: dequeue_def filter_empty_conv split: option.splits)

lemma dequeue_SomeE:
  assumes "dequeue now locked qn w q = (Some t, q')"
  obtains r where "r \<in> set (t_rows q)" "due_in now qn locked r"
    "\<forall>r' \<in> set (t_rows q). due_in now qn locked r' \<longrightarrow> available_at r \<le> available_at r'"
    "t = lease_row now w r"
    "q' = q\<lparr> t_rows := update_where (\<lambda>x. t_id x = t_id r) (lease_row now w) (t_rows q) \<rparr>"
proof -
  from assms obtain r where
    f: "first_by available_at (filter (due_in now qn locked) (t_rows q)) = Some r"
    and t: "t = lease_row now w r"
    and q': "q' = q\<lparr> t_rows := update_where (\<lambda>x. t_id x = t_id r) (lease_row now w) (t_rows q) \<rparr>"
    by (auto simp: dequeue_def split: option.splits)
  from first_by_Some [OF f] show thesis using t q' by (intro that) auto
qed

lemma dequeue_cases:
  obtains (none) "dequeue now locked qn w q = (None, q)"
      "\<forall>r \<in> set (t_rows q). \<not> due_in now qn locked r"
  | (some) r where "r \<in> set (t_rows q)" "due_in now qn locked r"
      "dequeue now locked qn w q = (Some (lease_row now w r),
         q\<lparr> t_rows := update_where (\<lambda>x. t_id x = t_id r) (lease_row now w) (t_rows q) \<rparr>)"
proof (cases "dequeue now locked qn w q")
  case (Pair t q')
  show thesis
  proof (cases t)
    case None
    with Pair have "dequeue now locked qn w q = (None, q')" by simp
    from dequeue_NoneE [OF this] this show thesis using none by simp
  next
    case (Some t')
    with Pair have "dequeue now locked qn w q = (Some t', q')" by simp
    from dequeue_SomeE [OF this] this show thesis using some by metis
  qed
qed

lemma wf_dequeue: "wf_queue q \<Longrightarrow> wf_queue (snd (dequeue now locked qn w q))"
proof (cases rule: dequeue_cases [of now locked qn w q])
  case (some r)
  assume wq: "wf_queue q"
  have same: "x \<in> set (t_rows q) \<Longrightarrow> t_id x = t_id r \<Longrightarrow> x = r" for x
    using wq some(1) by (auto simp: wf_queue_def dest: distinct_key_inj)
  have "wf_queue (q\<lparr> t_rows := update_where (\<lambda>x. t_id x = t_id r) (lease_row now w) (t_rows q) \<rparr>)"
    using wq
  proof (rule wf_queue_update)
    fix x assume "x \<in> set (t_rows q)" "t_id x = t_id r"
    then have "x = r" by (rule same)
    then show "wf_task (lease_row now w x)"
      using wq some(1,2) by (auto simp: wf_queue_def due_in_def intro: wf_lease_row)
  qed (simp_all add: lease_row_def)
  then show ?thesis using some(3) by simp
qed simp

lemma wf_queue_apply: "wf_queue q \<Longrightarrow> wf_queue (queue_apply op q)"
  by (cases op) (simp_all add: wf_enqueue wf_dequeue wf_complete wf_fail wf_cancel wf_reclaim
      wf_prune)

lemma wf_queue_fold: "wf_queue q \<Longrightarrow> wf_queue (fold queue_apply ops q)"
  by (induction ops arbitrary: q) (simp_all add: wf_queue_apply)

text \<open>The async statements are the sync ones.\<close>

lemma aenqueue_eq [simp]: "aenqueue = enqueue"
  by (intro ext) (simp add: aenqueue_def enqueue_def)

lemma acancel_pending_eq [simp]: "acancel_pending = cancel_pending"
  by (intro ext) (simp add: acancel_pending_def cancel_pending_def)

section \<open>Settled tasks\<close>

lemma settled_dequeue:
  assumes "wf_queue q" and "r \<in> set (t_rows q)" and "settled r"
  shows "r \<in> set (t_rows (snd (dequeue now locked qn w q)))"
proof (cases rule: dequeue_cases [of now locked qn w q])
  case (some x)
  have "t_id r \<noteq> t_id x"
  proof
    assume "t_id r = t_id x"
    then have "r = x" using assms(1,2) some(1) by (auto simp: wf_queue_def dest: distinct_key_inj)
    then show False using some(2) assms(3) by (simp add: due_in_def settled_def)
  qed
  then show ?thesis using assms(2) by (force simp: some(3) set_update_where)
qed (use assms in simp)

lemma settled_update:
  assumes "r \<in> set rows" and "\<not> P r"
  shows "r \<in> set (update_where P f rows)"
  using assms by (force simp: set_update_where)

text \<open>
  A settled row is left alone by every statement but the retention sweep that deletes it, and
  the sweep deletes it only when it was enqueued longer ago than the retention age.
\<close>

lemma settled_kept:
  assumes "wf_queue q" and "r \<in> set (t_rows q)" and "settled r"
    and "\<And>now age. op = Prune now age \<Longrightarrow> now - age \<le> enqueued_at r"
  shows "r \<in> set (t_rows (queue_apply op q))"
proof (cases op)
  case (Enqueue now qn ty wid pl key maxa avail)
  then show ?thesis using assms(2) by (simp add: enqueue_def)
next
  case (Dequeue now locked qn w)
  then show ?thesis using settled_dequeue [OF assms(1-3)] by simp
next
  case (Prune now age)
  then show ?thesis using assms(2,3) assms(4) [OF Prune] by (simp add: prune_settled_def Let_def)
qed (use assms(2,3) in \<open>auto simp: complete_def fail_def cancel_pending_def reclaim_expired_def
      leased_with_id_def expired_lease_def settled_def Let_def intro: settled_update\<close>)

section \<open>The contracts the queue provides\<close>

lemma task_by_id_update:
  "(\<And>r. t_id (f r) = t_id r) \<Longrightarrow>
   task_by_id i (q\<lparr> t_rows := update_where P f (t_rows q) \<rparr>) =
     map_option (\<lambda>r. if P r then f r else r) (task_by_id i q)"
  by (simp add: task_by_id_def find_by_update_where_key)

lemma task_by_id_Some: "task_by_id i q = Some r \<Longrightarrow> r \<in> set (t_rows q) \<and> t_id r = i"
  unfolding task_by_id_def by (rule find_by_Some)

lemma task_by_id_row: "wf_queue q \<Longrightarrow> r \<in> set (t_rows q) \<Longrightarrow> task_by_id (t_id r) q = Some r"
  by (simp add: task_by_id_def wf_queue_def find_by_unique)

lemma task_by_key_Some: "task_by_key k q = Some r \<Longrightarrow> r \<in> set (t_rows q) \<and> idempotency_key r = k"
  unfolding task_by_key_def by (rule find_by_Some)

lemma task_by_key_row:
  "wf_queue q \<Longrightarrow> r \<in> set (t_rows q) \<Longrightarrow> task_by_key (idempotency_key r) q = Some r"
  by (simp add: task_by_key_def wf_queue_def find_by_unique)

definition task_lease :: "task_table \<Rightarrow> int \<Rightarrow> (string \<times> timestamp) option" where
  "task_lease q i = Option.bind (task_by_id i q) (\<lambda>r.
     case (t_lease_owner r, t_lease_expires_at r) of
       (Some ow, Some e) \<Rightarrow> Some (ow, e) | _ \<Rightarrow> None)"

definition task_claim ::
  "int set \<Rightarrow> string \<Rightarrow> timestamp \<Rightarrow> string \<Rightarrow> task_table \<Rightarrow> int option \<times> task_table" where
  "task_claim locked qn now w q =
     (map_option t_id (fst (dequeue now locked qn w q)), snd (dequeue now locked qn w q))"

lemma lease_row_simps [simp]:
  "t_id (lease_row now w r) = t_id r"
  "idempotency_key (lease_row now w r) = idempotency_key r"
  "t_status (lease_row now w r) = Leased"
  "t_lease_owner (lease_row now w r) = Some w"
  "t_lease_expires_at (lease_row now w r) = Some (now + seconds 30)"
  "attempts (lease_row now w r) = attempts r + 1"
  "max_attempts (lease_row now w r) = max_attempts r"
  "task_type (lease_row now w r) = task_type r"
  "payload (lease_row now w r) = payload r"
  "t_workflow_id (lease_row now w r) = t_workflow_id r"
  "queue_name (lease_row now w r) = queue_name r"
  "permanent (lease_row now w r) = permanent r"
  "t_result (lease_row now w r) = t_result r"
  by (simp_all add: lease_row_def)

lemma task_lease_claimed:
  assumes "wf_queue q" and "r \<in> set (t_rows q)"
  shows "task_lease (q\<lparr> t_rows := update_where (\<lambda>x. t_id x = t_id r) (lease_row now w) (t_rows q) \<rparr>)
    = (task_lease q)(t_id r \<mapsto> (w, now + seconds 30))"
proof
  fix i
  show "task_lease (q\<lparr> t_rows :=
      update_where (\<lambda>x. t_id x = t_id r) (lease_row now w) (t_rows q) \<rparr>) i
    = ((task_lease q)(t_id r \<mapsto> (w, now + seconds 30))) i"
  proof (cases "i = t_id r")
    case True
    then show ?thesis using task_by_id_row [OF assms]
      by (simp add: task_lease_def task_by_id_update)
  next
    case False
    then have "map_option (\<lambda>x. if t_id x = t_id r then lease_row now w x else x)
        (task_by_id i q) = task_by_id i q"
      by (cases "task_by_id i q") (auto dest: task_by_id_Some)
    then show ?thesis using False by (simp add: task_lease_def task_by_id_update)
  qed
qed

lemma task_lease_reclaim:
  assumes "wf_queue q"
  shows "task_lease (snd (reclaim_expired now q)) i =
    (case task_lease q i of Some (ow, e) \<Rightarrow> if e < now then None else Some (ow, e) | None \<Rightarrow> None)"
proof (cases "task_by_id i q")
  case (Some r)
  then have "wf_task r" using assms by (auto dest: task_by_id_Some simp: wf_queue_def)
  then show ?thesis using Some
    by (cases "t_status r = Leased"; cases "t_lease_owner r"; cases "t_lease_expires_at r")
       (auto simp: task_lease_def reclaim_expired_def task_by_id_update expired_lease_def wf_task_def)
qed (simp add: task_lease_def reclaim_expired_def task_by_id_update)

lemma task_claim_none:
  "task_claim locked qn now w q = (None, q') \<Longrightarrow> q' = q"
  by (cases rule: dequeue_cases [of now locked qn w q]) (simp_all add: task_claim_def)

lemma task_claim_some:
  assumes "task_claim locked qn now w q = (Some i, q')"
  obtains r where "r \<in> set (t_rows q)" "due_in now qn locked r" "i = t_id r"
    "q' = q\<lparr> t_rows := update_where (\<lambda>x. t_id x = t_id r) (lease_row now w) (t_rows q) \<rparr>"
  using assms
  by (cases rule: dequeue_cases [of now locked qn w q]) (auto simp: task_claim_def)

interpretation tasks: lease_store "task_claim locked qn" "\<lambda>now q. snd (reclaim_expired now q)"
  task_lease wf_queue "seconds 30" for locked qn
proof unfold_locales
  fix s s' now w k ow e
  assume "wf_queue s" and "task_claim locked qn now w s = (Some k, s')"
    and l: "task_lease s k = Some (ow, e)"
  from this(2) obtain r where r: "r \<in> set (t_rows s)" "due_in now qn locked r" "k = t_id r"
    by (rule task_claim_some)
  have "task_by_id k s = Some r" using r \<open>wf_queue s\<close> by (simp add: task_by_id_row)
  moreover have "t_lease_owner r = None" using r \<open>wf_queue s\<close>
    by (auto simp: wf_queue_def wf_task_def due_in_def)
  ultimately show "e < now" using l by (simp add: task_lease_def)
next
  fix s s' now w k
  assume "wf_queue s" and "task_claim locked qn now w s = (Some k, s')"
  from this(2) obtain r where r: "r \<in> set (t_rows s)" "k = t_id r"
    "s' = s\<lparr> t_rows := update_where (\<lambda>x. t_id x = t_id r) (lease_row now w) (t_rows s) \<rparr>"
    by (rule task_claim_some)
  then show "task_lease s' = (task_lease s)(k \<mapsto> (w, now + seconds 30))"
    using task_lease_claimed [OF \<open>wf_queue s\<close>] by simp
next
  fix s s' now w
  assume "task_claim locked qn now w s = (None, s')"
  then show "task_lease s' = task_lease s" using task_claim_none by metis
qed (simp_all add: task_lease_reclaim task_claim_def wf_dequeue wf_reclaim)

definition enqueue_row ::
  "timestamp \<times> string \<times> string \<times> string \<times> json \<times> string \<times> nat \<times> timestamp option
     \<Rightarrow> task_table \<Rightarrow> task" where
  "enqueue_row = (\<lambda>(now, qn, ty, wid, pl, key, maxa, avail) q.
     \<lparr> t_id = t_seq q, queue_name = qn, task_type = ty, t_workflow_id = wid,
       payload = pl, idempotency_key = key, t_status = Pending, attempts = 0,
       max_attempts = maxa, available_at = (case avail of None \<Rightarrow> now | Some t \<Rightarrow> t),
       enqueued_at = now, t_lease_owner = None, t_lease_expires_at = None,
       t_result = None, t_error = None, permanent = False \<rparr>)"

lemma task_by_key_enqueue:
  "task_by_key k (snd (enqueue now qn ty wid pl key maxa avail q)) =
    (if k = key \<and> task_by_key k q = None
     then Some (enqueue_row (now, qn, ty, wid, pl, key, maxa, avail) q) else task_by_key k q)"
proof -
  have "list_ex (\<lambda>r. idempotency_key r = key) (t_rows q) \<longleftrightarrow> task_by_key key q \<noteq> None"
    by (auto simp: list_ex_iff task_by_key_def find_by_None)
  then show ?thesis
    by (auto simp: enqueue_def task_by_key_def find_by_append enqueue_row_def split: option.splits)
qed

interpretation outbox: insert_once
  "\<lambda>(now, qn, ty, wid, pl, key, maxa, avail) q. snd (enqueue now qn ty wid pl key maxa avail q)"
  "\<lambda>(now, qn, ty, wid, pl, key, maxa, avail). key" "\<lambda>q k. task_by_key k q" enqueue_row
  by unfold_locales (auto simp: task_by_key_enqueue split: prod.splits)

section \<open>Leased rows\<close>

lemma leased_none:
  "find (leased_with_id i) rows = None \<Longrightarrow> update_where (leased_with_id i) f rows = rows"
  by (auto simp: find_None_iff intro: update_where_none)

lemma find_leased:
  assumes "wf_queue q"
  shows "find (leased_with_id i) (t_rows q) =
    (case task_by_id i q of
       Some r \<Rightarrow> (if t_status r = Leased then Some r else None) | None \<Rightarrow> None)"
proof (cases "find (leased_with_id i) (t_rows q)")
  case None
  then show ?thesis
    by (auto simp: find_None_iff leased_with_id_def split: option.splits dest: task_by_id_Some)
next
  case (Some r)
  then have "r \<in> set (t_rows q)" "leased_with_id i r" by (auto simp: find_Some_iff)
  then show ?thesis using Some task_by_id_row [OF assms] by (auto simp: leased_with_id_def)
qed

section \<open>Properties of the queue\<close>

text \<open>
  C24: the whole API keeps the table well formed: starting from the empty table, after any
  sequence of enqueues, dequeues, completions, failures, cancellations, janitor sweeps and
  retention sweeps, ids and idempotency keys are unique, a row has a lease owner and a lease
  expiry exactly while it is leased, a result exactly when it is done, an error whenever it has
  failed, and a permanent row is a failed one.
\<close>

theorem queue_wf_invariant: "wf_queue (fold queue_apply ops empty_queue)"
  by (rule wf_queue_fold [OF wf_queue_empty])

text \<open>
  C15: \<^verbatim>\<open>dequeue\<close> leases a pending task of its queue whose time has come and that no other
  transaction holds, and the one that became available first; the task it returns is the row as
  stored, with the caller's 30 second lease and one attempt more, and every other row is as
  before. It returns nothing, and changes nothing, only when there is no such task.
\<close>

theorem dequeue_correct:
  assumes "wf_queue q"
  shows "let due = (\<lambda>r. queue_name r = qn \<and> t_status r = Pending \<and> available_at r \<le> now \<and>
           t_id r \<notin> locked)
    in case dequeue now locked qn w q of
         (None, q') \<Rightarrow> q' = q \<and> (\<forall>r \<in> set (t_rows q). \<not> due r)
       | (Some t, q') \<Rightarrow>
           task_by_id (t_id t) q' = Some t \<and>
           (\<exists>r. task_by_id (t_id t) q = Some r \<and> due r \<and>
              t = r\<lparr> t_status := Leased, t_lease_owner := Some w,
                t_lease_expires_at := Some (now + seconds 30), attempts := attempts r + 1 \<rparr> \<and>
              (\<forall>r' \<in> set (t_rows q). due r' \<longrightarrow> available_at r \<le> available_at r')) \<and>
           (\<forall>i. i \<noteq> t_id t \<longrightarrow> task_by_id i q' = task_by_id i q)"
proof (cases "dequeue now locked qn w q")
  case (Pair out q')
  show ?thesis
  proof (cases out)
    case None
    with Pair dequeue_NoneE [of now locked qn w q q'] show ?thesis
      by (auto simp: Let_def due_in_def)
  next
    case (Some t)
    with Pair have "dequeue now locked qn w q = (Some t, q')" by simp
    then obtain r where r: "r \<in> set (t_rows q)" "due_in now qn locked r"
      and least: "\<forall>r' \<in> set (t_rows q). due_in now qn locked r' \<longrightarrow> available_at r \<le> available_at r'"
      and t: "t = lease_row now w r"
      and q': "q' = q\<lparr> t_rows := update_where (\<lambda>x. t_id x = t_id r) (lease_row now w) (t_rows q) \<rparr>"
      by (rule dequeue_SomeE)
    have at: "task_by_id i q' =
        map_option (\<lambda>x. if t_id x = t_id r then lease_row now w x else x) (task_by_id i q)" for i
      by (simp add: q' task_by_id_update)
    have "task_by_id i q' = task_by_id i q" if "i \<noteq> t_id t" for i
      using that t by (cases "task_by_id i q") (auto simp: at dest: task_by_id_Some)
    then show ?thesis using Pair Some r least t task_by_id_row [OF assms r(1)]
      by (simp add: at Let_def due_in_def) (simp add: lease_row_def)
  qed
qed

theorem dequeue_correct_witness:
  "\<exists>t q'. dequeue 5 {} ''a'' ''w''
     (snd (enqueue 0 ''a'' ''classify'' ''t1'' JNull ''t1:classify'' 3 None empty_queue))
       = (Some t, q') \<and> task_by_id (t_id t) q' = Some t \<and> attempts t = 1"
proof -
  let ?q = "snd (enqueue 0 ''a'' ''classify'' ''t1'' JNull ''t1:classify'' 3 None empty_queue)"
  obtain t q' where d: "dequeue 5 {} ''a'' ''w'' ?q = (Some t, q')" and a: "attempts t = 1"
    by (simp add: enqueue_def empty_queue_def dequeue_def due_in_def)
  have "wf_queue ?q" by (rule wf_enqueue [OF wf_queue_empty])
  from dequeue_correct [OF this, of "''a''" 5 "{}" "''w''"] d a show ?thesis by (auto simp: Let_def)
qed



text \<open>
  C16: \<^verbatim>\<open>fail\<close> on a leased task: with attempts left and no permanent failure the task goes
  back to pending, due \<^verbatim>\<open>2^attempts\<close> seconds from now; otherwise it is failed for good, and
  permanently so when the caller said so. Either way the error is stored and the lease released,
  and the call answers the new status. On a task that is not leased it answers nothing and
  changes nothing.
\<close>

theorem fail_correct:
  assumes "wf_queue q"
  shows "(case task_by_id i q of
      Some r \<Rightarrow>
        if t_status r = Leased then
          (let retry = (attempts r < max_attempts r \<and> \<not> perm);
               res = fail now i err perm q
           in fst res = Some (if retry then Pending else Failed) \<and>
              task_by_id i (snd res) = Some (r\<lparr>
                t_status := (if retry then Pending else Failed),
                available_at := (if retry then now + seconds (2 ^ attempts r) else available_at r),
                t_error := Some err, permanent := perm,
                t_lease_owner := None, t_lease_expires_at := None \<rparr>))
        else fail now i err perm q = (None, q)
    | None \<Rightarrow> fail now i err perm q = (None, q))"
proof (cases "find (leased_with_id i) (t_rows q)")
  case None
  then have "fail now i err perm q = (None, q)" by (simp add: fail_def leased_none)
  then show ?thesis using None find_leased [OF assms, of i]
    by (auto split: option.splits if_splits)
next
  case (Some r)
  then have r: "task_by_id i q = Some r" "t_status r = Leased"
    using find_leased [OF assms, of i] by (auto split: option.splits if_splits)
  then have "\<not> permanent r" "leased_with_id i r" using assms
    by (auto simp: wf_queue_def wf_task_def leased_with_id_def dest: task_by_id_Some)
  then show ?thesis using Some r
    by (simp add: fail_def task_by_id_update fail_row_def retryable_def backoff_def Let_def)
qed

theorem fail_correct_witness:
  "let q = snd (dequeue 0 {} ''a'' ''w''
         (snd (enqueue 0 ''a'' ''draft'' ''t1'' JNull ''t1:draft'' 3 None empty_queue)))
   in fst (fail (seconds 1) 1 ''overloaded'' False q) = Some Pending \<and>
      map_option available_at (task_by_id 1 (snd (fail (seconds 1) 1 ''overloaded'' False q)))
        = Some (seconds 3) \<and>
      fst (fail (seconds 1) 1 ''bad'' True q) = Some Failed"
proof -
  let ?q0 = "snd (enqueue 0 ''a'' ''draft'' ''t1'' JNull ''t1:draft'' 3 None empty_queue)"
  let ?q = "snd (dequeue 0 {} ''a'' ''w'' ?q0)"
  have wfq: "wf_queue ?q" by (intro wf_dequeue wf_enqueue wf_queue_empty)
  show ?thesis
    using fail_correct [OF wfq, where i = 1 and perm = False and now = "seconds 1" and err = "''overloaded''"]
      fail_correct [OF wfq, where i = 1 and perm = True and now = "seconds 1" and err = "''bad''"]
    by (simp add: enqueue_def empty_queue_def dequeue_def due_in_def task_by_id_def Let_def
        seconds_def)
qed

section \<open>Retry budget and redelivery\<close>

text \<open>Attempts stay within the budget as long as no lease is reclaimed.\<close>

definition within_budget :: "task_table \<Rightarrow> bool" where
  "within_budget q = (\<forall>r \<in> set (t_rows q).
     attempts r \<le> max_attempts r \<and> (t_status r = Pending \<longrightarrow> attempts r < max_attempts r))"

definition no_reclaim :: "queue_op \<Rightarrow> bool" where
  "no_reclaim op = (case op of ReclaimTasks _ \<Rightarrow> False
     | Enqueue _ _ _ _ _ _ maxa _ \<Rightarrow> 0 < maxa | _ \<Rightarrow> True)"

lemma within_budget_update:
  assumes "within_budget q"
    and "\<And>r. r \<in> set (t_rows q) \<Longrightarrow> P r \<Longrightarrow> attempts (f r) \<le> max_attempts (f r) \<and>
          (t_status (f r) = Pending \<longrightarrow> attempts (f r) < max_attempts (f r))"
  shows "within_budget (q\<lparr> t_rows := update_where P f (t_rows q) \<rparr>)"
  using assms by (auto simp: within_budget_def set_update_where)

lemma within_budget_dequeue:
  assumes "wf_queue q" and "within_budget q"
  shows "within_budget (snd (dequeue now locked qn w q))"
proof (cases rule: dequeue_cases [of now locked qn w q])
  case (some r)
  have "within_budget
      (q\<lparr> t_rows := update_where (\<lambda>x. t_id x = t_id r) (lease_row now w) (t_rows q) \<rparr>)"
    using assms(2)
  proof (rule within_budget_update)
    fix x assume "x \<in> set (t_rows q)" "t_id x = t_id r"
    then have "x = r" using assms(1) some(1) by (auto simp: wf_queue_def dest: distinct_key_inj)
    then show "attempts (lease_row now w x) \<le> max_attempts (lease_row now w x) \<and>
        (t_status (lease_row now w x) = Pending \<longrightarrow>
           attempts (lease_row now w x) < max_attempts (lease_row now w x))"
      using assms(2) some(1,2) by (auto simp: within_budget_def due_in_def)
  qed
  then show ?thesis using some(3) by simp
qed (use assms(2) in simp)

lemma within_budget_apply:
  assumes "wf_queue q" and "within_budget q" and "no_reclaim op"
  shows "within_budget (queue_apply op q)"
proof (cases op)
  case (Enqueue now qn ty wid pl key maxa avail)
  then show ?thesis using assms by (auto simp: enqueue_def within_budget_def no_reclaim_def)
next
  case (Complete i res)
  show ?thesis unfolding Complete queue_apply.simps complete_def snd_conv
    by (rule within_budget_update [OF assms(2)])
      (use assms(2) in \<open>auto simp: within_budget_def complete_row_def\<close>)
next
  case (Fail now i err perm)
  show ?thesis unfolding Fail queue_apply.simps fail_def snd_conv
    by (rule within_budget_update [OF assms(2)])
      (use assms(2) in \<open>auto simp: within_budget_def fail_row_def retryable_def\<close>)
next
  case (Cancel key reason)
  show ?thesis unfolding Cancel queue_apply.simps cancel_pending_def snd_conv Let_def
    by (rule within_budget_update [OF assms(2)]) (use assms(2) in \<open>auto simp: within_budget_def\<close>)
next
  case (Dequeue now locked qn w)
  then show ?thesis using assms by (simp add: within_budget_dequeue)
qed (use assms in \<open>auto simp: no_reclaim_def prune_settled_def Let_def within_budget_def\<close>)

lemma within_budget_fold:
  "wf_queue q \<Longrightarrow> within_budget q \<Longrightarrow> list_all no_reclaim ops \<Longrightarrow>
   within_budget (fold queue_apply ops q)"
  by (induction ops arbitrary: q) (simp_all add: within_budget_apply wf_queue_apply)

text \<open>
  C23: retries are bounded: as long as no lease is reclaimed, no task is ever leased more often
  than its \<^verbatim>\<open>max_attempts\<close>, and one that is pending still has an attempt left.
\<close>

theorem retry_budget:
  assumes "list_all no_reclaim ops" and "r \<in> set (t_rows (fold queue_apply ops empty_queue))"
  shows "attempts r \<le> max_attempts r \<and>
    (t_status r = Pending \<longrightarrow> attempts r < max_attempts r)"
proof -
  have "within_budget empty_queue" by (simp add: within_budget_def empty_queue_def)
  from within_budget_fold [OF wf_queue_empty this assms(1)] assms(2)
  show ?thesis by (simp add: within_budget_def)
qed

definition three_failures :: "queue_op list" where
  "three_failures =
     Enqueue 0 ''a'' ''classify'' ''t1'' JNull ''t1:classify'' 3 None #
     concat (map (\<lambda>n. [Dequeue (seconds n) {} ''a'' ''w'', Fail (seconds n) 1 ''down'' False])
       [10, 20, 40])"

theorem retry_budget_witness:
  "\<exists>r. r \<in> set (t_rows (fold queue_apply three_failures empty_queue)) \<and>
     t_status r = Failed \<and> attempts r = 3 \<and> attempts r \<le> max_attempts r"
proof -
  have ok: "list_all no_reclaim three_failures"
    by (simp add: three_failures_def no_reclaim_def)
  have "\<exists>r. t_rows (fold queue_apply three_failures empty_queue) = [r] \<and>
      t_status r = Failed \<and> attempts r = 3"
    by (simp add: three_failures_def enqueue_def empty_queue_def dequeue_def due_in_def
        lease_row_def fail_def leased_with_id_def fail_row_def retryable_def backoff_def seconds_def)
  then obtain r where r: "t_rows (fold queue_apply three_failures empty_queue) = [r]"
    "t_status r = Failed" "attempts r = 3" by blast
  then have "r \<in> set (t_rows (fold queue_apply three_failures empty_queue))" by simp
  from retry_budget [OF ok this] this r show ?thesis by blast
qed

text \<open>
  A worker that dies every time it takes the task: \<^verbatim>\<open>n\<close> rounds of a dequeue and, after the
  lease has run out, the janitor's sweep.
\<close>

fun crash_rounds :: "string \<Rightarrow> string \<Rightarrow> timestamp \<Rightarrow> nat \<Rightarrow> queue_op list" where
  "crash_rounds qn w now 0 = []"
| "crash_rounds qn w now (Suc n) =
     Dequeue now {} qn w # ReclaimTasks (now + seconds 31) # crash_rounds qn w (now + seconds 31) n"

lemma crash_rounds_single:
  assumes "t_rows q = [r]" and "t_status r = Pending" and "queue_name r = qn"
    and "available_at r \<le> now"
  shows "\<exists>r'. t_rows (fold queue_apply (crash_rounds qn w now n) q) = [r'] \<and>
    t_status r' = Pending \<and> attempts r' = attempts r + n \<and> max_attempts r' = max_attempts r"
  using assms
proof (induction n arbitrary: q r now)
  case (Suc n)
  let ?q = "queue_apply (ReclaimTasks (now + seconds 31)) (queue_apply (Dequeue now {} qn w) q)"
  let ?r = "r\<lparr> t_status := Pending, t_lease_owner := None, t_lease_expires_at := None,
    attempts := attempts r + 1 \<rparr>"
  have q: "t_rows ?q = [?r]" using Suc.prems
    by (simp add: dequeue_def due_in_def reclaim_expired_def expired_lease_def lease_row_def
        seconds_def)
  have "available_at ?r \<le> now + seconds 31" using Suc.prems(4) by (simp add: seconds_def)
  from Suc.IH [OF q _ _ this] Suc.prems(2,3) show ?case by simp
qed simp

text \<open>
  The budget does not bound crashes: reclaiming an expired lease never looks at
  \<^verbatim>\<open>attempts\<close>, so a task whose worker dies each time is redelivered without end; after any
  number \<^verbatim>\<open>n\<close> of crashes it is pending again with \<^verbatim>\<open>n\<close> attempts out of 3.
\<close>

theorem crash_redelivery_unbounded:
  "\<exists>r. t_rows (fold queue_apply (crash_rounds ''a'' ''w'' 0 n)
         (snd (enqueue 0 ''a'' ''classify'' ''t1'' JNull ''t1:classify'' default_max_attempts None
            empty_queue))) = [r] \<and>
       t_status r = Pending \<and> attempts r = n \<and> max_attempts r = 3"
proof -
  let ?q = "snd (enqueue 0 ''a'' ''classify'' ''t1'' JNull ''t1:classify'' default_max_attempts
      None empty_queue)"
  obtain r where r: "t_rows ?q = [r]" "t_status r = Pending" "queue_name r = ''a''"
    "available_at r \<le> 0" "attempts r = 0" "max_attempts r = 3"
    by (simp add: enqueue_def empty_queue_def default_max_attempts_def)
  from crash_rounds_single [OF r(1-4), of "''w''" n] r(5,6) show ?thesis by simp
qed

text \<open>
  \<^verbatim>\<open>reclaim_expired\<close> puts exactly the leased tasks whose lease is over back to pending
  with the lease released and the attempt still counted, leaves live leases and all other tasks
  alone, and answers how many it moved.
\<close>

theorem reclaim_correct:
  assumes "wf_queue q"
  shows "fst (reclaim_expired now q) = length (filter (expired_lease now) (t_rows q)) \<and>
    (\<forall>i. task_by_id i (snd (reclaim_expired now q)) =
      (case task_by_id i q of
         None \<Rightarrow> None
       | Some r \<Rightarrow> Some (if t_status r = Leased \<and> the (t_lease_expires_at r) < now
           then r\<lparr> t_status := Pending, t_lease_owner := None, t_lease_expires_at := None \<rparr>
           else r)))"
proof (intro conjI allI)
  fix i
  show "task_by_id i (snd (reclaim_expired now q)) =
      (case task_by_id i q of
         None \<Rightarrow> None
       | Some r \<Rightarrow> Some (if t_status r = Leased \<and> the (t_lease_expires_at r) < now
           then r\<lparr> t_status := Pending, t_lease_owner := None, t_lease_expires_at := None \<rparr>
           else r))"
  proof (cases "task_by_id i q")
    case (Some r)
    then have "wf_task r" using assms by (auto simp: wf_queue_def dest: task_by_id_Some)
    then show ?thesis using Some
      by (cases "t_lease_expires_at r")
         (auto simp: reclaim_expired_def task_by_id_update expired_lease_def wf_task_def)
  qed (simp add: reclaim_expired_def task_by_id_update)
qed (simp add: reclaim_expired_def)

theorem reclaim_correct_witness:
  "let q = snd (dequeue 0 {} ''a'' ''w''
         (snd (enqueue 0 ''a'' ''draft'' ''t1'' JNull ''t1:draft'' 3 None empty_queue)))
   in map_option t_status (task_by_id 1 (snd (reclaim_expired (seconds 30) q))) = Some Leased \<and>
      map_option t_status (task_by_id 1 (snd (reclaim_expired (seconds 31) q))) = Some Pending"
proof -
  let ?q0 = "snd (enqueue 0 ''a'' ''draft'' ''t1'' JNull ''t1:draft'' 3 None empty_queue)"
  let ?q = "snd (dequeue 0 {} ''a'' ''w'' ?q0)"
  have wfq: "wf_queue ?q" by (intro wf_dequeue wf_enqueue wf_queue_empty)
  show ?thesis
    using reclaim_correct [OF wfq, of "seconds 30"] reclaim_correct [OF wfq, of "seconds 31"]
    by (simp add: enqueue_def empty_queue_def dequeue_def due_in_def task_by_id_def seconds_def)
qed

text \<open>
  Enqueueing is idempotent by key: once a task is stored under an idempotency key, no
  sequence of further enqueues changes it, and an enqueue under its key answers that nothing was
  inserted.
\<close>

theorem enqueue_idempotent:
  assumes "task_by_key key q = Some r"
  shows "fst (enqueue now qn ty wid pl key maxa avail q) = None \<and>
    task_by_key key (fold (\<lambda>(now, qn, ty, wid, pl, key, maxa, avail) q.
       snd (enqueue now qn ty wid pl key maxa avail q)) as q) = Some r"
proof
  have "list_ex (\<lambda>r. idempotency_key r = key) (t_rows q)"
    using task_by_key_Some [OF assms] by (auto simp: list_ex_iff)
  then show "fst (enqueue now qn ty wid pl key maxa avail q) = None"
    by (simp add: enqueue_def)
qed (rule outbox.rows_kept [OF assms])

theorem enqueue_idempotent_witness:
  "let q = snd (enqueue 0 ''a'' ''classify'' ''t1'' JNull ''k'' 3 None empty_queue)
   in fst (enqueue 9 ''b'' ''draft'' ''t2'' (JBool True) ''k'' 1 None q) = None"
proof -
  let ?q = "snd (enqueue 0 ''a'' ''classify'' ''t1'' JNull ''k'' 3 None empty_queue)"
  obtain r where "task_by_key ''k'' ?q = Some r"
    by (simp add: enqueue_def task_by_key_def empty_queue_def)
  from enqueue_idempotent [OF this] show ?thesis by (simp add: Let_def)
qed

text \<open>
  A settled task is final: whatever the queue's API is asked to do, the row of a task that is
  done or failed, with its result or its error, stays exactly as it is until a retention sweep
  that finds it older than its age.
\<close>

theorem settled_final:
  assumes "wf_queue q" and "r \<in> set (t_rows q)" and "settled r"
    and "\<forall>now age. Prune now age \<in> set ops \<longrightarrow> now - age \<le> enqueued_at r"
  shows "r \<in> set (t_rows (fold queue_apply ops q))"
  using assms
proof (induction ops arbitrary: q)
  case (Cons op ops)
  have "r \<in> set (t_rows (queue_apply op q))"
    by (rule settled_kept [OF Cons.prems(1-3)]) (use Cons.prems(4) in auto)
  from Cons.IH [OF wf_queue_apply [OF Cons.prems(1)] this Cons.prems(3)] Cons.prems(4)
  show ?case by simp
qed simp

definition finished_queue :: task_table where
  "finished_queue = fold queue_apply
     [Enqueue 0 ''a'' ''classify'' ''t1'' JNull ''t1:classify'' 3 None,
      Dequeue 1 {} ''a'' ''w1'', Complete 1 (JBool True)] empty_queue"

theorem settled_final_witness:
  "\<exists>r. t_result r = Some (JBool True) \<and>
     r \<in> set (t_rows (fold queue_apply
       [Fail 5 1 ''late'' True, Complete 1 JNull, ReclaimTasks 90, Prune 50 60] finished_queue))"
proof -
  have wfq: "wf_queue finished_queue"
    unfolding finished_queue_def by (rule wf_queue_fold [OF wf_queue_empty])
  obtain r where "t_rows finished_queue = [r]" "settled r" "t_result r = Some (JBool True)"
    "enqueued_at r = 0"
    by (simp add: finished_queue_def enqueue_def empty_queue_def dequeue_def due_in_def
        lease_row_def complete_def complete_row_def leased_with_id_def settled_def)
  then have "r \<in> set (t_rows (fold queue_apply
       [Fail 5 1 ''late'' True, Complete 1 JNull, ReclaimTasks 90, Prune 50 60] finished_queue))"
    by (intro settled_final [OF wfq]) auto
  then show ?thesis using \<open>t_result r = Some (JBool True)\<close> by blast
qed

text \<open>
  Completion is not tied to the lease's owner: worker \<^verbatim>\<open>w1\<close>'s lease runs out, the
  janitor returns the task, \<^verbatim>\<open>w2\<close> leases it, and then \<^verbatim>\<open>w1\<close>'s late completion is
  accepted as \<^verbatim>\<open>w2\<close>'s, whose own completion afterwards is refused.
\<close>

theorem stale_completion_accepted:
  "let q = fold queue_apply
       [Enqueue 0 ''a'' ''classify'' ''t1'' JNull ''t1:classify'' 3 None,
        Dequeue 0 {} ''a'' ''w1'', ReclaimTasks (seconds 31),
        Dequeue (seconds 32) {} ''a'' ''w2''] empty_queue;
       late = complete 1 (JStr ''from w1'') q;
       own = complete 1 (JStr ''from w2'') (snd late)
   in map_option t_lease_owner (task_by_id 1 q) = Some (Some ''w2'') \<and>
      fst late = Some Done \<and> fst own = None \<and>
      map_option t_result (task_by_id 1 (snd own)) = Some (Some (JStr ''from w1''))"
  by (simp add: Let_def enqueue_def empty_queue_def dequeue_def due_in_def lease_row_def
      reclaim_expired_def expired_lease_def complete_def complete_row_def leased_with_id_def
      task_by_id_def seconds_def)

end
