(* ===== verification/Models.thy ===== *)
theory Models
  imports TF_Prelude
begin

text \<open>
  The data models of \<^verbatim>\<open>src/ticketflow/models.py\<close>: the enumerations, the pydantic
  models as records, their constraints (\<^verbatim>\<open>Field(ge=, le=, gt=)\<close> and the validator of
  \<^verbatim>\<open>ProposedAction\<close>), \<^verbatim>\<open>model_dump(mode="json")\<close> as a function into JSON and
  \<^verbatim>\<open>model_validate\<close> as a partial function out of it. A \<^verbatim>\<open>float\<close> is the rational it
  denotes. What pydantic accepts for a \<^verbatim>\<open>float\<close> or \<^verbatim>\<open>bool\<close> field besides a JSON
  number or boolean is its own business: the two coercions are parameters, with the documented
  behaviour on numbers and booleans as the hypothesis \<^verbatim>\<open>good_coercion\<close>.
\<close>

section \<open>Enumerations\<close>

datatype ticket_category = BILLING | TECHNICAL | ACCOUNT | GENERAL

datatype action_type = REPLY_ONLY | REFUND

datatype ticket_status =
    RECEIVED | CLASSIFYING | DRAFTING | AWAITING_APPROVAL | RESOLVED | REJECTED | ESCALATED

fun category_value :: "ticket_category \<Rightarrow> string" where
  "category_value BILLING = ''billing''"
| "category_value TECHNICAL = ''technical''"
| "category_value ACCOUNT = ''account''"
| "category_value GENERAL = ''general''"

fun action_value :: "action_type \<Rightarrow> string" where
  "action_value REPLY_ONLY = ''reply_only''"
| "action_value REFUND = ''refund''"

fun status_value :: "ticket_status \<Rightarrow> string" where
  "status_value RECEIVED = ''received''"
| "status_value CLASSIFYING = ''classifying''"
| "status_value DRAFTING = ''drafting''"
| "status_value AWAITING_APPROVAL = ''awaiting_approval''"
| "status_value RESOLVED = ''resolved''"
| "status_value REJECTED = ''rejected''"
| "status_value ESCALATED = ''escalated''"

definition all_categories :: "ticket_category list" where
  "all_categories = [BILLING, TECHNICAL, ACCOUNT, GENERAL]"

definition all_actions :: "action_type list" where
  "all_actions = [REPLY_ONLY, REFUND]"

definition all_statuses :: "ticket_status list" where
  "all_statuses =
     [RECEIVED, CLASSIFYING, DRAFTING, AWAITING_APPROVAL, RESOLVED, REJECTED, ESCALATED]"

text \<open>A \<^verbatim>\<open>StrEnum\<close> member is found by its value.\<close>

definition category_of :: "string \<Rightarrow> ticket_category option" where
  "category_of s = find_by category_value s all_categories"

definition action_of :: "string \<Rightarrow> action_type option" where
  "action_of s = find_by action_value s all_actions"

definition status_of :: "string \<Rightarrow> ticket_status option" where
  "status_of s = find_by status_value s all_statuses"

definition terminal :: "ticket_status \<Rightarrow> bool" where
  "terminal s = (s \<in> {RESOLVED, REJECTED, ESCALATED})"

lemma terminal_simps [simp]:
  "terminal RESOLVED" "terminal REJECTED" "terminal ESCALATED"
  "\<not> terminal RECEIVED" "\<not> terminal CLASSIFYING" "\<not> terminal DRAFTING"
  "\<not> terminal AWAITING_APPROVAL"
  by (simp_all add: terminal_def)

lemma category_of_value [simp]: "category_of (category_value c) = Some c"
  by (cases c) (simp_all add: category_of_def all_categories_def)

lemma action_of_value [simp]: "action_of (action_value a) = Some a"
  by (cases a) (simp_all add: action_of_def all_actions_def)

lemma status_of_value [simp]: "status_of (status_value s) = Some s"
  by (cases s) (simp_all add: status_of_def all_statuses_def)

lemma status_value_inj [simp]: "status_value a = status_value b \<longleftrightarrow> a = b"
  by (metis option.inject status_of_value)

section \<open>Records\<close>

record ticket =
  id' :: string
  customer_email :: string
  subject :: string
  body :: string

record classification =
  category :: ticket_category
  c_confidence :: rat
  c_model :: string

record proposed_action =
  a_type :: action_type
  refund_amount :: "rat option"

record draft_reply =
  reply_text :: string
  action :: proposed_action
  d_confidence :: rat
  d_model :: string

record approval_decision =
  approved :: bool
  approver :: string
  d_note :: "string option"

record ticket_result =
  r_ticket_id :: string
  r_status :: ticket_status
  r_reply_text :: string
  refund_executed :: bool
  model_path :: string

record ticket_status_info =
  i_ticket_id :: string
  i_status :: ticket_status
  i_classification :: "classification option"
  i_draft :: "draft_reply option"
  i_decision :: "approval_decision option"
  i_result :: "ticket_result option"

section \<open>Constraints checked when a model is built\<close>

definition valid_confidence :: "rat \<Rightarrow> bool" where
  "valid_confidence q = (0 \<le> q \<and> q \<le> 1)"

definition valid_classification :: "classification \<Rightarrow> bool" where
  "valid_classification c = valid_confidence (c_confidence c)"

text \<open>\<^verbatim>\<open>require_refund_amount_for_refunds\<close> and \<^verbatim>\<open>gt=0\<close>.\<close>

definition valid_action :: "proposed_action \<Rightarrow> bool" where
  "valid_action a =
     ((case refund_amount a of Some q \<Rightarrow> 0 < q | None \<Rightarrow> True) \<and>
      \<not> (a_type a = REFUND \<and> refund_amount a = None))"

definition valid_draft :: "draft_reply \<Rightarrow> bool" where
  "valid_draft d = (valid_action (action d) \<and> valid_confidence (d_confidence d))"

section \<open>model\_dump\<close>

fun opt_json :: "('a \<Rightarrow> json) \<Rightarrow> 'a option \<Rightarrow> json" where
  "opt_json f None = JNull"
| "opt_json f (Some x) = f x"

definition ticket_dump :: "ticket \<Rightarrow> json" where
  "ticket_dump t = JObj
     [(''id'', JStr (id' t)), (''customer_email'', JStr (customer_email t)),
      (''subject'', JStr (subject t)), (''body'', JStr (body t))]"

definition classification_dump :: "classification \<Rightarrow> json" where
  "classification_dump c = JObj
     [(''category'', JStr (category_value (category c))),
      (''confidence'', JNum (c_confidence c)), (''model'', JStr (c_model c))]"

definition action_dump :: "proposed_action \<Rightarrow> json" where
  "action_dump a = JObj
     [(''type'', JStr (action_value (a_type a))),
      (''refund_amount'', opt_json JNum (refund_amount a))]"

definition draft_dump :: "draft_reply \<Rightarrow> json" where
  "draft_dump d = JObj
     [(''reply_text'', JStr (reply_text d)), (''action'', action_dump (action d)),
      (''confidence'', JNum (d_confidence d)), (''model'', JStr (d_model d))]"

definition decision_dump :: "approval_decision \<Rightarrow> json" where
  "decision_dump d = JObj
     [(''approved'', JBool (approved d)), (''approver'', JStr (approver d)),
      (''note'', opt_json JStr (d_note d))]"

definition result_dump :: "ticket_result \<Rightarrow> json" where
  "result_dump r = JObj
     [(''ticket_id'', JStr (r_ticket_id r)), (''status'', JStr (status_value (r_status r))),
      (''reply_text'', JStr (r_reply_text r)), (''refund_executed'', JBool (refund_executed r)),
      (''model_path'', JStr (model_path r))]"

section \<open>model\_validate\<close>

text \<open>
  What pydantic accepts for the scalar types: a parameter of every validator. A \<^verbatim>\<open>str\<close>
  field takes a JSON string only.
\<close>

record coercion =
  as_float :: "json \<Rightarrow> rat option"
  as_bool :: "json \<Rightarrow> bool option"

definition good_coercion :: "('a coercion_scheme) \<Rightarrow> bool" where
  "good_coercion K = ((\<forall>q. as_float K (JNum q) = Some q) \<and> (\<forall>b. as_bool K (JBool b) = Some b))"

text \<open>Strict JSON typing is one coercion with that behaviour.\<close>

definition strict_coercion :: coercion where
  "strict_coercion = \<lparr>
     as_float = (\<lambda>j. case j of JNum q \<Rightarrow> Some q | _ \<Rightarrow> None),
     as_bool = (\<lambda>j. case j of JBool b \<Rightarrow> Some b | _ \<Rightarrow> None) \<rparr>"

lemma good_strict_coercion: "good_coercion strict_coercion"
  by (simp add: good_coercion_def strict_coercion_def)

fun as_str :: "json \<Rightarrow> string option" where
  "as_str (JStr s) = Some s"
| "as_str _ = None"

text \<open>A required field: missing or of the wrong type is a validation error.\<close>

definition field :: "(json \<Rightarrow> 'a option) \<Rightarrow> json \<Rightarrow> string \<Rightarrow> exn + 'a" where
  "field cv j k = (case jget j k of
      None \<Rightarrow> Inl (ValidationError k)
    | Some v \<Rightarrow> (case cv v of None \<Rightarrow> Inl (ValidationError k) | Some x \<Rightarrow> Inr x))"

text \<open>A field with a default: the default stands in for a missing member only.\<close>

definition field_default :: "'a \<Rightarrow> (json \<Rightarrow> 'a option) \<Rightarrow> json \<Rightarrow> string \<Rightarrow> exn + 'a" where
  "field_default d cv j k = (case jget j k of
      None \<Rightarrow> Inr d
    | Some v \<Rightarrow> (case cv v of None \<Rightarrow> Inl (ValidationError k) | Some x \<Rightarrow> Inr x))"

text \<open>\<^verbatim>\<open>T | None\<close>: JSON null is \<^verbatim>\<open>None\<close>.\<close>

fun nullable :: "(json \<Rightarrow> 'a option) \<Rightarrow> json \<Rightarrow> 'a option option" where
  "nullable cv JNull = Some None"
| "nullable cv v = map_option Some (cv v)"

definition require :: "bool \<Rightarrow> string \<Rightarrow> 'a \<Rightarrow> exn + 'a" where
  "require b k x = (if b then Inr x else Inl (ValidationError k))"

definition ticket_validate :: "json \<Rightarrow> exn + ticket" where
  "ticket_validate j =
     bindr (field as_str j ''id'') (\<lambda>i.
     bindr (field as_str j ''customer_email'') (\<lambda>e.
     bindr (field as_str j ''subject'') (\<lambda>s.
     bindr (field as_str j ''body'') (\<lambda>b.
     Inr \<lparr> id' = i, customer_email = e, subject = s, body = b \<rparr>))))"

definition classification_validate :: "'k coercion_scheme \<Rightarrow> json \<Rightarrow> exn + classification" where
  "classification_validate K j =
     bindr (field (\<lambda>v. Option.bind (as_str v) category_of) j ''category'') (\<lambda>c.
     bindr (field (as_float K) j ''confidence'') (\<lambda>q.
     bindr (require (valid_confidence q) ''confidence'' ()) (\<lambda>_.
     bindr (field_default ''primary'' as_str j ''model'') (\<lambda>m.
     Inr \<lparr> category = c, c_confidence = q, c_model = m \<rparr>))))"

definition action_validate :: "'k coercion_scheme \<Rightarrow> json \<Rightarrow> exn + proposed_action" where
  "action_validate K j =
     bindr (field (\<lambda>v. Option.bind (as_str v) action_of) j ''type'') (\<lambda>t.
     bindr (field_default None (nullable (as_float K)) j ''refund_amount'') (\<lambda>a.
     bindr (require (case a of Some q \<Rightarrow> 0 < q | None \<Rightarrow> True) ''refund_amount'' ()) (\<lambda>_.
     if t = REFUND \<and> a = None
     then Inl (ValidationError ''refund_amount is required for refund actions'')
     else Inr \<lparr> a_type = t, refund_amount = a \<rparr>)))"

definition draft_validate :: "'k coercion_scheme \<Rightarrow> json \<Rightarrow> exn + draft_reply" where
  "draft_validate K j =
     bindr (field as_str j ''reply_text'') (\<lambda>t.
     bindr (case jget j ''action'' of
              None \<Rightarrow> Inl (ValidationError ''action'')
            | Some v \<Rightarrow> action_validate K v) (\<lambda>a.
     bindr (field (as_float K) j ''confidence'') (\<lambda>q.
     bindr (require (valid_confidence q) ''confidence'' ()) (\<lambda>_.
     bindr (field_default ''primary'' as_str j ''model'') (\<lambda>m.
     Inr \<lparr> reply_text = t, action = a, d_confidence = q, d_model = m \<rparr>)))))"

definition decision_validate :: "'k coercion_scheme \<Rightarrow> json \<Rightarrow> exn + approval_decision" where
  "decision_validate K j =
     bindr (field (as_bool K) j ''approved'') (\<lambda>b.
     bindr (field as_str j ''approver'') (\<lambda>a.
     bindr (field_default None (nullable as_str) j ''note'') (\<lambda>n.
     Inr \<lparr> approved = b, approver = a, d_note = n \<rparr>)))"

definition result_validate :: "'k coercion_scheme \<Rightarrow> json \<Rightarrow> exn + ticket_result" where
  "result_validate K j =
     bindr (field as_str j ''ticket_id'') (\<lambda>i.
     bindr (field (\<lambda>v. Option.bind (as_str v) status_of) j ''status'') (\<lambda>s.
     bindr (field as_str j ''reply_text'') (\<lambda>t.
     bindr (field_default False (as_bool K) j ''refund_executed'') (\<lambda>b.
     bindr (field_default ''primary/primary'' as_str j ''model_path'') (\<lambda>m.
     Inr \<lparr> r_ticket_id = i, r_status = s, r_reply_text = t, refund_executed = b,
           model_path = m \<rparr>)))))"

section \<open>Facts shared by the components\<close>

lemma field_Inr:
  "field cv j k = Inr x \<longleftrightarrow> (\<exists>v. jget j k = Some v \<and> cv v = Some x)"
  by (auto simp: field_def split: option.splits)

lemma field_default_Inr:
  "field_default d cv j k = Inr x \<longleftrightarrow>
     (jget j k = None \<and> x = d) \<or> (\<exists>v. jget j k = Some v \<and> cv v = Some x)"
  by (auto simp: field_default_def split: option.splits)

lemma field_missing: "jget j k = None \<Longrightarrow> field cv j k = Inl (ValidationError k)"
  by (simp add: field_def)

lemma require_Inr [simp]: "require b k x = Inr y \<longleftrightarrow> b \<and> x = y"
  by (simp add: require_def)

lemmas validate_defs = ticket_validate_def classification_validate_def action_validate_def
  draft_validate_def decision_validate_def result_validate_def

lemmas dump_defs = ticket_dump_def classification_dump_def action_dump_def draft_dump_def
  decision_dump_def result_dump_def

lemma ticket_validate_dump [simp]: "ticket_validate (ticket_dump t) = Inr t"
  by (simp add: ticket_validate_def ticket_dump_def field_def)

lemma classification_validate_dump:
  "good_coercion K \<Longrightarrow> valid_classification c \<Longrightarrow>
   classification_validate K (classification_dump c) = Inr c"
  by (simp add: classification_validate_def classification_dump_def field_def field_default_def
      good_coercion_def valid_classification_def require_def)

lemma action_validate_dump:
  "good_coercion K \<Longrightarrow> valid_action a \<Longrightarrow> action_validate K (action_dump a) = Inr a"
  by (cases "refund_amount a")
     (auto simp: action_validate_def action_dump_def field_def field_default_def
      good_coercion_def valid_action_def require_def)

lemma draft_validate_dump:
  "good_coercion K \<Longrightarrow> valid_draft d \<Longrightarrow> draft_validate K (draft_dump d) = Inr d"
  by (simp add: draft_validate_def draft_dump_def field_def field_default_def valid_draft_def
      action_validate_dump require_def) (simp add: good_coercion_def)

lemma decision_validate_dump:
  "good_coercion K \<Longrightarrow> decision_validate K (decision_dump d) = Inr d"
  by (cases "d_note d") (simp_all add: decision_validate_def decision_dump_def field_def
      field_default_def good_coercion_def)

lemma result_validate_dump:
  "good_coercion K \<Longrightarrow> result_validate K (result_dump r) = Inr r"
  by (simp add: result_validate_def result_dump_def field_def field_default_def
      good_coercion_def)

lemmas validate_dump [simp] = classification_validate_dump action_validate_dump
  draft_validate_dump decision_validate_dump result_validate_dump

lemma classification_validate_valid:
  "classification_validate K j = Inr c \<Longrightarrow> valid_classification c"
  by (auto simp: classification_validate_def bindr_Inr_iff valid_classification_def)

lemma action_validate_valid: "action_validate K j = Inr a \<Longrightarrow> valid_action a"
  by (auto simp: action_validate_def bindr_Inr_iff valid_action_def split: if_splits)

lemma draft_validate_valid: "draft_validate K j = Inr d \<Longrightarrow> valid_draft d"
  by (auto simp: draft_validate_def bindr_Inr_iff valid_draft_def dest: action_validate_valid
      split: option.splits)

text \<open>
  A control envelope such as \<^verbatim>\<open>{"kind": "timeout"}\<close> has none of the fields the results
  of the agent or of the finalizer need, so no validator takes it.
\<close>

lemma envelope_not_valid:
  assumes "jget j ''category'' = None" and "jget j ''reply_text'' = None"
    and "jget j ''ticket_id'' = None"
  shows "classification_validate K j = Inl (ValidationError ''category'')"
    and "draft_validate K j = Inl (ValidationError ''reply_text'')"
    and "result_validate K j = Inl (ValidationError ''ticket_id'')"
  using assms by (simp_all add: validate_defs field_missing)

text \<open>
  C30: what one process writes as JSON the next one reads back unchanged: for every model that
  crosses the task queue, a signal or the read model, \<^verbatim>\<open>model_validate\<close> of
  \<^verbatim>\<open>model_dump(mode="json")\<close> is the value itself, whenever the value satisfies the model's
  constraints (which it does, since it was built through the model).
\<close>

theorem models_roundtrip:
  assumes "good_coercion K" and "valid_classification c" and "valid_draft d"
    and "valid_action a"
  shows "ticket_validate (ticket_dump t) = Inr t \<and>
    classification_validate K (classification_dump c) = Inr c \<and>
    draft_validate K (draft_dump d) = Inr d \<and>
    action_validate K (action_dump a) = Inr a \<and>
    decision_validate K (decision_dump dec) = Inr dec \<and>
    result_validate K (result_dump r) = Inr r"
  using assms by simp

theorem models_roundtrip_witness:
  "let a = \<lparr> a_type = REFUND, refund_amount = Some 42 \<rparr>;
       c = \<lparr> category = BILLING, c_confidence = 9 / 10, c_model = ''primary'' \<rparr>;
       d = \<lparr> reply_text = ''We can refund you.'', action = a, d_confidence = 9 / 10,
             d_model = ''primary'' \<rparr>
   in classification_validate strict_coercion (classification_dump c) = Inr c \<and>
      draft_validate strict_coercion (draft_dump d) = Inr d \<and>
      action_validate strict_coercion (action_dump a) = Inr a"
  unfolding Let_def
  using models_roundtrip [OF good_strict_coercion,
      of "\<lparr> category = BILLING, c_confidence = 9 / 10, c_model = ''primary'' \<rparr>"
         "\<lparr> reply_text = ''We can refund you.'',
            action = \<lparr> a_type = REFUND, refund_amount = Some 42 \<rparr>, d_confidence = 9 / 10,
            d_model = ''primary'' \<rparr>"
         "\<lparr> a_type = REFUND, refund_amount = Some 42 \<rparr>"]
  by (simp add: valid_classification_def valid_draft_def valid_action_def valid_confidence_def)

end
