(* ===== verification/Config.thy ===== *)
theory Config
  imports Models
begin

text \<open>
  The constants of \<^verbatim>\<open>src/ticketflow/workflows.py\<close> and \<^verbatim>\<open>signals.py\<close>, and the
  environment the workflow code runs in: the settings it reads from \<^verbatim>\<open>config.py\<close>, pydantic's
  coercions, and the two directions of Python's ISO 8601 text for time stamps, which are
  parameters with their documented round trip as hypothesis.
\<close>

definition CONFIDENCE_THRESHOLD :: rat where
  "CONFIDENCE_THRESHOLD = 3 / 4"

definition APPROVAL_TIMEOUT :: int where
  "APPROVAL_TIMEOUT = hours 24"

definition REJECTION_REPLY :: string where
  "REJECTION_REPLY =
     ''Thanks for your patience. After review we cannot fulfil this request '' @
     ''automatically; a human agent will follow up shortly.''"

definition ESCALATION_REPLY :: string where
  "ESCALATION_REPLY =
     ''We need a bit more time with your request and have escalated your '' @
     ''ticket to a human agent.''"

definition APPROVAL_DECISION_SIGNAL :: string where
  "APPROVAL_DECISION_SIGNAL = ''approval_decision''"

record env = coercion +
  TASK_QUEUE :: string
  AGENT_TASK_QUEUE :: string
  FALLBACK_TASK_QUEUE :: string
  SCHEDULE_TO_START :: int
  isoformat :: "timestamp \<Rightarrow> string"
  fromisoformat :: "string \<Rightarrow> timestamp option"

definition good_env :: "'e env_scheme \<Rightarrow> bool" where
  "good_env E = (good_coercion E \<and> (\<forall>t. fromisoformat E (isoformat E t) = Some t))"

lemma good_env_coercion [simp]: "good_env E \<Longrightarrow> good_coercion E"
  by (simp add: good_env_def)

lemma good_env_iso [simp]: "good_env E \<Longrightarrow> fromisoformat E (isoformat E t) = Some t"
  by (simp add: good_env_def)

text \<open>
  A concrete environment, with the defaults of \<^verbatim>\<open>config.py\<close> and the decimal number of
  microseconds as the text of a time stamp.
\<close>

fun read_nat_acc :: "nat \<Rightarrow> string \<Rightarrow> nat" where
  "read_nat_acc a [] = a"
| "read_nat_acc a (c # cs) = read_nat_acc (10 * a + (of_char c - 48)) cs"

definition read_int :: "string \<Rightarrow> timestamp option" where
  "read_int s = (case s of [] \<Rightarrow> None
     | c # cs \<Rightarrow> Some (if c = CHR ''-'' then - int (read_nat_acc 0 cs) else int (read_nat_acc 0 s)))"

definition default_env :: env where
  "default_env = \<lparr>
     as_float = as_float strict_coercion, as_bool = as_bool strict_coercion,
     TASK_QUEUE = ''ticketflow'', AGENT_TASK_QUEUE = ''ticketflow-agent'',
     FALLBACK_TASK_QUEUE = ''ticketflow-agent-fallback'',
     SCHEDULE_TO_START = seconds 30,
     isoformat = show_int, fromisoformat = read_int \<rparr>"

lemma read_nat_acc_append:
  "read_nat_acc a (xs @ ys) = read_nat_acc (read_nat_acc a xs) ys"
  by (induction a xs rule: read_nat_acc.induct) auto

lemma of_char_digit: "d < 10 \<Longrightarrow> (of_char (digit_char d) :: nat) = 48 + d"
  by (simp add: digit_char_def)

lemma read_show_nat: "read_nat_acc 0 (show_nat n) = n"
proof (induction n rule: show_nat.induct)
  case (1 n)
  show ?case
  proof (cases "n < 10")
    case True
    then show ?thesis by (subst show_nat.simps) (simp add: of_char_digit)
  next
    case False
    then have "read_nat_acc 0 (show_nat (n div 10)) = n div 10" using 1 by simp
    then show ?thesis using False
      by (subst show_nat.simps) (simp add: read_nat_acc_append of_char_digit)
  qed
qed

lemma show_nat_digits: "\<exists>d ds. show_nat n = digit_char d # ds \<and> d < 10"
proof (induction n rule: show_nat.induct)
  case (1 n)
  show ?case
  proof (cases "n < 10")
    case True
    then show ?thesis by (subst show_nat.simps) auto
  next
    case False
    then show ?thesis using 1 by (subst show_nat.simps) auto
  qed
qed

lemma digit_not_minus: "d < 10 \<Longrightarrow> digit_char d \<noteq> CHR ''-''"
proof
  assume "d < 10" and "digit_char d = CHR ''-''"
  then have "(of_char (digit_char d) :: nat) = of_char (CHR ''-'')" by simp
  then show False using of_char_digit [OF \<open>d < 10\<close>] by simp
qed

lemma read_show_int: "read_int (show_int i) = Some i"
proof (cases "i < 0")
  case True
  then show ?thesis by (simp add: show_int_def read_int_def read_show_nat)
next
  case False
  obtain d ds where d: "show_nat (nat i) = digit_char d # ds" "d < 10"
    using show_nat_digits by blast
  have "read_nat_acc 0 (digit_char d # ds) = nat i" using read_show_nat [of "nat i"] d by simp
  then show ?thesis using False d digit_not_minus [OF d(2)]
    by (simp add: show_int_def read_int_def del: read_nat_acc.simps)
qed

lemma good_default_env: "good_env default_env"
  using good_strict_coercion
  by (simp add: good_env_def default_env_def good_coercion_def read_show_int)

lemma default_env_simps [simp]:
  "TASK_QUEUE default_env = ''ticketflow''"
  "AGENT_TASK_QUEUE default_env = ''ticketflow-agent''"
  "FALLBACK_TASK_QUEUE default_env = ''ticketflow-agent-fallback''"
  "SCHEDULE_TO_START default_env = seconds 30"
  by (simp_all add: default_env_def)

end
