(* ===== verification/Graph.thy ===== *)
theory Graph
  imports TaskQueue Config
begin

text \<open>
  The ticket workflow of \<^verbatim>\<open>src/ticketflow/graph.py\<close>: the state threaded through the
  graph, one function per node, the routing functions and the edges. A node reads the state and
  the queue, may commit queue statements, and ends in one of three ways: it returns (here, the
  state with its partial update merged in), it is suspended by \<^verbatim>\<open>interrupt()\<close>, or it raises.
  LangGraph runs a resumed node again from its start, and its n-th \<^verbatim>\<open>interrupt()\<close> then returns
  the n-th resume value: every node that interrupts takes the list of resume values so far.
  LangGraph itself is the locale \<^verbatim>\<open>langgraph\<close>: an engine that drives nodes along edges.
\<close>

section \<open>State\<close>

record ticket_state =
  s_ticket :: "ticket option"
  s_classification :: "classification option"
  s_draft :: "draft_reply option"
  s_needs_approval :: "bool option"
  s_decision :: "approval_decision option"
  s_wakeup_at :: "timestamp option"
  s_status :: "ticket_status option"
  s_refund_executed :: "bool option"
  s_result :: "ticket_result option"

datatype outcome =
    Return ticket_state
  | Interrupt json
  | Raise exn

datatype awaited = Resumed json | Suspended json

section \<open>Helpers\<close>

definition kind_is :: "string \<Rightarrow> json \<Rightarrow> bool" where
  "kind_is k j = (jget j ''kind'' = Some (JStr k))"

definition is_timeout :: "json \<Rightarrow> bool" where
  "is_timeout resume = (is_jobj resume \<and> kind_is ''timeout'' resume)"

definition is_task_failed :: "json \<Rightarrow> bool" where
  "is_task_failed resume = (is_jobj resume \<and> kind_is ''task_failed'' resume)"

definition failure_classification :: classification where
  "failure_classification =
     \<lparr> category = GENERAL, c_confidence = 0, c_model = ''failed-agent'' \<rparr>"

definition failure_draft :: draft_reply where
  "failure_draft =
     \<lparr> reply_text = ESCALATION_REPLY, action = \<lparr> a_type = REPLY_ONLY, refund_amount = None \<rparr>,
       d_confidence = 0, d_model = ''failed-agent'' \<rparr>"

text \<open>
  The writes of the graph go through the async pool when there is one, through the sync pool
  otherwise: \<^verbatim>\<open>use_async\<close>.
\<close>

definition enqueue_task ::
  "bool \<Rightarrow> timestamp \<Rightarrow> string \<Rightarrow> string \<Rightarrow> string \<Rightarrow> json \<Rightarrow> string \<Rightarrow> int option
     \<Rightarrow> task_table \<Rightarrow> timestamp option \<times> task_table" where
  "enqueue_task use_async now qn ty wid pl key wakeup_after q =
     (let q' = (if use_async
                then snd (aenqueue now qn ty wid pl key default_max_attempts None q)
                else snd (enqueue now qn ty wid pl key default_max_attempts None q))
      in (map_option (\<lambda>delta. now + delta) wakeup_after, q'))"

definition timestamp_after :: "timestamp \<Rightarrow> int \<Rightarrow> timestamp" where
  "timestamp_after now delta = now + delta"

definition task_key :: "string \<Rightarrow> string \<Rightarrow> string" where
  "task_key wid ty = wid @ '':'' @ ty"

definition enqueue_agent_task ::
  "'e env_scheme \<Rightarrow> bool \<Rightarrow> timestamp \<Rightarrow> string \<Rightarrow> string \<Rightarrow> json \<Rightarrow> task_table
     \<Rightarrow> timestamp option \<times> task_table" where
  "enqueue_agent_task E use_async now ty wid pl q =
     enqueue_task use_async now (AGENT_TASK_QUEUE E) ty wid pl (task_key wid ty)
       (Some (SCHEDULE_TO_START E)) q"

definition redispatch_agent_task ::
  "'e env_scheme \<Rightarrow> bool \<Rightarrow> timestamp \<Rightarrow> string \<Rightarrow> string \<Rightarrow> string \<Rightarrow> json \<Rightarrow> task_table
     \<Rightarrow> bool \<times> task_table" where
  "redispatch_agent_task E use_async now key ty wid pl q =
     (let (redispatched, q1) =
            (if use_async then acancel_pending key ''redispatched to fallback'' q
             else cancel_pending key ''redispatched to fallback'' q)
      in if redispatched
         then (True,
               if use_async
               then snd (aenqueue now (FALLBACK_TASK_QUEUE E) ty wid pl (key @ '':fallback'')
                           default_max_attempts None q1)
               else snd (enqueue now (FALLBACK_TASK_QUEUE E) ty wid pl (key @ '':fallback'')
                           default_max_attempts None q1))
         else (False, q1))"

text \<open>
  \<^verbatim>\<open>await_agent_task\<close>: the first interrupt waits for the primary task under its timer; a
  timeout moves a still pending task to the fallback queue, and the second interrupt waits for
  whichever task is now the active one, without a timer.
\<close>

definition await_envelope ::
  "string \<Rightarrow> string \<Rightarrow> string \<Rightarrow> string \<Rightarrow> (string \<times> json) list \<Rightarrow> json" where
  "await_envelope key ty wid qn extra = JObj
     ([(''idempotency_key'', JStr key), (''task_type'', JStr ty), (''workflow_id'', JStr wid),
       (''queue'', JStr qn)] @ extra)"

definition await_agent_task ::
  "'e env_scheme \<Rightarrow> bool \<Rightarrow> timestamp \<Rightarrow> string \<Rightarrow> string \<Rightarrow> json \<Rightarrow> timestamp option \<Rightarrow> json list
     \<Rightarrow> task_table \<Rightarrow> awaited \<times> task_table" where
  "await_agent_task E use_async now ty wid pl wk resumes q =
     (let key = task_key wid ty in
      case resumes of
        [] \<Rightarrow> (Suspended (await_envelope key ty wid (AGENT_TASK_QUEUE E)
                [(''wakeup_at'', opt_json (\<lambda>t. JStr (isoformat E t)) wk)]), q)
      | resume # rest \<Rightarrow>
          if is_timeout resume
          then
            (let (redispatched, q') = redispatch_agent_task E use_async now key ty wid pl q;
                 active_queue = (if redispatched then FALLBACK_TASK_QUEUE E
                                 else AGENT_TASK_QUEUE E);
                 active_key = (if redispatched then key @ '':fallback'' else key)
             in case rest of
                  [] \<Rightarrow> (Suspended (await_envelope active_key ty wid active_queue []), q')
                | second # _ \<Rightarrow> (Resumed second, q'))
          else (Resumed resume, q))"

section \<open>Nodes\<close>

definition classify_payload :: "ticket \<Rightarrow> json" where
  "classify_payload t = JObj [(''ticket'', ticket_dump t)]"

definition draft_payload :: "ticket \<Rightarrow> classification \<Rightarrow> json" where
  "draft_payload t c =
     JObj [(''ticket'', ticket_dump t), (''classification'', classification_dump c)]"

definition dispatch_classify ::
  "'e env_scheme \<Rightarrow> bool \<Rightarrow> timestamp \<Rightarrow> ticket_state \<Rightarrow> task_table \<Rightarrow> outcome \<times> task_table" where
  "dispatch_classify E ua now st q =
     (case s_ticket st of
        None \<Rightarrow> (Raise AssertionError, q)
      | Some t \<Rightarrow>
          (let (wk, q') = enqueue_agent_task E ua now ''classify'' (id' t) (classify_payload t) q
           in (Return (st\<lparr> s_status := Some CLASSIFYING, s_wakeup_at := wk \<rparr>), q')))"

definition await_classify ::
  "'e env_scheme \<Rightarrow> bool \<Rightarrow> timestamp \<Rightarrow> ticket_state \<Rightarrow> json list \<Rightarrow> task_table
     \<Rightarrow> outcome \<times> task_table" where
  "await_classify E ua now st resumes q =
     (case s_ticket st of
        None \<Rightarrow> (Raise AssertionError, q)
      | Some t \<Rightarrow>
          (case await_agent_task E ua now ''classify'' (id' t) (classify_payload t)
                  (s_wakeup_at st) resumes q of
             (Suspended env, q') \<Rightarrow> (Interrupt env, q')
           | (Resumed result, q') \<Rightarrow>
               if is_task_failed result
               then (Return (st\<lparr> s_classification := Some failure_classification,
                       s_draft := Some failure_draft, s_needs_approval := Some False,
                       s_status := Some ESCALATED, s_wakeup_at := None \<rparr>), q')
               else (case classification_validate E result of
                       Inl e \<Rightarrow> (Raise e, q')
                     | Inr c \<Rightarrow> (Return (st\<lparr> s_classification := Some c,
                         s_status := Some CLASSIFYING, s_wakeup_at := None \<rparr>), q'))))"

definition dispatch_draft ::
  "'e env_scheme \<Rightarrow> bool \<Rightarrow> timestamp \<Rightarrow> ticket_state \<Rightarrow> task_table \<Rightarrow> outcome \<times> task_table" where
  "dispatch_draft E ua now st q =
     (case (s_ticket st, s_classification st) of
        (Some t, Some c) \<Rightarrow>
          (let (wk, q') = enqueue_agent_task E ua now ''draft'' (id' t) (draft_payload t c) q
           in (Return (st\<lparr> s_status := Some DRAFTING, s_wakeup_at := wk \<rparr>), q'))
      | _ \<Rightarrow> (Raise AssertionError, q))"

definition await_draft ::
  "'e env_scheme \<Rightarrow> bool \<Rightarrow> timestamp \<Rightarrow> ticket_state \<Rightarrow> json list \<Rightarrow> task_table
     \<Rightarrow> outcome \<times> task_table" where
  "await_draft E ua now st resumes q =
     (case (s_ticket st, s_classification st) of
        (Some t, Some c) \<Rightarrow>
          (case await_agent_task E ua now ''draft'' (id' t) (draft_payload t c)
                  (s_wakeup_at st) resumes q of
             (Suspended env, q') \<Rightarrow> (Interrupt env, q')
           | (Resumed result, q') \<Rightarrow>
               if is_task_failed result
               then (Return (st\<lparr> s_draft := Some failure_draft, s_needs_approval := Some False,
                       s_status := Some ESCALATED, s_wakeup_at := None \<rparr>), q')
               else (case draft_validate E result of
                       Inl e \<Rightarrow> (Raise e, q')
                     | Inr d \<Rightarrow> (Return (st\<lparr> s_draft := Some d, s_status := Some DRAFTING,
                         s_wakeup_at := None \<rparr>), q')))
      | _ \<Rightarrow> (Raise AssertionError, q))"

definition needs_human :: "draft_reply \<Rightarrow> bool" where
  "needs_human d = (a_type (action d) = REFUND \<or> d_confidence d < CONFIDENCE_THRESHOLD)"

definition decide_approval :: "ticket_state \<Rightarrow> outcome" where
  "decide_approval st =
     (case s_draft st of
        None \<Rightarrow> Raise AssertionError
      | Some d \<Rightarrow> Return (st\<lparr> s_needs_approval := Some (needs_human d) \<rparr>))"

definition prepare_approval :: "timestamp \<Rightarrow> ticket_state \<Rightarrow> outcome" where
  "prepare_approval now st =
     Return (st\<lparr> s_status := Some AWAITING_APPROVAL,
       s_wakeup_at := Some (timestamp_after now APPROVAL_TIMEOUT) \<rparr>)"

definition await_approval ::
  "'e env_scheme \<Rightarrow> ticket_state \<Rightarrow> json list \<Rightarrow> outcome" where
  "await_approval E st resumes =
     (case (s_ticket st, s_draft st, s_wakeup_at st) of
        (Some t, Some d, Some wk) \<Rightarrow>
          (case resumes of
             [] \<Rightarrow> Interrupt (JObj
               [(''kind'', JStr ''approval_required''), (''ticket_id'', JStr (id' t)),
                (''wakeup_at'', JStr (isoformat E wk)), (''draft'', draft_dump d)])
           | resume # _ \<Rightarrow>
               if \<not> is_jobj resume
               then Raise (ValueError ''approval resume payload must be an object'')
               else if kind_is ''timeout'' resume
               then Return (st\<lparr> s_status := Some ESCALATED \<rparr>)
               else if \<not> kind_is ''decision'' resume
               then Raise (ValueError (''approval resume kind must be '' @ quoted ''decision'' @
                 '' or '' @ quoted ''timeout''))
               else (case decision_validate E (case jget resume ''decision'' of
                            Some j \<Rightarrow> j | None \<Rightarrow> JNull) of
                       Inl e \<Rightarrow> Raise e
                     | Inr dec \<Rightarrow>
                         if approved dec then Return (st\<lparr> s_decision := Some dec \<rparr>)
                         else Return (st\<lparr> s_decision := Some dec, s_status := Some REJECTED \<rparr>)))
      | _ \<Rightarrow> Raise AssertionError)"

definition terminal_outcome :: "ticket_status option \<Rightarrow> draft_reply \<Rightarrow> ticket_status \<times> string" where
  "terminal_outcome status d =
     (if status = Some REJECTED then (REJECTED, REJECTION_REPLY)
      else if status = Some ESCALATED then (ESCALATED, ESCALATION_REPLY)
      else (RESOLVED, reply_text d))"

definition expected_result :: "ticket \<Rightarrow> classification \<Rightarrow> draft_reply \<Rightarrow> ticket_status option \<Rightarrow>
    ticket_result" where
  "expected_result t c d status =
     \<lparr> r_ticket_id = id' t, r_status = fst (terminal_outcome status d),
       r_reply_text = snd (terminal_outcome status d), refund_executed = False,
       model_path = c_model c @ ''/'' @ d_model d \<rparr>"

definition finalize_payload :: "ticket \<Rightarrow> proposed_action \<Rightarrow> ticket_result \<Rightarrow> json" where
  "finalize_payload t a r =
     JObj [(''ticket'', ticket_dump t), (''action'', action_dump a), (''result'', result_dump r)]"

definition execute ::
  "'e env_scheme \<Rightarrow> bool \<Rightarrow> timestamp \<Rightarrow> ticket_state \<Rightarrow> json list \<Rightarrow> task_table
     \<Rightarrow> outcome \<times> task_table" where
  "execute E ua now st resumes q =
     (case (s_ticket st, s_draft st, s_classification st) of
        (Some t, Some d, Some c) \<Rightarrow>
          (let expected = expected_result t c d (s_status st);
               key = task_key (id' t) ''finalize'';
               q' = snd (enqueue_task ua now (TASK_QUEUE E) ''finalize_ticket'' (id' t)
                      (finalize_payload t (action d) expected) key None q)
           in case resumes of
                [] \<Rightarrow> (Interrupt (JObj
                  [(''kind'', JStr ''terminal_task''), (''idempotency_key'', JStr key),
                   (''task_type'', JStr ''finalize_ticket''), (''workflow_id'', JStr (id' t)),
                   (''queue'', JStr (TASK_QUEUE E)), (''result'', result_dump expected)]), q')
              | resume # _ \<Rightarrow>
                  (case result_validate E resume of
                     Inl e \<Rightarrow> (Raise e, q')
                   | Inr result \<Rightarrow>
                       if r_ticket_id result \<noteq> id' t
                       then (Raise (ValueError
                         ''terminal result ticket_id does not match workflow''), q')
                       else (Return (st\<lparr> s_result := Some result,
                         s_status := Some (r_status result),
                         s_refund_executed := Some (refund_executed result),
                         s_wakeup_at := None \<rparr>), q')))
      | _ \<Rightarrow> (Raise AssertionError, q))"

section \<open>Wiring\<close>

datatype node =
    Dispatch_classify | Await_classify | Dispatch_draft | Await_draft | Decide_approval
  | Prepare_approval | Await_approval | Execute

definition route_after_decide :: "ticket_state \<Rightarrow> node" where
  "route_after_decide st =
     (if s_needs_approval st = Some True then Prepare_approval else Execute)"

definition route_after_classify :: "ticket_state \<Rightarrow> node" where
  "route_after_classify st = (if s_status st = Some ESCALATED then Execute else Dispatch_draft)"

definition route_after_draft :: "ticket_state \<Rightarrow> node" where
  "route_after_draft st = (if s_status st = Some ESCALATED then Execute else Decide_approval)"

text \<open>The edges of the builder; \<^verbatim>\<open>None\<close> is \<^verbatim>\<open>END\<close>.\<close>

definition start_node :: node where
  "start_node = Dispatch_classify"

fun next_node :: "node \<Rightarrow> ticket_state \<Rightarrow> node option" where
  "next_node Dispatch_classify st = Some Await_classify"
| "next_node Await_classify st = Some (route_after_classify st)"
| "next_node Dispatch_draft st = Some Await_draft"
| "next_node Await_draft st = Some (route_after_draft st)"
| "next_node Decide_approval st = Some (route_after_decide st)"
| "next_node Prepare_approval st = Some Await_approval"
| "next_node Await_approval st = Some Execute"
| "next_node Execute st = None"

text \<open>A node's body: \<^verbatim>\<open>clk\<close> is the database's clock when the node runs.\<close>

fun run_node ::
  "'e env_scheme \<Rightarrow> bool \<Rightarrow> (node \<Rightarrow> timestamp) \<Rightarrow> node \<Rightarrow> ticket_state \<Rightarrow> json list \<Rightarrow> task_table
     \<Rightarrow> outcome \<times> task_table" where
  "run_node E ua clk Dispatch_classify st rs q =
     dispatch_classify E ua (clk Dispatch_classify) st q"
| "run_node E ua clk Await_classify st rs q = await_classify E ua (clk Await_classify) st rs q"
| "run_node E ua clk Dispatch_draft st rs q = dispatch_draft E ua (clk Dispatch_draft) st q"
| "run_node E ua clk Await_draft st rs q = await_draft E ua (clk Await_draft) st rs q"
| "run_node E ua clk Decide_approval st rs q = (decide_approval st, q)"
| "run_node E ua clk Prepare_approval st rs q =
     (prepare_approval (clk Prepare_approval) st, q)"
| "run_node E ua clk Await_approval st rs q = (await_approval E st rs, q)"
| "run_node E ua clk Execute st rs q = execute E ua (clk Execute) st rs q"

text \<open>The state \<^verbatim>\<open>create_ticket\<close> of \<^verbatim>\<open>api.py\<close> starts a thread with.\<close>

definition initial_state :: "ticket \<Rightarrow> ticket_state" where
  "initial_state t =
     \<lparr> s_ticket = Some t, s_classification = None, s_draft = None, s_needs_approval = None,
       s_decision = None, s_wakeup_at = None, s_status = Some RECEIVED,
       s_refund_executed = None, s_result = None \<rparr>"

section \<open>The engine\<close>

text \<open>
  LangGraph drives a node until the graph parks at an interrupt, finishes or a node raises, and
  keeps what it needs to go on in the thread's checkpoint. Its documented behaviour is the
  contract \<^verbatim>\<open>langgraph\<close>: a node that returns hands the merged state to the next node of the
  edges, which starts with no resume values; an interrupted node stays the next one, with the
  resume values it has used; an exception leaves the checkpoint where the failing node starts,
  and does not count the resume value it was given.
\<close>

datatype drive_result =
    Parked node ticket_state "json list" json
  | Finished ticket_state
  | Crashed exn node ticket_state

type_synonym node_body =
  "node \<Rightarrow> ticket_state \<Rightarrow> json list \<Rightarrow> task_table \<Rightarrow> outcome \<times> task_table"

record thread =
  th_values :: ticket_state
  th_next :: "node option"
  th_resumes :: "json list"
  th_interrupt :: "json option"

record engine =
  drive :: "node_body \<Rightarrow> node \<Rightarrow> ticket_state \<Rightarrow> json list \<Rightarrow> task_table \<Rightarrow> drive_result \<times> task_table"
  persist :: "thread option \<Rightarrow> drive_result \<Rightarrow> thread"

text \<open>Every edge goes to a node of lower rank, so every run of the engine ends.\<close>

fun rank :: "node \<Rightarrow> nat" where
  "rank Dispatch_classify = 7" | "rank Await_classify = 6" | "rank Dispatch_draft = 5"
| "rank Await_draft = 4" | "rank Decide_approval = 3" | "rank Prepare_approval = 2"
| "rank Await_approval = 1" | "rank Execute = 0"

lemma next_node_rank: "next_node n st = Some m \<Longrightarrow> rank m < rank n"
  by (cases n) (auto simp: route_after_classify_def route_after_draft_def route_after_decide_def)

locale langgraph =
  fixes G :: engine
  assumes drive_raise:
      "nb n st rs q = (Raise e, q') \<Longrightarrow> drive G nb n st rs q = (Crashed e n st, q')"
    and drive_interrupt:
      "nb n st rs q = (Interrupt env, q') \<Longrightarrow> drive G nb n st rs q = (Parked n st rs env, q')"
    and drive_end:
      "nb n st rs q = (Return st', q') \<Longrightarrow> next_node n st' = None \<Longrightarrow>
       drive G nb n st rs q = (Finished st', q')"
    and drive_next:
      "nb n st rs q = (Return st', q') \<Longrightarrow> next_node n st' = Some m \<Longrightarrow>
       drive G nb n st rs q = drive G nb m st' [] q'"
    and persist_parked:
      "persist G old (Parked n st rs env) =
         \<lparr> th_values = st, th_next = Some n, th_resumes = rs, th_interrupt = Some env \<rparr>"
    and persist_finished:
      "persist G old (Finished st) =
         \<lparr> th_values = st, th_next = None, th_resumes = [], th_interrupt = None \<rparr>"
    and persist_crashed_same:
      "th_next th = Some n \<Longrightarrow> persist G (Some th) (Crashed e n st) = th"
    and persist_crashed_later:
      "th_next th \<noteq> Some n \<Longrightarrow> persist G (Some th) (Crashed e n st) =
         \<lparr> th_values = st, th_next = Some n, th_resumes = [], th_interrupt = None \<rparr>"
    and persist_crashed_new:
      "persist G None (Crashed e n st) =
         \<lparr> th_values = st, th_next = Some n, th_resumes = [], th_interrupt = None \<rparr>"
begin

text \<open>
  What every node's body guarantees about the next, the engine guarantees about a run: \<^verbatim>\<open>I\<close>
  holds where a node starts, \<^verbatim>\<open>P\<close> where one parks, \<^verbatim>\<open>F\<close> at the end, \<^verbatim>\<open>C\<close> where one raises.
\<close>

lemma drive_inv:
  assumes step: "\<And>n st rs q. I n st rs q \<Longrightarrow>
      (case nb n st rs q of
         (Return st', q') \<Rightarrow> (case next_node n st' of None \<Rightarrow> F st' q' | Some m \<Rightarrow> I m st' [] q')
       | (Interrupt env, q') \<Rightarrow> P n st rs env q'
       | (Raise e, q') \<Rightarrow> C e n st q')"
    and "I n st rs q"
  shows "case drive G nb n st rs q of
      (Parked n' st' rs' env, q') \<Rightarrow> P n' st' rs' env q'
    | (Finished st', q') \<Rightarrow> F st' q'
    | (Crashed e n' st', q') \<Rightarrow> C e n' st' q'"
  using assms(2)
proof (induction "rank n" arbitrary: n st rs q rule: less_induct)
  case less
  obtain out q' where b: "nb n st rs q = (out, q')" by fastforce
  show ?case
  proof (cases out)
    case (Return st')
    show ?thesis
    proof (cases "next_node n st'")
      case None
      then show ?thesis using step [OF less.prems] b Return
        by (simp add: drive_end [of nb, OF b [unfolded Return] None])
    next
      case (Some m)
      have "I m st' [] q'" using step [OF less.prems] b Return Some by simp
      from less.hyps [OF next_node_rank [OF Some] this] show ?thesis
        by (simp add: drive_next [of nb, OF b [unfolded Return] Some])
    qed
  next
    case (Interrupt env)
    then show ?thesis using step [OF less.prems] b
      by (simp add: drive_interrupt [of nb, OF b [unfolded Interrupt]])
  next
    case (Raise e)
    then show ?thesis using step [OF less.prems] b
      by (simp add: drive_raise [of nb, OF b [unfolded Raise]])
  qed
qed

end

text \<open>An engine with this behaviour, by recursion along the edges.\<close>

function drive_ref ::
  "node_body \<Rightarrow> node \<Rightarrow> ticket_state \<Rightarrow> json list \<Rightarrow> task_table \<Rightarrow> drive_result \<times> task_table" where
  "drive_ref nb n st rs q =
     (case nb n st rs q of
        (Raise e, q') \<Rightarrow> (Crashed e n st, q')
      | (Interrupt env, q') \<Rightarrow> (Parked n st rs env, q')
      | (Return st', q') \<Rightarrow>
          (case next_node n st' of
             None \<Rightarrow> (Finished st', q')
           | Some m \<Rightarrow> drive_ref nb m st' [] q'))"
  by pat_completeness auto
termination
  by (relation "measure (\<lambda>(nb, n, st, rs, q). rank n)") (auto simp: next_node_rank)

declare drive_ref.simps [simp del]

fun persist_ref :: "thread option \<Rightarrow> drive_result \<Rightarrow> thread" where
  "persist_ref th (Parked n st rs env) =
     \<lparr> th_values = st, th_next = Some n, th_resumes = rs, th_interrupt = Some env \<rparr>"
| "persist_ref th (Finished st) =
     \<lparr> th_values = st, th_next = None, th_resumes = [], th_interrupt = None \<rparr>"
| "persist_ref None (Crashed e n st) =
     \<lparr> th_values = st, th_next = Some n, th_resumes = [], th_interrupt = None \<rparr>"
| "persist_ref (Some th) (Crashed e n st) =
     (if th_next th = Some n then th
      else \<lparr> th_values = st, th_next = Some n, th_resumes = [], th_interrupt = None \<rparr>)"

definition ref_engine :: engine where
  "ref_engine = \<lparr> drive = drive_ref, persist = persist_ref \<rparr>"

interpretation ref_graph: langgraph ref_engine
proof unfold_locales
  fix nb :: node_body and n st rs q e q'
  assume "nb n st rs q = (Raise e, q')"
  then show "drive ref_engine nb n st rs q = (Crashed e n st, q')"
    by (simp add: ref_engine_def drive_ref.simps [of nb n])
next
  fix nb :: node_body and n st rs q env q'
  assume "nb n st rs q = (Interrupt env, q')"
  then show "drive ref_engine nb n st rs q = (Parked n st rs env, q')"
    by (simp add: ref_engine_def drive_ref.simps [of nb n])
next
  fix nb :: node_body and n st rs q st' q'
  assume "nb n st rs q = (Return st', q')" "next_node n st' = None"
  then show "drive ref_engine nb n st rs q = (Finished st', q')"
    by (simp add: ref_engine_def drive_ref.simps [of nb n])
next
  fix nb :: node_body and n st rs q st' q' m
  assume "nb n st rs q = (Return st', q')" "next_node n st' = Some m"
  then show "drive ref_engine nb n st rs q = drive ref_engine nb m st' [] q'"
    by (simp add: ref_engine_def drive_ref.simps [of nb n])
qed (simp_all add: ref_engine_def)

text \<open>\<^verbatim>\<open>ainvoke\<close> on a new thread and \<^verbatim>\<open>ainvoke(Command(resume=...))\<close> on a parked one.\<close>

definition body_of :: "'e env_scheme \<Rightarrow> bool \<Rightarrow> (node \<Rightarrow> timestamp) \<Rightarrow> node_body" where
  "body_of E ua clk n st rs q = run_node E ua clk n st rs q"

definition invoke_new ::
  "engine \<Rightarrow> 'e env_scheme \<Rightarrow> bool \<Rightarrow> (node \<Rightarrow> timestamp) \<Rightarrow> ticket_state \<Rightarrow> task_table
     \<Rightarrow> drive_result \<times> thread \<times> task_table" where
  "invoke_new G E ua clk st q =
     (let (res, q') = drive G (body_of E ua clk) start_node st [] q
      in (res, persist G None res, q'))"

definition invoke_resume ::
  "engine \<Rightarrow> 'e env_scheme \<Rightarrow> bool \<Rightarrow> (node \<Rightarrow> timestamp) \<Rightarrow> thread \<Rightarrow> node \<Rightarrow> json \<Rightarrow> task_table
     \<Rightarrow> drive_result \<times> thread \<times> task_table" where
  "invoke_resume G E ua clk th n v q =
     (let (res, q') = drive G (body_of E ua clk) n (th_values th) (th_resumes th @ [v]) q
      in (res, persist G (Some th) res, q'))"

end
