(* ===== verification/GraphProps.thy ===== *)
theory GraphProps
  imports Graph
begin

text \<open>
  What the ticket workflow guarantees, for every LangGraph with the documented behaviour:
  \<^verbatim>\<open>history\<close> collects the threads a ticket can have after any number of invocations, each on
  whatever the queue holds then and with whatever resume value; the node invariant
  \<^verbatim>\<open>node_pre\<close> is carried through them and gives the approval gate.
\<close>

section \<open>Histories of a thread\<close>

inductive history :: "engine \<Rightarrow> 'e env_scheme \<Rightarrow> ticket \<Rightarrow> thread \<Rightarrow> bool" for G E t where
  history_new: "invoke_new G E ua clk (initial_state t) q = (res, th, q') \<Longrightarrow> history G E t th"
| history_resume: "history G E t th \<Longrightarrow> th_next th = Some n \<Longrightarrow>
    invoke_resume G E ua clk th n v q = (res, th', q') \<Longrightarrow> history G E t th'"

section \<open>The node invariant\<close>

text \<open>A draft that needs a human is executed only when approved, rejected or escalated.\<close>

definition gate_ok :: "ticket_state \<Rightarrow> bool" where
  "gate_ok st =
     (\<forall>d. s_draft st = Some d \<longrightarrow> needs_human d \<longrightarrow>
       s_status st = Some ESCALATED \<or> s_status st = Some REJECTED \<or>
       (\<exists>dec. s_decision st = Some dec \<and> approved dec))"

definition drafted :: "ticket_state \<Rightarrow> bool" where
  "drafted st = (s_draft st \<noteq> None \<and> s_classification st \<noteq> None)"

fun node_pre :: "node \<Rightarrow> ticket_state \<Rightarrow> bool" where
  "node_pre Dispatch_classify st = True"
| "node_pre Await_classify st = (s_status st = Some CLASSIFYING)"
| "node_pre Dispatch_draft st = (s_classification st \<noteq> None)"
| "node_pre Await_draft st = (s_classification st \<noteq> None)"
| "node_pre Decide_approval st = drafted st"
| "node_pre Prepare_approval st = drafted st"
| "node_pre Await_approval st =
     (drafted st \<and> s_wakeup_at st \<noteq> None \<and> s_status st = Some AWAITING_APPROVAL)"
| "node_pre Execute st = (drafted st \<and> gate_ok st)"

definition point_ok :: "ticket \<Rightarrow> node \<Rightarrow> ticket_state \<Rightarrow> bool" where
  "point_ok t n st = (s_ticket st = Some t \<and> node_pre n st)"

fun waits :: "node \<Rightarrow> bool" where
  "waits Await_classify = True" | "waits Await_draft = True" | "waits Await_approval = True"
| "waits Execute = True" | "waits _ = False"

text \<open>An agent's task is awaited twice at most, the second time after a timeout.\<close>

definition rs_ok :: "node \<Rightarrow> json list \<Rightarrow> bool" where
  "rs_ok n rs = (rs = [] \<or>
     (n \<in> {Await_classify, Await_draft} \<and> (\<exists>x. rs = [x] \<and> is_timeout x)))"

definition finished_ok :: "ticket \<Rightarrow> ticket_state \<Rightarrow> bool" where
  "finished_ok t st =
     (s_ticket st = Some t \<and> (\<exists>r. s_result st = Some r \<and> r_ticket_id r = id' t \<and>
        s_status st = Some (r_status r) \<and> s_refund_executed st = Some (refund_executed r)))"

text \<open>What a node's body leaves, by the way it ends.\<close>

definition step_ok :: "ticket \<Rightarrow> node \<Rightarrow> ticket_state \<Rightarrow> json list \<Rightarrow> outcome \<Rightarrow> bool" where
  "step_ok t n st rs out =
     (case out of
        Return st' \<Rightarrow> (case next_node n st' of None \<Rightarrow> finished_ok t st' | Some m \<Rightarrow> point_ok t m st')
      | Interrupt env \<Rightarrow> waits n \<and> rs_ok n rs
      | Raise e \<Rightarrow> True)"

lemma rs_ok_Nil [simp]: "rs_ok n []"
  by (simp add: rs_ok_def)

lemma await_agent_suspended:
  "await_agent_task E ua now ty wid pl wk rs q = (Suspended env, q') \<Longrightarrow>
   n \<in> {Await_classify, Await_draft} \<Longrightarrow> rs_ok n rs"
  by (auto simp: await_agent_task_def rs_ok_def Let_def split: list.splits if_splits prod.splits)

lemma await_approval_step:
  assumes "point_ok t Await_approval st"
  shows "step_ok t Await_approval st rs (await_approval E st rs)"
  using assms
  by (auto simp: step_ok_def await_approval_def point_ok_def drafted_def gate_ok_def
      split: option.splits list.splits sum.splits)

lemma execute_step:
  assumes "point_ok t Execute st"
  shows "step_ok t Execute st rs (fst (execute E ua now st rs q))"
  using assms
  by (auto simp: step_ok_def execute_def point_ok_def drafted_def finished_ok_def Let_def
      split: option.splits list.splits sum.splits)

lemma await_classify_step:
  assumes "point_ok t Await_classify st"
  shows "step_ok t Await_classify st rs (fst (await_classify E ua now st rs q))"
  using assms
  by (auto simp: step_ok_def await_classify_def point_ok_def route_after_classify_def
      drafted_def gate_ok_def dest: await_agent_suspended
      split: option.splits sum.splits prod.splits awaited.splits)

lemma await_draft_step:
  assumes "point_ok t Await_draft st"
  shows "step_ok t Await_draft st rs (fst (await_draft E ua now st rs q))"
  using assms
  by (auto simp: step_ok_def await_draft_def point_ok_def route_after_draft_def
      drafted_def gate_ok_def dest: await_agent_suspended
      split: option.splits sum.splits prod.splits awaited.splits)

lemma node_step:
  assumes "point_ok t n st"
  shows "step_ok t n st rs (fst (body_of E ua clk n st rs q))"
proof (cases n)
  case Dispatch_classify
  then show ?thesis using assms
    by (auto simp: body_of_def step_ok_def dispatch_classify_def point_ok_def split: prod.splits)
next
  case Dispatch_draft
  then show ?thesis using assms
    by (auto simp: body_of_def step_ok_def dispatch_draft_def point_ok_def split: prod.splits)
next
  case Decide_approval
  then show ?thesis using assms
    by (auto simp: body_of_def step_ok_def decide_approval_def point_ok_def drafted_def
        gate_ok_def route_after_decide_def)
next
  case Prepare_approval
  then show ?thesis using assms
    by (auto simp: body_of_def step_ok_def prepare_approval_def point_ok_def drafted_def)
qed (use assms in \<open>simp_all add: body_of_def await_classify_step await_draft_step
       await_approval_step execute_step\<close>)

text \<open>Carried along the edges by the engine, and from one invocation to the next.\<close>

definition result_ok :: "ticket \<Rightarrow> drive_result \<Rightarrow> bool" where
  "result_ok t res =
     (case res of
        Parked n st rs env \<Rightarrow> waits n \<and> rs_ok n rs \<and> point_ok t n st
      | Finished st \<Rightarrow> finished_ok t st
      | Crashed e n st \<Rightarrow> point_ok t n st)"

definition thread_ok :: "ticket \<Rightarrow> thread \<Rightarrow> bool" where
  "thread_ok t th =
     (case th_next th of
        None \<Rightarrow> finished_ok t (th_values th)
      | Some n \<Rightarrow> rs_ok n (th_resumes th) \<and> point_ok t n (th_values th))"

context langgraph
begin

lemma drive_ok:
  assumes "point_ok t n st"
  shows "result_ok t (fst (drive G (body_of E ua clk) n st rs q))"
proof -
  have "case drive G (body_of E ua clk) n st rs q of
      (Parked n' st' rs' env, q') \<Rightarrow> waits n' \<and> rs_ok n' rs' \<and> point_ok t n' st'
    | (Finished st', q') \<Rightarrow> finished_ok t st'
    | (Crashed e n' st', q') \<Rightarrow> point_ok t n' st'"
  proof (rule drive_inv [where I = "\<lambda>n st rs q. point_ok t n st"
        and P = "\<lambda>n st rs env q. waits n \<and> rs_ok n rs \<and> point_ok t n st" and F = "\<lambda>st q. finished_ok t st"
        and C = "\<lambda>e n st q. point_ok t n st"])
    fix n st rs q
    assume pre: "point_ok t n st"
    from node_step [OF pre, where rs = rs and E = E and ua = ua and clk = clk and q = q]
    show "case body_of E ua clk n st rs q of
        (Return st', q') \<Rightarrow>
          (case next_node n st' of None \<Rightarrow> finished_ok t st' | Some m \<Rightarrow> point_ok t m st')
      | (Interrupt env, q') \<Rightarrow> waits n \<and> rs_ok n rs \<and> point_ok t n st
      | (Raise e, q') \<Rightarrow> point_ok t n st"
      using pre by (auto simp: step_ok_def split: prod.splits outcome.splits)
  qed (fact assms)
  then show ?thesis by (auto simp: result_ok_def split: prod.splits drive_result.splits)
qed

lemma persist_ok:
  assumes "result_ok t res" and "case old of None \<Rightarrow> True | Some th \<Rightarrow> thread_ok t th"
  shows "thread_ok t (persist G old res)"
proof (cases res)
  case (Crashed e n st)
  show ?thesis
  proof (cases old)
    case None
    then show ?thesis using assms Crashed
      by (simp add: persist_crashed_new thread_ok_def result_ok_def)
  next
    case (Some th)
    then show ?thesis using assms Crashed
      by (cases "th_next th = Some n")
        (simp_all add: persist_crashed_same persist_crashed_later thread_ok_def result_ok_def)
  qed
qed (use assms in \<open>simp_all add: persist_parked persist_finished thread_ok_def result_ok_def\<close>)

lemma invoke_new_ok:
  assumes "invoke_new G E ua clk (initial_state t) q = (res, th, q')"
  shows "result_ok t res \<and> thread_ok t th"
proof -
  have "point_ok t start_node (initial_state t)"
    by (simp add: point_ok_def start_node_def initial_state_def)
  from drive_ok [OF this, of E ua clk "[]" q] show ?thesis using assms persist_ok [of t res None]
    by (auto simp: invoke_new_def split: prod.splits)
qed

lemma invoke_resume_ok:
  assumes "thread_ok t th" and "th_next th = Some n"
    and "invoke_resume G E ua clk th n v q = (res, th', q')"
  shows "result_ok t res \<and> thread_ok t th'"
proof -
  have "point_ok t n (th_values th)" using assms by (simp add: thread_ok_def)
  from drive_ok [OF this, of E ua clk "th_resumes th @ [v]" q] show ?thesis
    using assms persist_ok [of t res "Some th"]
    by (auto simp: invoke_resume_def split: prod.splits)
qed

lemma history_ok: "history G E t th \<Longrightarrow> thread_ok t th"
  by (induction rule: history.induct) (auto dest: invoke_new_ok invoke_resume_ok)

text \<open>The engine evaluates one node at a time.\<close>

lemma drive_unfold:
  "drive G nb n st rs q =
     (case nb n st rs q of
        (Raise e, q') \<Rightarrow> (Crashed e n st, q')
      | (Interrupt env, q') \<Rightarrow> (Parked n st rs env, q')
      | (Return st', q') \<Rightarrow>
          (case next_node n st' of
             None \<Rightarrow> (Finished st', q')
           | Some m \<Rightarrow> drive G nb m st' [] q'))"
  by (cases "nb n st rs q"; cases "fst (nb n st rs q)"; cases "next_node n (case fst (nb n st rs q) of Return st' \<Rightarrow> st' | _ \<Rightarrow> st)")
     (auto simp: drive_raise drive_interrupt drive_end drive_next)

lemmas drive_nodes =
  drive_unfold [where n = Dispatch_classify] drive_unfold [where n = Await_classify]
  drive_unfold [where n = Dispatch_draft] drive_unfold [where n = Await_draft]
  drive_unfold [where n = Decide_approval] drive_unfold [where n = Prepare_approval]
  drive_unfold [where n = Await_approval] drive_unfold [where n = Execute]

lemmas persist_simps = persist_parked persist_finished persist_crashed_same
  persist_crashed_later persist_crashed_new

end

section \<open>The path of a ticket\<close>

definition put_task ::
  "timestamp \<Rightarrow> string \<Rightarrow> string \<Rightarrow> string \<Rightarrow> json \<Rightarrow> string \<Rightarrow> task_table \<Rightarrow> task_table" where
  "put_task now qn ty wid pl key q =
     snd (enqueue now qn ty wid pl key default_max_attempts None q)"

lemma enqueue_task_eq [simp]:
  "enqueue_task ua now qn ty wid pl key wa q =
     (map_option (\<lambda>d. now + d) wa, put_task now qn ty wid pl key q)"
  by (simp add: enqueue_task_def put_task_def)

lemma enqueue_agent_task_eq [simp]:
  "enqueue_agent_task E ua now ty wid pl q =
     (Some (now + SCHEDULE_TO_START E),
      put_task now (AGENT_TASK_QUEUE E) ty wid pl (task_key wid ty) q)"
  by (simp add: enqueue_agent_task_def)

lemma redispatch_eq:
  "redispatch_agent_task E ua now key ty wid pl q =
     (let (redispatched, q1) = cancel_pending key ''redispatched to fallback'' q
      in (redispatched,
          if redispatched
          then put_task now (FALLBACK_TASK_QUEUE E) ty wid pl (key @ '':fallback'') q1 else q1))"
  by (simp add: redispatch_agent_task_def put_task_def split: prod.splits)

lemma not_envelope [simp]:
  "\<not> is_timeout (classification_dump c)" "\<not> is_task_failed (classification_dump c)"
  "\<not> is_timeout (draft_dump d)" "\<not> is_task_failed (draft_dump d)"
  by (simp_all add: is_timeout_def is_task_failed_def kind_is_def classification_dump_def
      draft_dump_def)

text \<open>The states a ticket passes through on its way.\<close>

definition classifying :: "'e env_scheme \<Rightarrow> (node \<Rightarrow> timestamp) \<Rightarrow> ticket \<Rightarrow> ticket_state" where
  "classifying E clk t = (initial_state t)\<lparr> s_status := Some CLASSIFYING,
     s_wakeup_at := Some (clk Dispatch_classify + SCHEDULE_TO_START E) \<rparr>"

definition drafting ::
  "'e env_scheme \<Rightarrow> (node \<Rightarrow> timestamp) \<Rightarrow> ticket \<Rightarrow> classification \<Rightarrow> ticket_state" where
  "drafting E clk t c = (initial_state t)\<lparr> s_classification := Some c, s_status := Some DRAFTING,
     s_wakeup_at := Some (clk Dispatch_draft + SCHEDULE_TO_START E) \<rparr>"

definition decided ::
  "ticket \<Rightarrow> classification \<Rightarrow> draft_reply \<Rightarrow> ticket_state" where
  "decided t c d = (initial_state t)\<lparr> s_classification := Some c, s_draft := Some d,
     s_needs_approval := Some (needs_human d), s_status := Some DRAFTING, s_wakeup_at := None \<rparr>"

definition gated ::
  "(node \<Rightarrow> timestamp) \<Rightarrow> ticket \<Rightarrow> classification \<Rightarrow> draft_reply \<Rightarrow> ticket_state" where
  "gated clk t c d = (decided t c d)\<lparr> s_status := Some AWAITING_APPROVAL,
     s_wakeup_at := Some (clk Prepare_approval + APPROVAL_TIMEOUT) \<rparr>"

definition parked_thread :: "node \<Rightarrow> ticket_state \<Rightarrow> json \<Rightarrow> thread" where
  "parked_thread n st env =
     \<lparr> th_values = st, th_next = Some n, th_resumes = [], th_interrupt = Some env \<rparr>"

definition agent_envelope ::
  "'e env_scheme \<Rightarrow> string \<Rightarrow> string \<Rightarrow> timestamp option \<Rightarrow> json" where
  "agent_envelope E wid ty wk =
     await_envelope (task_key wid ty) ty wid (AGENT_TASK_QUEUE E)
       [(''wakeup_at'', opt_json (\<lambda>t. JStr (isoformat E t)) wk)]"

definition approval_envelope ::
  "'e env_scheme \<Rightarrow> ticket \<Rightarrow> draft_reply \<Rightarrow> timestamp \<Rightarrow> json" where
  "approval_envelope E t d wk = JObj
     [(''kind'', JStr ''approval_required''), (''ticket_id'', JStr (id' t)),
      (''wakeup_at'', JStr (isoformat E wk)), (''draft'', draft_dump d)]"

definition terminal_envelope ::
  "'e env_scheme \<Rightarrow> ticket \<Rightarrow> ticket_result \<Rightarrow> json" where
  "terminal_envelope E t r = JObj
     [(''kind'', JStr ''terminal_task''), (''idempotency_key'', JStr (task_key (id' t) ''finalize'')),
      (''task_type'', JStr ''finalize_ticket''), (''workflow_id'', JStr (id' t)),
      (''queue'', JStr (TASK_QUEUE E)), (''result'', result_dump r)]"

definition put_finalize ::
  "'e env_scheme \<Rightarrow> timestamp \<Rightarrow> ticket \<Rightarrow> classification \<Rightarrow> draft_reply \<Rightarrow> ticket_status option
     \<Rightarrow> task_table \<Rightarrow> task_table" where
  "put_finalize E now t c d status q =
     put_task now (TASK_QUEUE E) ''finalize_ticket'' (id' t)
       (finalize_payload t (action d) (expected_result t c d status)) (task_key (id' t) ''finalize'') q"

lemma execute_parks:
  assumes "s_ticket st = Some t" and "s_draft st = Some d" and "s_classification st = Some c"
  shows "execute E ua now st [] q =
    (Interrupt (terminal_envelope E t (expected_result t c d (s_status st))),
     put_finalize E now t c d (s_status st) q)"
  using assms by (simp add: execute_def terminal_envelope_def put_finalize_def Let_def)

context langgraph
begin

lemma start_ticket:
  "invoke_new G E ua clk (initial_state t) q =
     (let st = classifying E clk t; env = agent_envelope E (id' t) ''classify'' (s_wakeup_at st)
      in (Parked Await_classify st [] env, parked_thread Await_classify st env,
          put_task (clk Dispatch_classify) (AGENT_TASK_QUEUE E) ''classify'' (id' t)
            (classify_payload t) (task_key (id' t) ''classify'') q))"
  by (simp add: invoke_new_def start_node_def drive_nodes body_of_def dispatch_classify_def
      initial_state_def await_classify_def await_agent_task_def classifying_def Let_def
      persist_simps parked_thread_def agent_envelope_def)

lemma resume_classified:
  assumes "good_coercion E" and "valid_classification c" and "s_ticket st = Some t"
    and "st = classifying E clk0 t"
  shows "invoke_resume G E ua clk (parked_thread Await_classify st env) Await_classify
      (classification_dump c) q =
     (let st = drafting E clk t c; env = agent_envelope E (id' t) ''draft'' (s_wakeup_at st)
      in (Parked Await_draft st [] env, parked_thread Await_draft st env,
          put_task (clk Dispatch_draft) (AGENT_TASK_QUEUE E) ''draft'' (id' t)
            (draft_payload t c) (task_key (id' t) ''draft'') q))"
  using assms
  by (simp add: invoke_resume_def drive_nodes body_of_def await_classify_def
      initial_state_def await_agent_task_def classifying_def drafting_def Let_def
      persist_simps parked_thread_def agent_envelope_def route_after_classify_def
      dispatch_draft_def await_draft_def)

lemma resume_drafted_auto:
  assumes "good_coercion E" and "valid_draft d" and "\<not> needs_human d"
  shows "invoke_resume G E ua clk (parked_thread Await_draft (drafting E clk0 t c) env) Await_draft
      (draft_dump d) q =
     (let st = decided t c d; env = terminal_envelope E t (expected_result t c d (Some DRAFTING))
      in (Parked Execute st [] env, parked_thread Execute st env,
          put_finalize E (clk Execute) t c d (Some DRAFTING) q))"
  using assms
  by (simp add: invoke_resume_def drive_nodes body_of_def await_draft_def initial_state_def
      await_agent_task_def drafting_def decided_def Let_def persist_simps parked_thread_def
      route_after_draft_def decide_approval_def route_after_decide_def execute_parks)

lemma resume_drafted_gate:
  assumes "good_coercion E" and "valid_draft d" and "needs_human d"
  shows "invoke_resume G E ua clk (parked_thread Await_draft (drafting E clk0 t c) env) Await_draft
      (draft_dump d) q =
     (let st = gated clk t c d;
          env = approval_envelope E t d (clk Prepare_approval + APPROVAL_TIMEOUT)
      in (Parked Await_approval st [] env, parked_thread Await_approval st env, q))"
  using assms
  by (simp add: invoke_resume_def drive_nodes body_of_def await_draft_def initial_state_def
      await_agent_task_def drafting_def decided_def gated_def Let_def persist_simps
      parked_thread_def route_after_draft_def decide_approval_def route_after_decide_def
      prepare_approval_def timestamp_after_def await_approval_def approval_envelope_def)

lemma resume_gate:
  assumes "good_coercion E" and "v = JObj [(''kind'', JStr ''decision''), (''decision'', decision_dump dec)]"
    and "st' = (gated clk0 t c d)\<lparr> s_decision := Some dec,
        s_status := Some (if approved dec then AWAITING_APPROVAL else REJECTED) \<rparr>"
  shows "invoke_resume G E ua clk (parked_thread Await_approval (gated clk0 t c d) env)
      Await_approval v q =
     (let env = terminal_envelope E t (expected_result t c d (s_status st'))
      in (Parked Execute st' [] env, parked_thread Execute st' env,
          put_finalize E (clk Execute) t c d (s_status st') q))"
  using assms
  by (simp add: invoke_resume_def drive_nodes body_of_def await_approval_def gated_def decided_def
      initial_state_def kind_is_def Let_def persist_simps parked_thread_def execute_parks)

lemma resume_gate_timeout:
  assumes "st' = (gated clk0 t c d)\<lparr> s_status := Some ESCALATED \<rparr>"
  shows "invoke_resume G E ua clk (parked_thread Await_approval (gated clk0 t c d) env)
      Await_approval (JObj [(''kind'', JStr ''timeout'')]) q =
     (let env = terminal_envelope E t (expected_result t c d (s_status st'))
      in (Parked Execute st' [] env, parked_thread Execute st' env,
          put_finalize E (clk Execute) t c d (s_status st') q))"
  using assms
  by (simp add: invoke_resume_def drive_nodes body_of_def await_approval_def gated_def decided_def
      initial_state_def kind_is_def Let_def persist_simps parked_thread_def execute_parks)

end

lemma terminal_envelope_inject [simp]:
  "terminal_envelope E t r = terminal_envelope E t r' \<longleftrightarrow> r = r'"
  by (cases r; cases r') (auto simp: terminal_envelope_def result_dump_def)

lemma expected_escalated [simp]:
  "r_ticket_id (expected_result t c d status) = id' t"
  "r_status (expected_result t c d (Some ESCALATED)) = ESCALATED"
  "r_reply_text (expected_result t c d (Some ESCALATED)) = ESCALATION_REPLY"
  by (simp_all add: expected_result_def terminal_outcome_def)

context langgraph
begin

lemma resume_finished:
  assumes "s_ticket st = Some t" and "s_draft st = Some d" and "s_classification st = Some c"
    and "r_ticket_id r = id' t" and "good_coercion E"
  shows "\<exists>q'. invoke_resume G E ua clk (parked_thread Execute st env) Execute (result_dump r) q =
    (let st' = st\<lparr> s_result := Some r, s_status := Some (r_status r),
           s_refund_executed := Some (refund_executed r), s_wakeup_at := None \<rparr>
     in (Finished st', \<lparr> th_values = st', th_next = None, th_resumes = [], th_interrupt = None \<rparr>, q'))"
  using assms
  by (auto simp: invoke_resume_def drive_nodes body_of_def execute_def Let_def persist_simps
      parked_thread_def)

lemma failed_escalates:
  assumes "point_ok t n st" and "n \<in> {Await_classify, Await_draft}"
    and "rs_ok n (th_resumes th)" and "th_values th = st" and "is_task_failed v"
  shows "\<exists>st' r q'. s_status st' = Some ESCALATED \<and> r_ticket_id r = id' t \<and>
    r_status r = ESCALATED \<and> r_reply_text r = ESCALATION_REPLY \<and>
    invoke_resume G E ua clk th n v q =
      (let env = terminal_envelope E t r
       in (Parked Execute st' [] env, parked_thread Execute st' env, q'))"
proof -
  have nt: "\<not> is_timeout v" using assms(5)
    by (auto simp: is_timeout_def is_task_failed_def kind_is_def)
  have "th_resumes th = [] \<or> (\<exists>x. th_resumes th = [x] \<and> is_timeout x)"
    using assms(3) by (auto simp: rs_ok_def)
  then show ?thesis
  proof (elim disjE exE conjE)
    assume "th_resumes th = []"
    then show ?thesis using assms nt
      by (auto simp: invoke_resume_def drive_nodes body_of_def await_classify_def await_draft_def
          await_agent_task_def point_ok_def route_after_classify_def route_after_draft_def
          execute_parks persist_simps parked_thread_def Let_def)
  next
    fix x assume "th_resumes th = [x]" "is_timeout x"
    then show ?thesis using assms nt
      by (auto simp: invoke_resume_def drive_nodes body_of_def await_classify_def await_draft_def
          await_agent_task_def point_ok_def route_after_classify_def route_after_draft_def
          execute_parks persist_simps parked_thread_def Let_def split: prod.splits)
  qed
qed

lemma timeout_escalates:
  assumes "point_ok t Await_approval st" and "th_resumes th = []" and "th_values th = st"
    and "is_timeout v"
  shows "\<exists>st' r q'. s_status st' = Some ESCALATED \<and> r_ticket_id r = id' t \<and>
    r_status r = ESCALATED \<and> r_reply_text r = ESCALATION_REPLY \<and>
    invoke_resume G E ua clk th Await_approval v q =
      (let env = terminal_envelope E t r
       in (Parked Execute st' [] env, parked_thread Execute st' env, q'))"
proof -
  obtain d c wk where "s_ticket st = Some t" "s_draft st = Some d" "s_classification st = Some c"
    "s_wakeup_at st = Some wk" using assms(1) by (auto simp: point_ok_def drafted_def)
  then show ?thesis using assms
    by (auto simp: invoke_resume_def drive_nodes body_of_def await_approval_def is_timeout_def
        execute_parks persist_simps parked_thread_def Let_def)
qed

end

section \<open>What the nodes leave in the queue\<close>

definition keys :: "task_table \<Rightarrow> string set" where
  "keys q = idempotency_key ` set (t_rows q)"

lemma keys_put_task [simp]: "keys (put_task now qn ty wid pl k q) = insert k (keys q)"
  by (auto simp: keys_def put_task_def enqueue_def list_ex_iff image_iff)

lemma put_task_again: "k \<in> keys q \<Longrightarrow> t_rows (put_task now qn ty wid pl k q) = t_rows q"
  by (auto simp: keys_def put_task_def enqueue_def list_ex_iff)

lemma keys_cancel [simp]: "keys (snd (cancel_pending k reason q)) = keys q"
proof -
  have "map idempotency_key (update_where P
      (\<lambda>r. r\<lparr> t_status := Failed, t_error := Some reason, permanent := True \<rparr>) (t_rows q)) =
    map idempotency_key (t_rows q)" for P
    by (rule map_update_where) simp
  then show ?thesis unfolding keys_def cancel_pending_def Let_def
    by (metis (no_types, lifting) list.set_map snd_conv task_table.select_convs(1)
        task_table.surjective task_table.update_convs(1))
qed

lemma keys_cancelD: "cancel_pending k reason q = (b, q1) \<Longrightarrow> keys q1 = keys q"
  using keys_cancel [of k reason q] by (simp del: keys_cancel)

lemma no_match_after_update:
  "(\<And>r. P r \<Longrightarrow> \<not> P (f r)) \<Longrightarrow> \<not> list_ex P (update_where P f rows)"
  by (induction rows) auto

lemma cancelled_not_pending:
  "\<not> fst (cancel_pending k reason (snd (cancel_pending k reason q)))"
  by (simp add: cancel_pending_def Let_def no_match_after_update)

lemma cancel_nothing:
  "\<not> fst (cancel_pending k reason q) \<Longrightarrow> t_rows (snd (cancel_pending k reason q)) = t_rows q"
  by (auto simp: cancel_pending_def Let_def list_ex_iff intro!: update_where_none)

lemma pending_put_other:
  "k' \<noteq> k \<Longrightarrow> fst (cancel_pending k reason (put_task now qn ty wid pl k' q)) =
     fst (cancel_pending k reason q)"
  by (simp add: cancel_pending_def Let_def put_task_def enqueue_def)

lemma redispatch_again:
  assumes "redispatch_agent_task E ua now k ty wid pl q = (b, q1)"
  shows "t_rows (snd (redispatch_agent_task E ua now' k ty wid pl q1)) = t_rows q1"
proof -
  define r where "r = ''redispatched to fallback''"
  have "\<not> fst (cancel_pending k r q1)"
  proof (cases "fst (cancel_pending k r q)")
    case True
    then have "q1 = put_task now (FALLBACK_TASK_QUEUE E) ty wid pl (k @ '':fallback'')
        (snd (cancel_pending k r q))"
      using assms by (simp add: redispatch_eq r_def Let_def split: prod.splits)
    then show ?thesis by (simp add: pending_put_other cancelled_not_pending)
  next
    case False
    then have "q1 = snd (cancel_pending k r q)"
      using assms by (simp add: redispatch_eq r_def Let_def split: prod.splits)
    then show ?thesis by (simp add: cancelled_not_pending)
  qed
  then show ?thesis using cancel_nothing [of k r q1]
    by (auto simp: redispatch_eq r_def Let_def split: prod.splits)
qed

lemma await_agent_again:
  assumes "await_agent_task E ua now ty wid pl wk rs q = (a, q1)"
  shows "t_rows (snd (await_agent_task E ua now' ty wid pl wk rs q1)) = t_rows q1"
  using assms redispatch_again [of E ua now "task_key wid ty" ty wid pl q]
  by (auto simp: await_agent_task_def Let_def split: list.splits if_splits prod.splits)
    (metis snd_conv)+

text \<open>
  The keys a node needs: a wait for an agent needs the primary task's row, which the node
  before it has stored.
\<close>

fun needs_key :: "ticket \<Rightarrow> node \<Rightarrow> string set" where
  "needs_key t Await_classify = {task_key (id' t) ''classify''}"
| "needs_key t Await_draft = {task_key (id' t) ''draft''}"
| "needs_key t _ = {}"

definition backed :: "task_table \<Rightarrow> json \<Rightarrow> bool" where
  "backed q env = (\<forall>k. jget env ''idempotency_key'' = Some (JStr k) \<longrightarrow> k \<in> keys q)"

definition queue_step_ok :: "ticket \<Rightarrow> node \<Rightarrow> outcome \<Rightarrow> task_table \<Rightarrow> bool" where
  "queue_step_ok t n out q' =
     (case out of
        Return st' \<Rightarrow> (case next_node n st' of None \<Rightarrow> True | Some m \<Rightarrow> needs_key t m \<subseteq> keys q')
      | Interrupt env \<Rightarrow> backed q' env
      | Raise e \<Rightarrow> True)"

lemma await_agent_keys:
  assumes "await_agent_task E ua now ty wid pl wk rs q = (a, q')" and "task_key wid ty \<in> keys q"
  shows "keys q \<subseteq> keys q' \<and> (\<forall>env. a = Suspended env \<longrightarrow> backed q' env)"
  using assms
  by (auto simp: await_agent_task_def redispatch_eq Let_def backed_def await_envelope_def
      dest: keys_cancelD split: list.splits if_splits prod.splits)

lemma node_queue_step:
  fixes st :: ticket_state
  assumes "s_ticket st = Some t" and "needs_key t n \<subseteq> keys q"
    and "body_of E ua clk n st rs q = (out, q')"
  shows "queue_step_ok t n out q'"
proof (cases n)
  case Await_classify
  then show ?thesis using assms
    by (auto simp: queue_step_ok_def body_of_def await_classify_def route_after_classify_def
        dest!: await_agent_keys split: option.splits prod.splits awaited.splits if_splits sum.splits)
next
  case Await_draft
  then show ?thesis using assms
    by (auto simp: queue_step_ok_def body_of_def await_draft_def route_after_draft_def
        dest!: await_agent_keys split: option.splits prod.splits awaited.splits if_splits sum.splits)
next
  case Execute
  then show ?thesis using assms
    by (auto simp: queue_step_ok_def body_of_def execute_def backed_def Let_def
        split: option.splits list.splits sum.splits if_splits)
qed (use assms in \<open>auto simp: queue_step_ok_def body_of_def dispatch_classify_def
       dispatch_draft_def decide_approval_def prepare_approval_def await_approval_def
       backed_def route_after_decide_def split: option.splits list.splits sum.splits if_splits\<close>)

lemma node_keeps_ticket:
  fixes st :: ticket_state
  shows "body_of E ua clk n st rs q = (Return st', q') \<Longrightarrow> s_ticket st = Some t \<Longrightarrow> s_ticket st' = Some t"
  by (cases n) (auto simp: body_of_def dispatch_classify_def await_classify_def
      dispatch_draft_def await_draft_def decide_approval_def prepare_approval_def
      await_approval_def execute_def Let_def
      split: option.splits list.splits sum.splits if_splits prod.splits awaited.splits)

context langgraph
begin

lemma drive_backed:
  fixes st :: ticket_state
  assumes "s_ticket st = Some t" and "needs_key t n \<subseteq> keys q"
    and "drive G (body_of E ua clk) n st rs q = (Parked n' st' rs' env, q')"
  shows "backed q' env"
proof -
  have "case drive G (body_of E ua clk) n st rs q of
      (Parked n' st' rs' env, q') \<Rightarrow> backed q' env
    | (Finished st', q') \<Rightarrow> True
    | (Crashed e n' st', q') \<Rightarrow> True"
  proof (rule drive_inv [where I = "\<lambda>n st rs q. s_ticket st = Some t \<and> needs_key t n \<subseteq> keys q"
        and P = "\<lambda>n st rs env q. backed q env" and F = "\<lambda>st q. True" and C = "\<lambda>e n st q. True"])
    fix n and st :: ticket_state and rs q
    assume pre: "s_ticket st = Some t \<and> needs_key t n \<subseteq> keys q"
    then show "case body_of E ua clk n st rs q of
        (Return st', q') \<Rightarrow> (case next_node n st' of None \<Rightarrow> True
          | Some m \<Rightarrow> s_ticket st' = Some t \<and> needs_key t m \<subseteq> keys q')
      | (Interrupt env, q') \<Rightarrow> backed q' env
      | (Raise e, q') \<Rightarrow> True"
      using node_queue_step [of st t n q E ua clk rs] node_keeps_ticket [of E ua clk n st rs q]
      by (auto simp: queue_step_ok_def split: prod.splits outcome.splits option.splits)
  qed (use assms in simp)
  then show ?thesis using assms(3) by simp
qed

end

lemma await_agent_replay:
  "t_rows (snd (await_agent_task E ua now' ty wid pl wk rs
     (snd (await_agent_task E ua now ty wid pl wk rs q)))) =
   t_rows (snd (await_agent_task E ua now ty wid pl wk rs q))"
  using await_agent_again [of E ua now ty wid pl wk rs q] by (cases "await_agent_task E ua now ty wid pl wk rs q") simp

lemma await_classify_queue:
  "snd (await_classify E ua now st rs q) =
     (case s_ticket st of None \<Rightarrow> q
      | Some t \<Rightarrow> snd (await_agent_task E ua now ''classify'' (id' t) (classify_payload t)
          (s_wakeup_at st) rs q))"
  by (auto simp: await_classify_def split: option.splits prod.splits awaited.splits sum.splits)

lemma await_draft_queue:
  "snd (await_draft E ua now st rs q) =
     (case (s_ticket st, s_classification st) of
        (Some t, Some c) \<Rightarrow> snd (await_agent_task E ua now ''draft'' (id' t) (draft_payload t c)
          (s_wakeup_at st) rs q)
      | _ \<Rightarrow> q)"
  by (auto simp: await_draft_def split: option.splits prod.splits awaited.splits sum.splits)

lemma node_replay:
  "t_rows (snd (run_node E ua clk2 n st rs (snd (run_node E ua clk1 n st rs q)))) =
   t_rows (snd (run_node E ua clk1 n st rs q))"
  by (cases n)
    (auto simp: await_classify_queue await_draft_queue await_agent_replay
       dispatch_classify_def dispatch_draft_def execute_def Let_def put_task_again
       split: option.splits list.splits sum.splits)

section \<open>A concrete ticket\<close>

definition demo_ticket :: ticket where
  "demo_ticket = \<lparr> id' = ''t1'', customer_email = ''a@b.c'', subject = ''Charged twice'',
     body = ''Please refund me'' \<rparr>"

definition demo_class :: classification where
  "demo_class = \<lparr> category = BILLING, c_confidence = 9 / 10, c_model = ''primary'' \<rparr>"

definition demo_refund :: draft_reply where
  "demo_refund = \<lparr> reply_text = ''Refunded.'', action = \<lparr> a_type = REFUND, refund_amount = Some 25 \<rparr>,
     d_confidence = 9 / 10, d_model = ''primary'' \<rparr>"

definition demo_yes :: approval_decision where
  "demo_yes = \<lparr> approved = True, approver = ''ann'', d_note = None \<rparr>"

definition decision_envelope :: "approval_decision \<Rightarrow> json" where
  "decision_envelope dec = JObj [(''kind'', JStr ''decision''), (''decision'', decision_dump dec)]"

definition failed_envelope :: "string \<Rightarrow> bool \<Rightarrow> json" where
  "failed_envelope err perm = JObj
     [(''kind'', JStr ''task_failed''), (''error'', JStr err), (''permanent'', JBool perm)]"

definition timeout_envelope :: json where
  "timeout_envelope = JObj [(''kind'', JStr ''timeout'')]"

lemma envelope_kinds [simp]:
  "is_task_failed (failed_envelope err perm)" "\<not> is_timeout (failed_envelope err perm)"
  "is_timeout timeout_envelope" "\<not> is_task_failed timeout_envelope"
  by (simp_all add: is_task_failed_def is_timeout_def kind_is_def failed_envelope_def
      timeout_envelope_def)

lemma demo_valid [simp]:
  "valid_classification demo_class" "valid_draft demo_refund" "needs_human demo_refund"
  "good_coercion default_env"
  using good_default_env
  by (simp_all add: demo_class_def demo_refund_def valid_classification_def valid_draft_def
      valid_action_def valid_confidence_def needs_human_def)

definition demo_clock :: "node \<Rightarrow> timestamp" where
  "demo_clock n = 0"

text \<open>Threads of the concrete ticket: waiting for its classification, its draft, its decision,
  and its refund.\<close>

definition demo_classifying :: thread where
  "demo_classifying = parked_thread Await_classify (classifying default_env demo_clock demo_ticket)
     (agent_envelope default_env (id' demo_ticket) ''classify''
        (s_wakeup_at (classifying default_env demo_clock demo_ticket)))"

definition demo_drafting :: thread where
  "demo_drafting = parked_thread Await_draft (drafting default_env demo_clock demo_ticket demo_class)
     (agent_envelope default_env (id' demo_ticket) ''draft''
        (s_wakeup_at (drafting default_env demo_clock demo_ticket demo_class)))"

definition demo_gated :: thread where
  "demo_gated = parked_thread Await_approval (gated demo_clock demo_ticket demo_class demo_refund)
     (approval_envelope default_env demo_ticket demo_refund
        (demo_clock Prepare_approval + APPROVAL_TIMEOUT))"

definition demo_approved_state :: ticket_state where
  "demo_approved_state = (gated demo_clock demo_ticket demo_class demo_refund)
     \<lparr> s_decision := Some demo_yes, s_status := Some AWAITING_APPROVAL \<rparr>"

definition demo_approved :: thread where
  "demo_approved = parked_thread Execute demo_approved_state
     (terminal_envelope default_env demo_ticket
        (expected_result demo_ticket demo_class demo_refund (Some AWAITING_APPROVAL)))"

lemma demo_history_classifying: "history ref_engine default_env demo_ticket demo_classifying"
  using ref_graph.start_ticket [of default_env True demo_clock demo_ticket empty_queue]
  by (auto simp: Let_def demo_classifying_def intro: history_new)

lemma demo_history_drafting: "history ref_engine default_env demo_ticket demo_drafting"
proof -
  have "invoke_resume ref_engine default_env True demo_clock demo_classifying Await_classify
      (classification_dump demo_class) empty_queue = (r, th, q) \<Longrightarrow> th = demo_drafting" for r th q
    using ref_graph.resume_classified [of default_env demo_class
        "classifying default_env demo_clock demo_ticket" demo_ticket demo_clock True demo_clock]
    by (simp add: Let_def demo_classifying_def demo_drafting_def classifying_def initial_state_def)
  then show ?thesis
    using history_resume [OF demo_history_classifying, of Await_classify True demo_clock
        "classification_dump demo_class" empty_queue]
    by (metis demo_classifying_def parked_thread_def prod_cases3 thread.select_convs(2))
qed

lemma demo_history_gated: "history ref_engine default_env demo_ticket demo_gated"
proof -
  have "invoke_resume ref_engine default_env True demo_clock demo_drafting Await_draft
      (draft_dump demo_refund) empty_queue = (r, th, q) \<Longrightarrow> th = demo_gated" for r th q
    using ref_graph.resume_drafted_gate [of default_env demo_refund True demo_clock demo_clock
        demo_ticket demo_class]
    by (simp add: Let_def demo_drafting_def demo_gated_def)
  then show ?thesis
    using history_resume [OF demo_history_drafting, of Await_draft True demo_clock
        "draft_dump demo_refund" empty_queue]
    by (metis demo_drafting_def parked_thread_def prod_cases3 thread.select_convs(2))
qed

lemma demo_history_approved: "history ref_engine default_env demo_ticket demo_approved"
proof -
  have "invoke_resume ref_engine default_env True demo_clock demo_gated Await_approval
      (decision_envelope demo_yes) empty_queue = (r, th, q) \<Longrightarrow> th = demo_approved" for r th q
    using ref_graph.resume_gate [of default_env "decision_envelope demo_yes" demo_yes
        demo_approved_state demo_clock demo_ticket demo_class demo_refund True demo_clock]
    by (simp add: Let_def demo_gated_def demo_approved_def demo_approved_state_def
        decision_envelope_def demo_yes_def)
  then show ?thesis
    using history_resume [OF demo_history_gated, of Await_approval True demo_clock
        "decision_envelope demo_yes" empty_queue]
    by (metis demo_gated_def parked_thread_def prod_cases3 thread.select_convs(2))
qed

section \<open>Properties of the workflow\<close>

text \<open>
  C6: the approval gate: whatever is resumed, in whatever order and on whatever queue, a ticket
  whose draft needs a human (a refund, or low confidence) stands at \<^verbatim>\<open>execute\<close> with the
  outcome \<^verbatim>\<open>resolved\<close> only after a human approved it.
\<close>

theorem approval_gate:
  assumes "langgraph G" and "history G E t th" and "th_next th = Some Execute"
    and "s_draft (th_values th) = Some d" and "needs_human d"
    and "fst (terminal_outcome (s_status (th_values th)) d) = RESOLVED"
  shows "\<exists>dec. s_decision (th_values th) = Some dec \<and> approved dec"
proof -
  note history_ok = langgraph.history_ok [OF assms(1)]
  have "gate_ok (th_values th)"
    using history_ok [OF assms(2)] assms(3) by (simp add: thread_ok_def point_ok_def)
  then show ?thesis
    using assms(4-6) by (auto simp: gate_ok_def terminal_outcome_def split: if_splits)
qed

theorem approval_gate_witness:
  "\<exists>dec. s_decision (th_values demo_approved) = Some dec \<and> approved dec"
  by (rule approval_gate [OF ref_graph.langgraph_axioms demo_history_approved, of demo_refund])
     (simp_all add: demo_approved_def demo_approved_state_def parked_thread_def gated_def
       decided_def terminal_outcome_def)

text \<open>Whatever the draft and the decision, the ticket comes to \<^verbatim>\<open>execute\<close> with its outcome.\<close>

lemma drafted_to_execute:
  assumes "langgraph G" and "good_coercion E" and "valid_draft d"
    and "invoke_resume G E ua clk (parked_thread Await_draft (drafting E clk t c) env) Await_draft
      (draft_dump d) q3 = (p3, th3, x3)"
    and "refused = (needs_human d \<and> \<not> approved dec)"
    and "r4 = \<lparr> r_ticket_id = id' t, r_status = (if refused then REJECTED else RESOLVED),
      r_reply_text = (if refused then REJECTION_REPLY else reply_text d),
      refund_executed = False, model_path = c_model c @ ''/'' @ d_model d \<rparr>"
  obtains st p4 x4 where "s_ticket st = Some t" and "s_draft st = Some d"
    and "s_classification st = Some c"
    and "(if needs_human d then invoke_resume G E ua clk th3 Await_approval (decision_envelope dec) q4
        else (p3, th3, q3)) = (p4, parked_thread Execute st (terminal_envelope E t r4), x4)"
proof (cases "needs_human d")
  case True
  define st where "st = (gated clk t c d)\<lparr> s_decision := Some dec,
      s_status := Some (if approved dec then AWAITING_APPROVAL else REJECTED) \<rparr>"
  have th3: "th3 = parked_thread Await_approval (gated clk t c d)
      (approval_envelope E t d (clk Prepare_approval + APPROVAL_TIMEOUT))"
    using assms(4) langgraph.resume_drafted_gate [OF assms(1-3) True, of ua clk clk t c env q3]
    by (simp add: Let_def)
  have "expected_result t c d (s_status st) = r4"
    using True by (simp add: st_def assms(5,6) expected_result_def terminal_outcome_def)
  then show ?thesis
    using that [of st] True th3
      langgraph.resume_gate [OF assms(1,2) decision_envelope_def st_def, of ua clk _ q4]
    by (simp add: Let_def) (simp add: st_def gated_def decided_def initial_state_def)
next
  case False
  have "expected_result t c d (Some DRAFTING) = r4"
    using False by (simp add: assms(5,6) expected_result_def terminal_outcome_def)
  then show ?thesis
    using that [of "decided t c d"] assms(4) False
      langgraph.resume_drafted_auto [OF assms(1-3) False, of ua clk clk t c env q3]
    by (simp add: Let_def decided_def initial_state_def)
qed

text \<open>
  C8: the outcome of a ticket: with valid agent results, a draft that needs no human, or one a
  human approves, is resolved with the draft's text, a refused one is rejected with the
  rejection text; the finalize task asks for exactly that, and the workflow ends in what the
  finalize task reports for its ticket.
\<close>

theorem ticket_resolution:
  assumes "langgraph G" and "good_coercion E" and "valid_classification c" and "valid_draft d"
    and "r_ticket_id r = id' t"
  shows "let (p1, th1, _) = invoke_new G E ua clk (initial_state t) q1;
             (p2, th2, _) = invoke_resume G E ua clk th1 Await_classify (classification_dump c) q2;
             (p3, th3, _) = invoke_resume G E ua clk th2 Await_draft (draft_dump d) q3;
             (p4, th4, _) = (if needs_human d
                then invoke_resume G E ua clk th3 Await_approval (decision_envelope dec) q4
                else (p3, th3, q3));
             (p5, th5, _) = invoke_resume G E ua clk th4 Execute (result_dump r) q5;
             refused = (needs_human d \<and> \<not> approved dec)
         in th_next th4 = Some Execute \<and>
            th_interrupt th4 = Some (terminal_envelope E t
              \<lparr> r_ticket_id = id' t, r_status = (if refused then REJECTED else RESOLVED),
                r_reply_text = (if refused then REJECTION_REPLY else reply_text d),
                refund_executed = False, model_path = c_model c @ ''/'' @ d_model d \<rparr>) \<and>
            (\<exists>st. p5 = Finished st \<and> s_result st = Some r \<and> s_status st = Some (r_status r))"
proof -
  note start_ticket = langgraph.start_ticket [OF assms(1)]
    and resume_classified = langgraph.resume_classified [OF assms(1)]
    and resume_finished = langgraph.resume_finished [OF assms(1)]
  obtain p1 e1 x1 where 1: "invoke_new G E ua clk (initial_state t) q1 =
      (p1, parked_thread Await_classify (classifying E clk t) e1, x1)"
    using start_ticket [of E ua clk t q1] by (simp add: Let_def)
  obtain p2 e2 x2 where 2: "invoke_resume G E ua clk
      (parked_thread Await_classify (classifying E clk t) e1) Await_classify
      (classification_dump c) q2 = (p2, parked_thread Await_draft (drafting E clk t c) e2, x2)"
    using resume_classified [OF assms(2,3) _ refl, of clk t ua clk e1 q2]
    by (simp add: Let_def classifying_def initial_state_def)
  define refused where "refused = (needs_human d \<and> \<not> approved dec)"
  define r4 where "r4 = \<lparr> r_ticket_id = id' t, r_status = (if refused then REJECTED else RESOLVED),
    r_reply_text = (if refused then REJECTION_REPLY else reply_text d),
    refund_executed = False, model_path = c_model c @ ''/'' @ d_model d \<rparr>"
  obtain p3 th3 x3 where 3: "invoke_resume G E ua clk
      (parked_thread Await_draft (drafting E clk t c) e2) Await_draft (draft_dump d) q3 =
      (p3, th3, x3)" by (rule prod_cases3)
  obtain st p4 x4 where st: "s_ticket st = Some t" "s_draft st = Some d" "s_classification st = Some c"
    and 4: "(if needs_human d
        then invoke_resume G E ua clk th3 Await_approval (decision_envelope dec) q4
        else (p3, th3, q3)) = (p4, parked_thread Execute st (terminal_envelope E t r4), x4)"
    by (rule drafted_to_execute [OF assms(1,2,4) 3 refused_def r4_def])
  obtain st' x5 y5 where 5: "invoke_resume G E ua clk
      (parked_thread Execute st (terminal_envelope E t r4)) Execute (result_dump r) q5 =
      (Finished st', x5, y5)" and st': "s_result st' = Some r" "s_status st' = Some (r_status r)"
    using resume_finished [OF st assms(5,2), of ua clk _ q5] by (fastforce simp: Let_def)
  show ?thesis
    unfolding Let_def 1 2 3 4 5 prod.case refused_def [symmetric] r4_def [symmetric]
    using st' by (simp add: parked_thread_def)
qed

definition demo_result :: ticket_result where
  "demo_result = \<lparr> r_ticket_id = ''t1'', r_status = RESOLVED, r_reply_text = ''Refunded.'',
     refund_executed = True, model_path = ''primary/primary'' \<rparr>"

theorem ticket_resolution_witness:
  "let (p1, th1, _) = invoke_new ref_engine default_env True demo_clock (initial_state demo_ticket) empty_queue;
       (p2, th2, _) = invoke_resume ref_engine default_env True demo_clock th1 Await_classify
          (classification_dump demo_class) empty_queue;
       (p3, th3, _) = invoke_resume ref_engine default_env True demo_clock th2 Await_draft
          (draft_dump demo_refund) empty_queue;
       (p4, th4, _) = invoke_resume ref_engine default_env True demo_clock th3 Await_approval
          (decision_envelope demo_yes) empty_queue;
       (p5, th5, _) = invoke_resume ref_engine default_env True demo_clock th4 Execute
          (result_dump demo_result) empty_queue
   in \<exists>st. p5 = Finished st \<and> s_result st = Some demo_result \<and> s_status st = Some RESOLVED"
  using ticket_resolution [OF ref_graph.langgraph_axioms demo_valid(4,1,2),
      of demo_result demo_ticket True demo_clock empty_queue empty_queue empty_queue demo_yes
        empty_queue empty_queue]
  by (simp add: demo_result_def demo_ticket_def Let_def split: prod.splits)

text \<open>
  C13: failures escalate: a ticket waiting for an agent whose task has failed for good, or for an
  approval that timed out, goes on to \<^verbatim>\<open>execute\<close> as escalated, with the escalation text, and
  waits for its finalize task.
\<close>

theorem failures_escalate:
  assumes "langgraph G" and "history G E t th" and "th_next th = Some n"
    and "(n \<in> {Await_classify, Await_draft} \<and> is_task_failed v) \<or>
         (n = Await_approval \<and> is_timeout v)"
  shows "\<exists>st env r. fst (invoke_resume G E ua clk th n v q) = Parked Execute st [] env \<and>
    s_status st = Some ESCALATED \<and> env = terminal_envelope E t r \<and>
    r_ticket_id r = id' t \<and> r_status r = ESCALATED \<and> r_reply_text r = ESCALATION_REPLY"
proof -
  note history_ok = langgraph.history_ok [OF assms(1)]
    and failed_escalates = langgraph.failed_escalates [OF assms(1)]
    and timeout_escalates = langgraph.timeout_escalates [OF assms(1)]
  have ok: "rs_ok n (th_resumes th)" "point_ok t n (th_values th)"
    using history_ok [OF assms(2)] assms(3) by (simp_all add: thread_ok_def)
  from assms(4) show ?thesis
  proof (elim disjE conjE)
    assume "n \<in> {Await_classify, Await_draft}" "is_task_failed v"
    from failed_escalates [OF ok(2) this(1) ok(1) refl this(2), of E ua clk q]
    show ?thesis by (auto simp: Let_def)
  next
    assume n: "n = Await_approval" and v: "is_timeout v"
    have "th_resumes th = []" using ok n by (simp add: rs_ok_def)
    from timeout_escalates [OF ok(2) [unfolded n] this refl v, of E ua clk q] n
    show ?thesis by (auto simp: Let_def)
  qed
qed

theorem failures_escalate_witness:
  "\<exists>st env r. fst (invoke_resume ref_engine default_env True demo_clock demo_drafting Await_draft
      (failed_envelope ''boom'' True) empty_queue) = Parked Execute st [] env \<and>
    s_status st = Some ESCALATED \<and> env = terminal_envelope default_env demo_ticket r \<and>
    r_ticket_id r = id' demo_ticket \<and> r_status r = ESCALATED \<and> r_reply_text r = ESCALATION_REPLY"
  by (rule failures_escalate [OF ref_graph.langgraph_axioms demo_history_drafting])
     (simp_all add: demo_drafting_def parked_thread_def)



text \<open>
  C20: replays are harmless: LangGraph runs a node again from its start after every resume and
  after every crash, at any later time; the queue's rows are then what the first run left.
\<close>

theorem node_replay_idempotent:
  "t_rows (snd (run_node E ua clk2 n st rs (snd (run_node E ua clk1 n st rs q)))) =
   t_rows (snd (run_node E ua clk1 n st rs q))"
  by (rule node_replay)

text \<open>
  \<^verbatim>\<open>execute\<close> has no branch for the runner's control envelopes: a value that is no result
  makes it raise, and leaves the ticket's thread as it was.
\<close>

context langgraph
begin

lemma execute_rejects:
  assumes "history G E tk th" and "th_next th = Some Execute" and "result_validate E v = Inl e"
  shows "\<exists>d c. invoke_resume G E ua clk th Execute v q =
    (Crashed e Execute (th_values th), th,
     put_finalize E (clk Execute) tk c d (s_status (th_values th)) q)"
proof -
  have ok: "th_resumes th = []" "point_ok tk Execute (th_values th)"
    using history_ok [OF assms(1)] assms(2) by (simp_all add: thread_ok_def rs_ok_def)
  then obtain d c where "s_ticket (th_values th) = Some tk" "s_draft (th_values th) = Some d"
    "s_classification (th_values th) = Some c" by (auto simp: point_ok_def drafted_def)
  then show ?thesis using ok(1) assms(2,3)
    by (auto simp: invoke_resume_def drive_nodes body_of_def execute_def Let_def
        persist_crashed_same put_finalize_def)
qed

lemma approved_resumes:
  assumes "point_ok tk Await_approval (th_values th)" and "th_resumes th = []"
    and "good_coercion E" and "approved dec"
  shows "\<exists>st' r q'. s_status st' = Some AWAITING_APPROVAL \<and>
    invoke_resume G E ua clk th Await_approval (decision_envelope dec) q =
      (let env = terminal_envelope E tk r
       in (Parked Execute st' [] env, parked_thread Execute st' env, q'))"
proof -
  obtain d c wk where "s_ticket (th_values th) = Some tk" "s_draft (th_values th) = Some d"
    "s_classification (th_values th) = Some c" "s_wakeup_at (th_values th) = Some wk"
    "s_status (th_values th) = Some AWAITING_APPROVAL"
    using assms(1) by (auto simp: point_ok_def drafted_def)
  then show ?thesis using assms(2-4)
    by (auto simp: invoke_resume_def drive_nodes body_of_def await_approval_def
        decision_envelope_def kind_is_def execute_parks persist_simps parked_thread_def Let_def)
qed

end

section \<open>The graph's assertions\<close>

text \<open>What a node may raise: its resume value is no model of the expected kind.\<close>

definition bad_value :: "exn \<Rightarrow> bool" where
  "bad_value e = (\<exists>m. e = ValidationError m \<or> e = ValueError m)"

lemma field_bad: "field cv j k = Inl e \<Longrightarrow> bad_value e" "field_default d cv j k = Inl e \<Longrightarrow> bad_value e"
  "require b k x = Inl e \<Longrightarrow> bad_value e"
  by (auto simp: field_def field_default_def require_def bad_value_def split: option.splits if_splits)

lemma validate_bad:
  "classification_validate K j = Inl e \<Longrightarrow> bad_value e" "action_validate K j = Inl e \<Longrightarrow> bad_value e"
  "draft_validate K j = Inl e \<Longrightarrow> bad_value e" "decision_validate K j = Inl e \<Longrightarrow> bad_value e"
  "result_validate K j = Inl e \<Longrightarrow> bad_value e"
proof -
  show act: "action_validate K j = Inl e \<Longrightarrow> bad_value e" for j
    by (auto simp: action_validate_def bindr_Inl_iff bad_value_def [of "ValidationError _"]
        dest: field_bad split: if_splits)
  show "draft_validate K j = Inl e \<Longrightarrow> bad_value e"
    by (auto simp: draft_validate_def bindr_Inl_iff bad_value_def [of "ValidationError _"]
        dest: field_bad act split: option.splits)
qed (auto simp: classification_validate_def decision_validate_def result_validate_def bindr_Inl_iff
       dest: field_bad)

lemma node_raises:
  assumes "point_ok t n st" and "fst (body_of E ua clk n st rs q) = Raise e"
  shows "rs \<noteq> [] \<and> bad_value e"
proof (cases n)
  case Await_classify
  then show ?thesis using assms
    by (auto simp: body_of_def await_classify_def point_ok_def await_agent_task_def Let_def
        dest: validate_bad split: option.splits sum.splits prod.splits awaited.splits list.splits if_splits)
next
  case Await_draft
  then show ?thesis using assms
    by (auto simp: body_of_def await_draft_def point_ok_def await_agent_task_def Let_def
        dest: validate_bad split: option.splits sum.splits prod.splits awaited.splits list.splits if_splits)
next
  case Await_approval
  then show ?thesis using assms
    by (auto simp: body_of_def await_approval_def point_ok_def drafted_def bad_value_def [of "ValueError _"]
        dest: validate_bad split: list.splits sum.splits if_splits)
next
  case Execute
  then show ?thesis using assms
    by (auto simp: body_of_def execute_def point_ok_def drafted_def bad_value_def [of "ValueError _"] Let_def
        dest: validate_bad split: list.splits sum.splits if_splits)
qed (use assms in \<open>auto simp: body_of_def dispatch_classify_def dispatch_draft_def decide_approval_def
       prepare_approval_def point_ok_def drafted_def split: prod.splits\<close>)

context langgraph
begin

lemma drive_crash:
  assumes "point_ok t n st" and "drive G (body_of E ua clk) n st rs q = (Crashed e m st', q')"
  shows "m = n \<and> st' = st \<and> rs \<noteq> [] \<and> bad_value e"
proof -
  have "case drive G (body_of E ua clk) n st rs q of
      (Parked n' st' rs' env, q') \<Rightarrow> True
    | (Finished st', q') \<Rightarrow> True
    | (Crashed e n' st', q') \<Rightarrow> n' = n \<and> st' = st \<and> rs \<noteq> [] \<and> bad_value e"
  proof (rule drive_inv [where I = "\<lambda>m st1 rs1 q. point_ok t m st1 \<and>
            (rs1 = [] \<or> m = n \<and> st1 = st \<and> rs1 = rs)"
        and P = "\<lambda>n st rs env q. True" and F = "\<lambda>st q. True"
        and C = "\<lambda>e m st1 q. m = n \<and> st1 = st \<and> rs \<noteq> [] \<and> bad_value e"])
    fix m st1 rs1 q1
    assume pre: "point_ok t m st1 \<and> (rs1 = [] \<or> m = n \<and> st1 = st \<and> rs1 = rs)"
    from pre node_step [of t m st1, where rs = rs1 and E = E and ua = ua and clk = clk and q = q1]
      node_raises [of t m st1 E ua clk rs1 q1]
    show "case body_of E ua clk m st1 rs1 q1 of
        (Return st', q') \<Rightarrow>
          (case next_node m st' of None \<Rightarrow> True
           | Some m' \<Rightarrow> point_ok t m' st' \<and> ([] = [] \<or> m' = n \<and> st' = st \<and> [] = rs))
      | (Interrupt env, q') \<Rightarrow> True
      | (Raise e, q') \<Rightarrow> m = n \<and> st1 = st \<and> rs \<noteq> [] \<and> bad_value e"
      by (auto simp: step_ok_def split: prod.splits outcome.splits option.splits)
  qed (use assms(1) in simp)
  then show ?thesis using assms(2) by simp
qed

end

text \<open>
  C18: the graph's assertions hold: in whatever state earlier invocations have left a ticket, the
  next one never fails an assertion of a node; it can only reject the resume value it was given,
  at the node that waited for it, and then the thread is as before and can be resumed again. The
  first invocation of a ticket cannot fail at all.
\<close>

theorem graph_assertions_hold:
  assumes "langgraph G" and "history G E t th" and "th_next th = Some n"
    and "invoke_resume G E ua clk th n v q = (res, th', q')"
    and "invoke_new G E ua clk (initial_state t) q0 = (res0, th0, q0')"
  shows "(\<forall>e m st. res = Crashed e m st \<longrightarrow> m = n \<and> st = th_values th \<and> th' = th \<and>
      (\<exists>s. e = ValidationError s \<or> e = ValueError s)) \<and>
    (\<forall>e m st. res0 \<noteq> Crashed e m st)"
proof -
  have ok: "point_ok t n (th_values th)" "point_ok t start_node (initial_state t)"
    using langgraph.history_ok [OF assms(1,2)] assms(3)
    by (simp_all add: thread_ok_def point_ok_def start_node_def initial_state_def)
  show ?thesis
    using langgraph.drive_crash [OF assms(1) ok(1), of E ua clk "th_resumes th @ [v]" q]
      langgraph.drive_crash [OF assms(1) ok(2), of E ua clk "[]" q0]
      langgraph.persist_crashed_same [OF assms(1)] assms(3-5)
    by (auto simp: invoke_resume_def invoke_new_def bad_value_def split: prod.splits)
qed

theorem graph_assertions_hold_witness:
  "\<exists>s th' q'. invoke_resume ref_engine default_env True demo_clock demo_gated Await_approval JNull
      empty_queue = (Crashed (ValueError s) Await_approval (th_values demo_gated), demo_gated, q')"
proof -
  obtain res th' q' where inv: "invoke_resume ref_engine default_env True demo_clock demo_gated
      Await_approval JNull empty_queue = (res, th', q')" by (rule prod_cases3)
  obtain res0 th0 q0' where new: "invoke_new ref_engine default_env True demo_clock
      (initial_state demo_ticket) empty_queue = (res0, th0, q0')" by (rule prod_cases3)
  have "\<exists>e m st. res = Crashed e m st \<and> (\<exists>s. e = ValueError s)"
    using inv by (auto simp: invoke_resume_def ref_graph.drive_nodes body_of_def await_approval_def
        demo_gated_def parked_thread_def gated_def decided_def initial_state_def split: prod.splits)
  moreover have "th_next demo_gated = Some Await_approval"
    by (simp add: demo_gated_def parked_thread_def)
  ultimately show ?thesis
    using graph_assertions_hold [OF ref_graph.langgraph_axioms demo_history_gated _ inv new] inv by auto
qed

end
