(* ===== verification/WorkflowRuns.thy ===== *)
theory WorkflowRuns
  imports Interfaces Models
begin

text \<open>
  The workflow runs of \<^verbatim>\<open>src/ticketflow/db.py\<close>: tables \<^verbatim>\<open>workflow_run\<close>,
  \<^verbatim>\<open>workflow_run_archive\<close> and \<^verbatim>\<open>pending_signal\<close> (migrations 003 to 008) and the
  functions that read and write them. Each function is one transaction; \<^verbatim>\<open>now\<close> is its
  \<^verbatim>\<open>now()\<close>.
\<close>

section \<open>State\<close>

record workflow_run =
  ticket_id :: string
  run_status :: ticket_status
  wakeup_at :: "timestamp option"
  lease_owner :: "string option"
  lease_expires_at :: "timestamp option"
  created_at :: timestamp
  updated_at :: timestamp

record archived_run =
  archived :: workflow_run
  archived_at :: timestamp

record pending_signal =
  sig_id :: int
  sig_workflow_id :: string
  sig_kind :: string
  sig_payload :: json
  consumed :: bool
  sig_created_at :: timestamp
  consumed_at :: "timestamp option"

record run_store =
  runs :: "workflow_run list"
  archive :: "archived_run list"
  signals :: "pending_signal list"
  sig_seq :: int

definition empty_runs :: run_store where
  "empty_runs = \<lparr> runs = [], archive = [], signals = [], sig_seq = 1 \<rparr>"

definition run_by_id :: "string \<Rightarrow> run_store \<Rightarrow> workflow_run option" where
  "run_by_id t s = find_by ticket_id t (runs s)"

section \<open>Operations\<close>

definition claimable :: "timestamp \<Rightarrow> workflow_run \<Rightarrow> bool" where
  "claimable now r =
     ((\<not> terminal (run_status r) \<or>
        (case wakeup_at r of None \<Rightarrow> False | Some w \<Rightarrow> w \<le> now)) \<and>
      (case lease_expires_at r of None \<Rightarrow> True | Some e \<Rightarrow> e < now) \<and>
      (case wakeup_at r of None \<Rightarrow> True | Some w \<Rightarrow> w \<le> now))"

definition claim_row :: "timestamp \<Rightarrow> string \<Rightarrow> workflow_run \<Rightarrow> workflow_run" where
  "claim_row now w r =
     r\<lparr> lease_owner := Some w, lease_expires_at := Some (now + seconds 30), updated_at := now \<rparr>"

definition claim_run ::
  "timestamp \<Rightarrow> string set \<Rightarrow> string \<Rightarrow> run_store \<Rightarrow> workflow_run option \<times> run_store" where
  "claim_run now locked w s =
     (case first_by created_at
             (filter (\<lambda>r. claimable now r \<and> ticket_id r \<notin> locked) (runs s)) of
        None \<Rightarrow> (None, s)
      | Some r \<Rightarrow> (Some (claim_row now w r),
           s\<lparr> runs := update_where (\<lambda>x. ticket_id x = ticket_id r) (claim_row now w) (runs s) \<rparr>))"

definition run_lease_expired :: "timestamp \<Rightarrow> workflow_run \<Rightarrow> bool" where
  "run_lease_expired now r =
     (case lease_expires_at r of None \<Rightarrow> False | Some e \<Rightarrow> e < now)"

definition reclaim_expired_runs :: "timestamp \<Rightarrow> run_store \<Rightarrow> nat \<times> run_store" where
  "reclaim_expired_runs now s =
     (length (filter (run_lease_expired now) (runs s)),
      s\<lparr> runs := update_where (run_lease_expired now)
           (\<lambda>r. r\<lparr> lease_owner := None, lease_expires_at := None, updated_at := now \<rparr>)
           (runs s) \<rparr>)"

text \<open>
  \<^verbatim>\<open>archive_terminal_runs\<close>: the insert into the archive has no \<^verbatim>\<open>ON CONFLICT\<close>, so a
  ticket id that is already archived violates the primary key and the whole statement, the
  delete included, is undone.
\<close>

definition archive_terminal_runs ::
  "timestamp \<Rightarrow> int \<Rightarrow> run_store \<Rightarrow> (exn + string list) \<times> run_store" where
  "archive_terminal_runs now max_age s =
     (let P = (\<lambda>r. terminal (run_status r) \<and> updated_at r < now - max_age);
          moved = filter P (runs s)
      in if list_ex (\<lambda>r. ticket_id r \<in> (ticket_id \<circ> archived) ` set (archive s)) moved
         then (Inl (UniqueViolation ''workflow_run_archive_pkey''), s)
         else (Inr (map ticket_id moved),
               s\<lparr> runs := filter (\<lambda>r. \<not> P r) (runs s),
                  archive := archive s @
                    map (\<lambda>r. \<lparr> archived = r, archived_at = now \<rparr>) moved \<rparr>))"

definition prune_consumed_signals :: "timestamp \<Rightarrow> int \<Rightarrow> run_store \<Rightarrow> nat \<times> run_store" where
  "prune_consumed_signals now max_age s =
     (let P = (\<lambda>g. consumed g \<and>
                 (case consumed_at g of None \<Rightarrow> False | Some t \<Rightarrow> t < now - max_age))
      in (length (filter P (signals s)), s\<lparr> signals := filter (\<lambda>g. \<not> P g) (signals s) \<rparr>))"

definition save_run ::
  "timestamp \<Rightarrow> string \<Rightarrow> ticket_status \<Rightarrow> timestamp option \<Rightarrow> int option
     \<Rightarrow> run_store \<Rightarrow> run_store" where
  "save_run now t st wk consumed_signal_id s =
     (let s1 = s\<lparr> runs := update_where (\<lambda>r. ticket_id r = t)
            (\<lambda>r. r\<lparr> run_status := st, wakeup_at := wk, lease_owner := None,
                   lease_expires_at := None, updated_at := now \<rparr>) (runs s) \<rparr>
      in case consumed_signal_id of
           None \<Rightarrow> s1
         | Some i \<Rightarrow> s1\<lparr> signals := update_where (\<lambda>g. sig_id g = i)
              (\<lambda>g. g\<lparr> consumed := True, consumed_at := Some now \<rparr>) (signals s1) \<rparr>)"

definition create_run ::
  "timestamp \<Rightarrow> string \<Rightarrow> ticket_status \<Rightarrow> timestamp option \<Rightarrow> run_store \<Rightarrow> run_store" where
  "create_run now t st wk s =
     (if list_ex (\<lambda>r. ticket_id r = t) (runs s) then s
      else s\<lparr> runs := runs s @
             [\<lparr> ticket_id = t, run_status = st, wakeup_at = wk, lease_owner = None,
                lease_expires_at = None, created_at = now, updated_at = now \<rparr>] \<rparr>)"

text \<open>\<^verbatim>\<open>acreate_run\<close>: the same insert on an async connection.\<close>

definition acreate_run ::
  "timestamp \<Rightarrow> string \<Rightarrow> ticket_status \<Rightarrow> timestamp option \<Rightarrow> run_store \<Rightarrow> run_store" where
  "acreate_run now t st wk s =
     (if list_ex (\<lambda>r. ticket_id r = t) (runs s) then s
      else s\<lparr> runs := runs s @
             [\<lparr> ticket_id = t, run_status = st, wakeup_at = wk, lease_owner = None,
                lease_expires_at = None, created_at = now, updated_at = now \<rparr>] \<rparr>)"

definition wake_row :: "timestamp \<Rightarrow> workflow_run \<Rightarrow> workflow_run" where
  "wake_row now r = r\<lparr> wakeup_at := Some now, updated_at := now \<rparr>"

definition wake_run :: "timestamp \<Rightarrow> string \<Rightarrow> run_store \<Rightarrow> run_store" where
  "wake_run now t s =
     s\<lparr> runs := update_where (\<lambda>r. ticket_id r = t) (wake_row now) (runs s) \<rparr>"

definition list_runs_by_status :: "ticket_status \<Rightarrow> run_store \<Rightarrow> string list" where
  "list_runs_by_status st s =
     map ticket_id (sort_key (\<lambda>r. (created_at r, ticket_id r))
       (filter (\<lambda>r. run_status r = st) (runs s)))"

text \<open>The thread ids of the checkpointer's table are given: that table is LangGraph's.\<close>

definition list_orphaned_checkpoint_threads :: "string list \<Rightarrow> run_store \<Rightarrow> string list" where
  "list_orphaned_checkpoint_threads thread_ids s =
     remdups (filter (\<lambda>t. \<not> list_ex (\<lambda>r. ticket_id r = t) (runs s)) thread_ids)"

text \<open>
  \<^verbatim>\<open>add_pending_signal_if_waiting\<close>: insert, unless an unconsumed signal of the kind is
  there (the partial unique index), and wake the run, in one statement. The serial id is used up
  by a conflicting insert too.
\<close>

definition unconsumed_signal :: "string \<Rightarrow> string \<Rightarrow> run_store \<Rightarrow> bool" where
  "unconsumed_signal t kind s =
     list_ex (\<lambda>g. sig_workflow_id g = t \<and> sig_kind g = kind \<and> \<not> consumed g) (signals s)"

definition add_pending_signal_if_waiting ::
  "timestamp \<Rightarrow> string \<Rightarrow> string \<Rightarrow> json \<Rightarrow> ticket_status \<Rightarrow> run_store \<Rightarrow> int option \<times> run_store" where
  "add_pending_signal_if_waiting now t kind pl waiting_status s =
     (if \<not> list_ex (\<lambda>r. ticket_id r = t \<and> run_status r = waiting_status) (runs s)
      then (None, s)
      else if unconsumed_signal t kind s
      then (None, s\<lparr> sig_seq := sig_seq s + 1 \<rparr>)
      else (Some (sig_seq s),
            s\<lparr> signals := signals s @
                 [\<lparr> sig_id = sig_seq s, sig_workflow_id = t, sig_kind = kind, sig_payload = pl,
                    consumed = False, sig_created_at = now, consumed_at = None \<rparr>],
               sig_seq := sig_seq s + 1,
               runs := update_where (\<lambda>r. ticket_id r = t) (wake_row now) (runs s) \<rparr>))"

section \<open>Well-formed stores\<close>

definition wf_run :: "workflow_run \<Rightarrow> bool" where
  "wf_run r = (lease_owner r = None \<longleftrightarrow> lease_expires_at r = None)"

definition wf_runs :: "run_store \<Rightarrow> bool" where
  "wf_runs s =
     (distinct (map ticket_id (runs s)) \<and> (\<forall>r \<in> set (runs s). wf_run r) \<and>
      distinct (map (ticket_id \<circ> archived) (archive s)) \<and>
      (\<forall>a \<in> set (archive s). terminal (run_status (archived a))) \<and>
      distinct (map sig_id (signals s)) \<and> (\<forall>g \<in> set (signals s). sig_id g < sig_seq s) \<and>
      distinct (map (\<lambda>g. (sig_workflow_id g, sig_kind g)) (filter (\<lambda>g. \<not> consumed g) (signals s))) \<and>
      (\<forall>g \<in> set (signals s). consumed g \<longleftrightarrow> consumed_at g \<noteq> None))"

datatype run_op =
    ClaimRun timestamp "string set" string
  | ReclaimRuns timestamp
  | Archive timestamp int
  | PruneSignals timestamp int
  | SaveRun timestamp string ticket_status "timestamp option" "int option"
  | CreateRun timestamp string ticket_status "timestamp option"
  | WakeRun timestamp string
  | AddSignal timestamp string string json ticket_status

fun run_apply :: "run_op \<Rightarrow> run_store \<Rightarrow> run_store" where
  "run_apply (ClaimRun now locked w) s = snd (claim_run now locked w s)"
| "run_apply (ReclaimRuns now) s = snd (reclaim_expired_runs now s)"
| "run_apply (Archive now age) s = snd (archive_terminal_runs now age s)"
| "run_apply (PruneSignals now age) s = snd (prune_consumed_signals now age s)"
| "run_apply (SaveRun now t st wk c) s = save_run now t st wk c s"
| "run_apply (CreateRun now t st wk) s = create_run now t st wk s"
| "run_apply (WakeRun now t) s = wake_run now t s"
| "run_apply (AddSignal now t kind pl st) s =
     snd (add_pending_signal_if_waiting now t kind pl st s)"

section \<open>Preservation lemmas\<close>

lemma wf_runs_empty: "wf_runs empty_runs"
  by (simp add: wf_runs_def empty_runs_def)

lemma wf_runs_update:
  assumes "wf_runs s" and "\<And>r. wf_run r \<Longrightarrow> wf_run (f r)" and "\<And>r. ticket_id (f r) = ticket_id r"
  shows "wf_runs (s\<lparr> runs := update_where P f (runs s) \<rparr>)"
  using assms by (auto simp: wf_runs_def map_update_where set_update_where)

lemma claim_row_simps [simp]:
  "ticket_id (claim_row now w r) = ticket_id r"
  "run_status (claim_row now w r) = run_status r"
  "wakeup_at (claim_row now w r) = wakeup_at r"
  "lease_owner (claim_row now w r) = Some w"
  "lease_expires_at (claim_row now w r) = Some (now + seconds 30)"
  "created_at (claim_row now w r) = created_at r"
  by (simp_all add: claim_row_def)

lemma wake_row_simps [simp]:
  "ticket_id (wake_row now r) = ticket_id r"
  "run_status (wake_row now r) = run_status r"
  "wakeup_at (wake_row now r) = Some now"
  "lease_owner (wake_row now r) = lease_owner r"
  "lease_expires_at (wake_row now r) = lease_expires_at r"
  "created_at (wake_row now r) = created_at r"
  by (simp_all add: wake_row_def)

lemma claim_run_cases:
  obtains (none) "claim_run now locked w s = (None, s)"
      "\<forall>r \<in> set (runs s). claimable now r \<longrightarrow> ticket_id r \<in> locked"
  | (some) r where "r \<in> set (runs s)" "claimable now r" "ticket_id r \<notin> locked"
      "\<forall>r' \<in> set (runs s). claimable now r' \<and> ticket_id r' \<notin> locked \<longrightarrow> created_at r \<le> created_at r'"
      "claim_run now locked w s = (Some (claim_row now w r),
         s\<lparr> runs := update_where (\<lambda>x. ticket_id x = ticket_id r) (claim_row now w) (runs s) \<rparr>)"
proof (cases "first_by created_at (filter (\<lambda>r. claimable now r \<and> ticket_id r \<notin> locked) (runs s))")
  case None
  then show thesis by (intro none) (auto simp: claim_run_def filter_empty_conv)
next
  case (Some r)
  from first_by_Some [OF Some] Some show thesis by (intro some [of r]) (auto simp: claim_run_def)
qed

lemma wf_claim_run: "wf_runs s \<Longrightarrow> wf_runs (snd (claim_run now locked w s))"
  by (cases rule: claim_run_cases [of now locked w s])
     (auto simp: wf_run_def intro!: wf_runs_update)

lemma wf_reclaim_runs: "wf_runs s \<Longrightarrow> wf_runs (snd (reclaim_expired_runs now s))"
  unfolding reclaim_expired_runs_def snd_conv
  by (rule wf_runs_update) (auto simp: wf_run_def)

lemma wf_archive: "wf_runs s \<Longrightarrow> wf_runs (snd (archive_terminal_runs now age s))"
  by (auto simp: wf_runs_def archive_terminal_runs_def Let_def list_ex_iff distinct_map_filter
      comp_def image_iff) metis

lemma wf_prune_signals: "wf_runs s \<Longrightarrow> wf_runs (snd (prune_consumed_signals now age s))"
  by (auto simp: wf_runs_def prune_consumed_signals_def Let_def distinct_map_filter
      filter_filter conj_commute cong: conj_cong)

text \<open>Consuming a signal only shrinks the unconsumed ones.\<close>

lemma unconsumed_consume:
  "filter (\<lambda>g. \<not> consumed g)
     (update_where P (\<lambda>g. g\<lparr> consumed := True, consumed_at := Some now \<rparr>) gs) =
   filter (\<lambda>g. \<not> P g) (filter (\<lambda>g. \<not> consumed g) gs)"
  by (induction gs) auto

lemma wf_consume:
  assumes "wf_runs s"
  shows "wf_runs (s\<lparr> signals := update_where P
           (\<lambda>g. g\<lparr> consumed := True, consumed_at := Some now \<rparr>) (signals s) \<rparr>)"
proof -
  have "map sig_id (update_where P (\<lambda>g. g\<lparr> consumed := True, consumed_at := Some now \<rparr>)
      (signals s)) = map sig_id (signals s)"
    by (rule map_update_where) simp
  with assms show ?thesis
    by (auto simp: wf_runs_def unconsumed_consume distinct_map_filter set_update_where
        simp del: filter_filter)
qed

lemma wf_save_run:
  assumes "wf_runs s"
  shows "wf_runs (save_run now t st wk c s)"
proof -
  let ?s = "s\<lparr> runs := update_where (\<lambda>r. ticket_id r = t)
      (\<lambda>r. r\<lparr> run_status := st, wakeup_at := wk, lease_owner := None,
             lease_expires_at := None, updated_at := now \<rparr>) (runs s) \<rparr>"
  have "wf_runs ?s" by (rule wf_runs_update [OF assms]) (simp_all add: wf_run_def)
  from this wf_consume [OF this] show ?thesis
    by (cases c) (simp_all add: save_run_def Let_def)
qed

lemma wf_create_run: "wf_runs s \<Longrightarrow> wf_runs (create_run now t st wk s)"
  by (auto simp: wf_runs_def create_run_def list_ex_iff wf_run_def)

lemma wf_wake_run: "wf_runs s \<Longrightarrow> wf_runs (wake_run now t s)"
  unfolding wake_run_def by (rule wf_runs_update) (simp_all add: wf_run_def)

lemma wf_insert_signal:
  assumes "wf_runs s" and "\<not> unconsumed_signal t kind s"
  shows "wf_runs (s\<lparr> signals := signals s @
     [\<lparr> sig_id = sig_seq s, sig_workflow_id = t, sig_kind = kind, sig_payload = pl,
        consumed = False, sig_created_at = now, consumed_at = None \<rparr>],
     sig_seq := sig_seq s + 1 \<rparr>)"
  using assms by (fastforce simp: wf_runs_def unconsumed_signal_def list_ex_iff)

lemma wf_skip_signal: "wf_runs s \<Longrightarrow> wf_runs (s\<lparr> sig_seq := sig_seq s + 1 \<rparr>)"
  by (fastforce simp: wf_runs_def)

lemma wf_add_signal: "wf_runs s \<Longrightarrow> wf_runs (snd (add_pending_signal_if_waiting now t kind pl st s))"
proof -
  assume wfs: "wf_runs s"
  let ?g = "\<lparr> sig_id = sig_seq s, sig_workflow_id = t, sig_kind = kind, sig_payload = pl,
    consumed = False, sig_created_at = now, consumed_at = None \<rparr>"
  show ?thesis
  proof (cases "unconsumed_signal t kind s")
    case True
    then show ?thesis using wfs by (simp add: add_pending_signal_if_waiting_def wf_skip_signal)
  next
    case False
    let ?s = "s\<lparr> signals := signals s @ [?g], sig_seq := sig_seq s + 1 \<rparr>"
    have "wf_runs (?s\<lparr> runs := update_where (\<lambda>r. ticket_id r = t) (wake_row now) (runs ?s) \<rparr>)"
      by (rule wf_runs_update [OF wf_insert_signal [OF wfs False]]) (simp_all add: wf_run_def)
    then show ?thesis using wfs False by (simp add: add_pending_signal_if_waiting_def)
  qed
qed

lemma wf_run_apply: "wf_runs s \<Longrightarrow> wf_runs (run_apply op s)"
  by (cases op) (simp_all add: wf_claim_run wf_reclaim_runs wf_archive wf_prune_signals
      wf_save_run wf_create_run wf_wake_run wf_add_signal)

lemma wf_run_fold: "wf_runs s \<Longrightarrow> wf_runs (fold run_apply ops s)"
  by (induction ops arbitrary: s) (simp_all add: wf_run_apply)

lemma acreate_run_eq [simp]: "acreate_run = create_run"
  by (intro ext) (simp add: acreate_run_def create_run_def)

section \<open>The contracts the runs provide\<close>

lemma run_by_id_Some: "run_by_id t s = Some r \<Longrightarrow> r \<in> set (runs s) \<and> ticket_id r = t"
  unfolding run_by_id_def by (rule find_by_Some)

lemma run_by_id_empty [simp]: "run_by_id t empty_runs = None"
  by (simp add: run_by_id_def empty_runs_def)

lemma run_by_id_row: "wf_runs s \<Longrightarrow> r \<in> set (runs s) \<Longrightarrow> run_by_id (ticket_id r) s = Some r"
  by (simp add: run_by_id_def wf_runs_def find_by_unique)

lemma run_by_id_update:
  "(\<And>r. ticket_id (f r) = ticket_id r) \<Longrightarrow>
   run_by_id t (s\<lparr> runs := update_where P f (runs s) \<rparr>) =
     map_option (\<lambda>r. if P r then f r else r) (run_by_id t s)"
  by (simp add: run_by_id_def find_by_update_where_key)

text \<open>An update of one ticket's row.\<close>

lemma run_by_id_update_one:
  assumes "\<And>r. ticket_id (f r) = ticket_id r"
  shows "run_by_id t (s\<lparr> runs := update_where (\<lambda>r. ticket_id r = t') f (runs s) \<rparr>) =
    (if t = t' then map_option f (run_by_id t s) else run_by_id t s)"
  using assms by (cases "run_by_id t s") (auto simp: run_by_id_update dest: run_by_id_Some)

definition run_lease :: "run_store \<Rightarrow> string \<Rightarrow> (string \<times> timestamp) option" where
  "run_lease s t = Option.bind (run_by_id t s) (\<lambda>r.
     case (lease_owner r, lease_expires_at r) of
       (Some ow, Some e) \<Rightarrow> Some (ow, e) | _ \<Rightarrow> None)"

definition run_claim ::
  "string set \<Rightarrow> timestamp \<Rightarrow> string \<Rightarrow> run_store \<Rightarrow> string option \<times> run_store" where
  "run_claim locked now w s =
     (map_option ticket_id (fst (claim_run now locked w s)), snd (claim_run now locked w s))"

lemma run_lease_reclaim:
  assumes "wf_runs s"
  shows "run_lease (snd (reclaim_expired_runs now s)) t =
    (case run_lease s t of Some (ow, e) \<Rightarrow> if e < now then None else Some (ow, e) | None \<Rightarrow> None)"
proof (cases "run_by_id t s")
  case (Some r)
  then have "wf_run r" using assms by (auto dest: run_by_id_Some simp: wf_runs_def)
  then show ?thesis using Some
    by (cases "lease_owner r"; cases "lease_expires_at r")
       (auto simp: run_lease_def reclaim_expired_runs_def run_by_id_update run_lease_expired_def
        wf_run_def)
qed (simp add: run_lease_def reclaim_expired_runs_def run_by_id_update)

lemma run_claim_some:
  assumes "run_claim locked now w s = (Some t, s')"
  obtains r where "r \<in> set (runs s)" "claimable now r" "t = ticket_id r"
    "s' = s\<lparr> runs := update_where (\<lambda>x. ticket_id x = ticket_id r) (claim_row now w) (runs s) \<rparr>"
  using assms by (cases rule: claim_run_cases [of now locked w s]) (auto simp: run_claim_def)

lemma run_claim_none: "run_claim locked now w s = (None, s') \<Longrightarrow> s' = s"
  by (cases rule: claim_run_cases [of now locked w s]) (auto simp: run_claim_def)

interpretation runs: lease_store "run_claim locked" "\<lambda>now s. snd (reclaim_expired_runs now s)"
  run_lease wf_runs "seconds 30" for locked
proof unfold_locales
  fix s s' now w k ow e
  assume "wf_runs s" and "run_claim locked now w s = (Some k, s')"
    and l: "run_lease s k = Some (ow, e)"
  from this(2) obtain r where "r \<in> set (runs s)" "claimable now r" "k = ticket_id r"
    by (rule run_claim_some)
  then show "e < now" using l run_by_id_row [OF \<open>wf_runs s\<close>]
    by (auto simp: run_lease_def claimable_def split: option.splits)
next
  fix s s' now w k
  assume "wf_runs s" and "run_claim locked now w s = (Some k, s')"
  from this(2) obtain r where r: "r \<in> set (runs s)" "k = ticket_id r"
    "s' = s\<lparr> runs := update_where (\<lambda>x. ticket_id x = ticket_id r) (claim_row now w) (runs s) \<rparr>"
    by (rule run_claim_some)
  show "run_lease s' = (run_lease s)(k \<mapsto> (w, now + seconds 30))"
    using r run_by_id_row [OF \<open>wf_runs s\<close> r(1)]
    by (auto simp: run_lease_def run_by_id_update_one fun_eq_iff)
next
  fix s s' now w
  assume "run_claim locked now w s = (None, s')"
  then show "run_lease s' = run_lease s" using run_claim_none by metis
qed (simp_all add: run_lease_reclaim run_claim_def wf_claim_run wf_reclaim_runs)

lemma run_by_id_create:
  "run_by_id k (create_run now t st wk s) =
    (if k = t \<and> run_by_id k s = None
     then Some \<lparr> ticket_id = t, run_status = st, wakeup_at = wk, lease_owner = None,
       lease_expires_at = None, created_at = now, updated_at = now \<rparr> else run_by_id k s)"
proof -
  have "list_ex (\<lambda>r. ticket_id r = t) (runs s) \<longleftrightarrow> run_by_id t s \<noteq> None"
    by (auto simp: list_ex_iff run_by_id_def find_by_None)
  then show ?thesis
    by (auto simp: create_run_def run_by_id_def find_by_append split: option.splits)
qed

interpretation projection: insert_once
  "\<lambda>(now, t, st, wk) s. create_run now t st wk s" "\<lambda>(now, t, st, wk). t" "\<lambda>s t. run_by_id t s"
  "\<lambda>(now, t, st, wk) s. \<lparr> ticket_id = t, run_status = st, wakeup_at = wk, lease_owner = None,
     lease_expires_at = None, created_at = now, updated_at = now \<rparr>"
  by unfold_locales (auto simp: run_by_id_create split: prod.splits)

section \<open>Properties of the runs\<close>

text \<open>
  C25: the store stays well formed under every operation of \<^verbatim>\<open>db.py\<close> on it: ticket ids are
  unique among runs and among archived runs, a run has a lease owner exactly when it has a lease
  expiry, only terminal runs are archived, signal ids are unique, at most one signal of a kind
  is unconsumed per workflow, and a signal is consumed exactly when it has a consumption time.
\<close>

theorem runs_wf_invariant: "wf_runs (fold run_apply ops empty_runs)"
  by (rule wf_run_fold [OF wf_runs_empty])

text \<open>
  \<^verbatim>\<open>claim_run\<close> leases the oldest claimable run no other transaction holds: its lease
  is free or over, its timer is not armed or due, and if its status is terminal somebody woke
  it. The row it returns is the stored one with a 30 second lease; status and timer are
  untouched, and so is every other run. It returns nothing, and changes nothing, only when no
  run is claimable.
\<close>

theorem claim_run_correct:
  assumes "wf_runs s"
  shows "let ready = (\<lambda>r. ticket_id r \<notin> locked \<and>
           (terminal (run_status r) \<longrightarrow> wakeup_at r \<noteq> None) \<and>
           (\<forall>k. wakeup_at r = Some k \<longrightarrow> k \<le> now) \<and> (\<forall>e. lease_expires_at r = Some e \<longrightarrow> e < now))
    in case claim_run now locked w s of
         (None, s') \<Rightarrow> s' = s \<and> (\<forall>r \<in> set (runs s). \<not> ready r)
       | (Some r', s') \<Rightarrow>
           (\<exists>r. run_by_id (ticket_id r') s = Some r \<and> ready r \<and>
              r' = r\<lparr> lease_owner := Some w, lease_expires_at := Some (now + seconds 30),
                updated_at := now \<rparr> \<and>
              (\<forall>x \<in> set (runs s). ready x \<longrightarrow> created_at r \<le> created_at x)) \<and>
           run_by_id (ticket_id r') s' = Some r' \<and>
           (\<forall>t. t \<noteq> ticket_id r' \<longrightarrow> run_by_id t s' = run_by_id t s)"
proof -
  define ready where "ready = (\<lambda>r :: workflow_run. ticket_id r \<notin> locked \<and>
      (terminal (run_status r) \<longrightarrow> wakeup_at r \<noteq> None) \<and>
      (\<forall>k. wakeup_at r = Some k \<longrightarrow> k \<le> now) \<and> (\<forall>e. lease_expires_at r = Some e \<longrightarrow> e < now))"
  have ready: "ready r \<longleftrightarrow> claimable now r \<and> ticket_id r \<notin> locked" for r
    by (auto simp: ready_def claimable_def split: option.splits)
  have "case claim_run now locked w s of
         (None, s') \<Rightarrow> s' = s \<and> (\<forall>r \<in> set (runs s). \<not> ready r)
       | (Some r', s') \<Rightarrow>
           (\<exists>r. run_by_id (ticket_id r') s = Some r \<and> ready r \<and>
              r' = r\<lparr> lease_owner := Some w, lease_expires_at := Some (now + seconds 30),
                updated_at := now \<rparr> \<and>
              (\<forall>x \<in> set (runs s). ready x \<longrightarrow> created_at r \<le> created_at x)) \<and>
           run_by_id (ticket_id r') s' = Some r' \<and>
           (\<forall>t. t \<noteq> ticket_id r' \<longrightarrow> run_by_id t s' = run_by_id t s)"
  proof (cases rule: claim_run_cases [of now locked w s])
    case none
    then show ?thesis by (auto simp: ready)
  next
    case (some r)
    have row: "run_by_id (ticket_id r) s = Some r" by (rule run_by_id_row [OF assms some(1)])
    with some show ?thesis
      by (simp add: ready run_by_id_update_one) (simp add: claim_row_def)
  qed
  then show ?thesis by (simp only: Let_def ready_def)
qed

definition one_run :: "ticket_status \<Rightarrow> timestamp option \<Rightarrow> run_store" where
  "one_run st wk = create_run 0 ''t1'' st wk empty_runs"

lemma wf_one_run: "wf_runs (one_run st wk)"
  unfolding one_run_def by (rule wf_create_run [OF wf_runs_empty])

theorem claim_run_correct_witness:
  "\<exists>r' s'. claim_run 7 {} ''w'' (one_run REJECTED (Some 5)) = (Some r', s') \<and>
     run_lease s' ''t1'' = Some (''w'', 7 + seconds 30)"
proof -
  obtain r' s' where c: "claim_run 7 {} ''w'' (one_run REJECTED (Some 5)) = (Some r', s')"
    and t: "ticket_id r' = ''t1''"
    by (simp add: one_run_def create_run_def empty_runs_def claim_run_def claimable_def)
  from claim_run_correct [OF wf_one_run [of REJECTED "Some 5"], of "{}" 7 "''w''"] t c show ?thesis
    by (auto simp: Let_def run_lease_def)
qed

text \<open>
  C17: a runner's lease is exclusive while it lives: through any claims and janitor sweeps
  that happen no later than its expiry the runner keeps it, and nobody else is handed the run.
\<close>

theorem run_lease_exclusive:
  assumes "wf_runs s" and "run_lease s t = Some (ow, e)"
    and "\<forall>ev \<in> set evs. event_time ev \<le> e" and "now \<le> e"
  shows "fst (run_claim locked now w (fold (runs.lease_apply locked) evs s)) \<noteq> Some t"
  by (rule runs.live_lease_exclusive [OF assms])

theorem run_lease_exclusive_witness:
  "fst (run_claim {} (seconds 30) ''w2'' (fold (runs.lease_apply {})
     [Reclaim (seconds 10), Claim (seconds 20) ''w3'']
     (snd (claim_run 0 {} ''w1'' (one_run CLASSIFYING None))))) \<noteq> Some ''t1''"
proof -
  let ?s = "snd (claim_run 0 {} ''w1'' (one_run CLASSIFYING None))"
  have wfs: "wf_runs ?s" by (rule wf_claim_run [OF wf_one_run])
  have l: "run_lease ?s ''t1'' = Some (''w1'', seconds 30)"
    by (simp add: one_run_def create_run_def empty_runs_def claim_run_def claimable_def
        run_lease_def run_by_id_def claim_row_def)
  show ?thesis by (rule run_lease_exclusive [OF wfs l]) simp_all
qed

text \<open>
  A woken run is picked up: once \<^verbatim>\<open>wake_run\<close> has run for a ticket, a claim at any
  later time, by any worker, succeeds as long as the run's lease is free or over and no
  transaction holds the row, whatever the status and the timer of the run were.
\<close>

theorem woken_run_claimed:
  assumes "run_by_id t s = Some r" and "now \<le> later" and "t \<notin> locked"
    and "\<forall>e. lease_expires_at r = Some e \<longrightarrow> e < later"
  shows "\<exists>r' s'. claim_run later locked w (wake_run now t s) = (Some r', s')"
proof (cases rule: claim_run_cases [of later locked w "wake_run now t s"])
  case none
  have "run_by_id t (wake_run now t s) = Some (wake_row now r)"
    using assms(1) by (simp add: wake_run_def run_by_id_update_one)
  then have "wake_row now r \<in> set (runs (wake_run now t s))" "ticket_id (wake_row now r) = t"
    by (auto dest: run_by_id_Some)
  moreover have "claimable later (wake_row now r)"
    using assms(2,4) by (auto simp: claimable_def split: option.splits)
  ultimately show ?thesis using none(2) assms(3) by auto
qed blast

theorem woken_run_claimed_witness:
  "\<exists>r' s'. claim_run 9 {} ''w'' (wake_run 8 ''t1'' (one_run ESCALATED (Some (hours 24)))) =
     (Some r', s')"
proof -
  obtain r where "run_by_id ''t1'' (one_run ESCALATED (Some (hours 24))) = Some r"
    "lease_expires_at r = None"
    by (simp add: one_run_def create_run_def empty_runs_def run_by_id_def)
  then show ?thesis by (intro woken_run_claimed) auto
qed

text \<open>
  C19: a decision is accepted only while its workflow's run is in the status the caller waits
  on and no decision of the kind is unconsumed. Accepted, it is stored once, unconsumed, and the
  run is woken in the same transaction; refused, no signal and no run changes.
\<close>

theorem add_signal_correct:
  assumes "wf_runs s"
  shows "let res = add_pending_signal_if_waiting now t kind pl st s in
    (if (\<exists>r. run_by_id t s = Some r \<and> run_status r = st) \<and> \<not> unconsumed_signal t kind s
     then fst res = Some (sig_seq s) \<and> unconsumed_signal t kind (snd res) \<and>
       signals (snd res) = signals s @
         [\<lparr> sig_id = sig_seq s, sig_workflow_id = t, sig_kind = kind, sig_payload = pl,
            consumed = False, sig_created_at = now, consumed_at = None \<rparr>] \<and>
       (\<forall>t'. run_by_id t' (snd res) =
          (if t' = t then map_option (wake_row now) (run_by_id t s) else run_by_id t' s))
     else fst res = None \<and> signals (snd res) = signals s \<and> runs (snd res) = runs s)"
proof -
  have "list_ex (\<lambda>r. ticket_id r = t \<and> run_status r = st) (runs s) \<longleftrightarrow>
      (\<exists>r. run_by_id t s = Some r \<and> run_status r = st)"
    using run_by_id_row [OF assms] by (auto simp: list_ex_iff dest: run_by_id_Some)
  moreover have "run_by_id t' (s\<lparr> signals := gs, sig_seq := n,
      runs := update_where (\<lambda>r. ticket_id r = t) (wake_row now) (runs s) \<rparr>) =
      (if t' = t then map_option (wake_row now) (run_by_id t s) else run_by_id t' s)" for t' gs n
    using run_by_id_update_one [where f = "wake_row now" and t = t' and t' = t and s = s]
    by (simp add: run_by_id_def)
  ultimately show ?thesis
    by (auto simp: add_pending_signal_if_waiting_def unconsumed_signal_def Let_def)
qed

theorem add_signal_correct_witness:
  "let s = one_run AWAITING_APPROVAL (Some (hours 24));
       first = add_pending_signal_if_waiting 5 ''t1'' ''approval_decision'' JNull
         AWAITING_APPROVAL s;
       second = add_pending_signal_if_waiting 6 ''t1'' ''approval_decision'' JNull
         AWAITING_APPROVAL (snd first)
   in fst first = Some 1 \<and> fst second = None"
proof -
  let ?s = "one_run AWAITING_APPROVAL (Some (hours 24))"
  let ?f = "add_pending_signal_if_waiting 5 ''t1'' ''approval_decision'' JNull
      AWAITING_APPROVAL ?s"
  have wf2: "wf_runs (snd ?f)" by (rule wf_add_signal [OF wf_one_run])
  have "fst ?f = Some 1 \<and> unconsumed_signal ''t1'' ''approval_decision'' (snd ?f)"
    using add_signal_correct [OF wf_one_run, where now = 5 and t = "''t1''" and
        kind = "''approval_decision''" and pl = JNull and st = AWAITING_APPROVAL]
    by (simp add: one_run_def create_run_def empty_runs_def run_by_id_def
        unconsumed_signal_def Let_def)
  with add_signal_correct [OF wf2, where now = 6 and t = "''t1''" and
      kind = "''approval_decision''" and pl = JNull and st = AWAITING_APPROVAL]
  show ?thesis by (auto simp: Let_def)
qed

text \<open>
  The API and the janitor may race to create a run: whichever insert comes first, the
  ticket has one row with the status and timer both would write, unleased, and the second
  insert changes nothing at all.
\<close>

theorem create_run_race:
  assumes "run_by_id t s = None"
  shows "let api = create_run n1 t st wk; janitor = create_run n2 t st wk;
      view = (\<lambda>s. map_option (\<lambda>r. (run_status r, wakeup_at r, lease_owner r)) (run_by_id t s))
    in view (janitor (api s)) = Some (st, wk, None) \<and> view (api (janitor s)) = Some (st, wk, None) \<and>
       janitor (api s) = api s \<and> api (janitor s) = janitor s"
proof -
  have "list_ex (\<lambda>r. ticket_id r = t) (runs (create_run n t st wk s))" for n
    by (auto simp: create_run_def list_ex_iff)
  then show ?thesis using assms
    by (simp add: Let_def run_by_id_create) (simp add: create_run_def)
qed

theorem create_run_race_witness:
  "create_run 5 ''t1'' CLASSIFYING (Some 30) (create_run 4 ''t1'' CLASSIFYING (Some 30) empty_runs)
     = create_run 4 ''t1'' CLASSIFYING (Some 30) empty_runs"
proof -
  have "run_by_id ''t1'' empty_runs = None" by (simp add: empty_runs_def run_by_id_def)
  from create_run_race [OF this, of 4 CLASSIFYING "Some 30" 5] show ?thesis
    by (simp add: Let_def)
qed

text \<open>
  The retention sweep moves runs, it loses none: when it succeeds, the archive has gained
  exactly the old terminal runs, in the state they had, the answer names them, and what is left
  are exactly the others; when one of them is already archived it fails and nothing has changed.
\<close>

theorem archive_correct:
  "let old = (\<lambda>r. terminal (run_status r) \<and> updated_at r < now - max_age);
       clash = (\<exists>r \<in> set (runs s). old r \<and> ticket_id r \<in> ticket_id ` archived ` set (archive s));
       res = archive_terminal_runs now max_age s
   in if clash then fst res = Inl (UniqueViolation ''workflow_run_archive_pkey'') \<and> snd res = s
      else fst res = Inr (map ticket_id (filter old (runs s))) \<and>
        runs (snd res) = filter (\<lambda>r. \<not> old r) (runs s) \<and>
        map archived (archive (snd res)) = map archived (archive s) @ filter old (runs s) \<and>
        signals (snd res) = signals s"
proof -
  let ?old = "\<lambda>r. terminal (run_status r) \<and> updated_at r < now - max_age"
  have clash: "list_ex (\<lambda>r. ticket_id r \<in> (ticket_id \<circ> archived) ` set (archive s))
        (filter ?old (runs s)) \<longleftrightarrow>
      (\<exists>r \<in> set (runs s). ?old r \<and> ticket_id r \<in> ticket_id ` archived ` set (archive s))"
    by (auto simp: list_ex_iff image_comp)
  show ?thesis
    unfolding archive_terminal_runs_def Let_def clash by (auto simp: comp_def)
qed

text \<open>
  Saving a run is not tied to the lease's owner: runner \<^verbatim>\<open>w1\<close>'s lease runs out while
  it advances the graph, \<^verbatim>\<open>w2\<close> claims the run, and \<^verbatim>\<open>w1\<close>'s late \<^verbatim>\<open>save_run\<close>
  releases \<^verbatim>\<open>w2\<close>'s lease, so that a third runner can claim the run while \<^verbatim>\<open>w2\<close> is
  still at work on it.
\<close>

theorem stale_save_releases_lease:
  "let s2 = snd (claim_run (seconds 31) {} ''w2''
              (snd (claim_run 0 {} ''w1'' (one_run CLASSIFYING None))));
       s3 = save_run (seconds 32) ''t1'' DRAFTING None None s2
   in run_lease s2 ''t1'' = Some (''w2'', seconds 61) \<and>
      run_lease s3 ''t1'' = None \<and>
      fst (run_claim {} (seconds 33) ''w3'' s3) = Some ''t1''"
  by (simp add: Let_def one_run_def create_run_def empty_runs_def claim_run_def claimable_def
      claim_row_def run_lease_def run_by_id_def save_run_def run_claim_def seconds_def)

text \<open>
  \<^verbatim>\<open>list_runs_by_status\<close> answers exactly the tickets whose run has the status, each
  once, oldest first and by ticket id among equals.
\<close>

theorem list_runs_by_status_correct:
  assumes "wf_runs s"
  shows "set (list_runs_by_status st s) = {t. \<exists>r. run_by_id t s = Some r \<and> run_status r = st} \<and>
    distinct (list_runs_by_status st s) \<and>
    (\<exists>rs :: workflow_run list. list_runs_by_status st s = map ticket_id rs \<and>
      sorted (map (\<lambda>r. (created_at r, ticket_id r)) rs))"
proof -
  let ?rs = "sort_key (\<lambda>r. (created_at r, ticket_id r)) (filter (\<lambda>r. run_status r = st) (runs s))"
  have eq: "list_runs_by_status st s = map ticket_id ?rs"
    by (simp add: list_runs_by_status_def)
  have "set (list_runs_by_status st s) = {t. \<exists>r. run_by_id t s = Some r \<and> run_status r = st}"
    using run_by_id_row [OF assms]
    by (force simp: list_runs_by_status_def dest: run_by_id_Some)
  moreover have "inj_on ticket_id (set (runs s))" and "distinct (runs s)"
    using assms by (simp_all add: wf_runs_def distinct_map)
  then have "distinct (list_runs_by_status st s)"
    by (auto simp: list_runs_by_status_def distinct_map intro: inj_on_subset)
  moreover have "sorted (map (\<lambda>r. (created_at r, ticket_id r)) ?rs)" by simp
  ultimately show ?thesis using eq by blast
qed

theorem list_runs_by_status_correct_witness:
  "set (list_runs_by_status RESOLVED
      (create_run 3 ''t2'' RESOLVED None (one_run DRAFTING None))) = {''t2''}"
proof -
  let ?s = "create_run 3 ''t2'' RESOLVED None (one_run DRAFTING None)"
  have "wf_runs ?s" by (rule wf_create_run [OF wf_one_run])
  from list_runs_by_status_correct [OF this, of RESOLVED] show ?thesis
    by (auto simp: run_by_id_create one_run_def split: if_splits)
qed

end
