(* ===== verification/Runner.thy ===== *)
theory Runner
  imports GraphProps WorkflowRuns
begin

text \<open>
  The workflow runner of \<^verbatim>\<open>src/ticketflow/runner.py\<close>: it leases a run, reads the pending
  interrupt of the ticket's checkpoint, finds the value to resume with, drives the graph and
  saves the run's projection; its janitor reclaims leases and rebuilds missing runs, and its
  retention sweep archives old runs. The state is what the processes share: the task queue, the
  runs with their signals, and LangGraph's checkpoints, one thread per ticket.
\<close>

section \<open>State\<close>

record shared =
  sq :: task_table
  sr :: run_store
  threads :: "(string \<times> thread) list"

definition thread_of :: "string \<Rightarrow> shared \<Rightarrow> thread option" where
  "thread_of t S = map_of (threads S) t"

fun put_thread :: "string \<Rightarrow> thread \<Rightarrow> (string \<times> thread) list \<Rightarrow> (string \<times> thread) list" where
  "put_thread t th [] = [(t, th)]"
| "put_thread t th (p # ps) = (if fst p = t then (t, th) # ps else p # put_thread t th ps)"

definition delete_thread :: "string \<Rightarrow> shared \<Rightarrow> shared" where
  "delete_thread t S = S\<lparr> threads := filter (\<lambda>p. fst p \<noteq> t) (threads S) \<rparr>"

lemma map_of_put_thread [simp]: "map_of (put_thread t th ps) = (map_of ps)(t \<mapsto> th)"
  by (induction ps) (auto simp: fun_eq_iff)

lemma keys_put_thread: "fst ` set (put_thread t th ps) = insert t (fst ` set ps)"
  by (induction ps) auto

lemma distinct_put_thread: "distinct (map fst ps) \<Longrightarrow> distinct (map fst (put_thread t th ps))"
  by (induction ps) (auto simp: keys_put_thread)

section \<open>Finding the value to resume with\<close>

record resume_value =
  rv_payload :: json
  consumed_signal_id :: "int option"

text \<open>
  \<^verbatim>\<open>snapshot.interrupts\<close>: the interrupts of the thread's next task; a finished thread and an
  unknown one have none.
\<close>

definition snapshot_interrupts :: "thread option \<Rightarrow> json list" where
  "snapshot_interrupts th =
     (case th of None \<Rightarrow> []
      | Some th \<Rightarrow> (case (th_next th, th_interrupt th) of (Some n, Some v) \<Rightarrow> [v] | _ \<Rightarrow> []))"

definition pending_envelope :: "thread option \<Rightarrow> json option" where
  "pending_envelope th =
     (case snapshot_interrupts th of
        [] \<Rightarrow> None
      | v # _ \<Rightarrow> if is_jobj v then Some v else None)"

text \<open>Python's truth value of an envelope's member.\<close>

fun truthy :: "json option \<Rightarrow> bool" where
  "truthy None = False"
| "truthy (Some JNull) = False"
| "truthy (Some (JBool b)) = b"
| "truthy (Some (JNum n)) = (n \<noteq> 0)"
| "truthy (Some (JStr s)) = (s \<noteq> [])"
| "truthy (Some (JArr xs)) = (xs \<noteq> [])"
| "truthy (Some (JObj kvs)) = (kvs \<noteq> [])"

definition py_or :: "json option \<Rightarrow> json option \<Rightarrow> json option" where
  "py_or a b = (if truthy a then a else b)"

definition waiting_decision :: "string \<Rightarrow> pending_signal \<Rightarrow> bool" where
  "waiting_decision t g =
     (sig_workflow_id g = t \<and> sig_kind g = APPROVAL_DECISION_SIGNAL \<and> \<not> consumed g)"

definition approval_resume_value :: "run_store \<Rightarrow> json \<Rightarrow> resume_value option" where
  "approval_resume_value rs envelope =
     (if \<not> kind_is ''approval_required'' envelope then None
      else case py_or (jget envelope ''ticket_id'') (jget envelope ''workflow_id'') of
             Some (JStr t) \<Rightarrow>
               map_option (\<lambda>g. \<lparr> rv_payload = JObj [(''kind'', JStr ''decision''),
                     (''decision'', sig_payload g)], consumed_signal_id = Some (sig_id g) \<rparr>)
                 (first_by (\<lambda>g. (sig_created_at g, sig_id g))
                    (filter (waiting_decision t) (signals rs)))
           | _ \<Rightarrow> None)"

definition failed_payload :: "task \<Rightarrow> json" where
  "failed_payload r = JObj [(''kind'', JStr ''task_failed''),
     (''error'', opt_json JStr (t_error r)), (''permanent'', JBool (permanent r))]"

definition task_ready :: "string \<Rightarrow> task \<Rightarrow> bool" where
  "task_ready key r = (idempotency_key r = key \<and> (t_result r \<noteq> None \<or> t_status r = Failed))"

definition resume_value_of :: "task_table \<Rightarrow> run_store \<Rightarrow> json \<Rightarrow> resume_value option" where
  "resume_value_of q rs envelope =
     (case approval_resume_value rs envelope of
        Some rv \<Rightarrow> Some rv
      | None \<Rightarrow>
          (case jget envelope ''idempotency_key'' of
             Some (JStr key) \<Rightarrow>
               (case find (task_ready key) (t_rows q) of
                  None \<Rightarrow> None
                | Some r \<Rightarrow>
                    if t_status r = Failed
                    then Some \<lparr> rv_payload = failed_payload r, consumed_signal_id = None \<rparr>
                    else Some \<lparr> rv_payload = (case t_result r of Some j \<Rightarrow> j | None \<Rightarrow> JNull),
                                consumed_signal_id = None \<rparr>)
           | _ \<Rightarrow> None))"

definition resume_for_run ::
  "task_table \<Rightarrow> run_store \<Rightarrow> json \<Rightarrow> timestamp option \<Rightarrow> resume_value option" where
  "resume_for_run q rs envelope wakeup =
     (case resume_value_of q rs envelope of
        Some rv \<Rightarrow> Some rv
      | None \<Rightarrow>
          (case wakeup of
             Some _ \<Rightarrow> Some \<lparr> rv_payload = timeout_envelope, consumed_signal_id = None \<rparr>
           | None \<Rightarrow> None))"

definition resume_for_run_from_pool ::
  "shared \<Rightarrow> json \<Rightarrow> timestamp option \<Rightarrow> resume_value option" where
  "resume_for_run_from_pool S envelope wakeup = resume_for_run (sq S) (sr S) envelope wakeup"

section \<open>After the graph has moved\<close>

text \<open>
  What \<^verbatim>\<open>ainvoke\<close> returns: the graph's values and, when it parked, the interrupt.
\<close>

definition interrupt_envelope_from_output :: "json option \<Rightarrow> json option" where
  "interrupt_envelope_from_output interrupts =
     (case interrupts of None \<Rightarrow> None | Some v \<Rightarrow> if is_jobj v then Some v else None)"

definition parse_wakeup_at :: "'e env_scheme \<Rightarrow> json option \<Rightarrow> exn + timestamp option" where
  "parse_wakeup_at E v =
     (case v of
        None \<Rightarrow> Inr None
      | Some JNull \<Rightarrow> Inr None
      | Some (JStr s) \<Rightarrow> (case fromisoformat E s of
                           Some t \<Rightarrow> Inr (Some t) | None \<Rightarrow> Inl (ValueError s))
      | Some _ \<Rightarrow> Inl (TypeError ''unexpected wakeup_at value''))"

definition next_wakeup_at ::
  "'e env_scheme \<Rightarrow> ticket_state \<Rightarrow> json option \<Rightarrow> exn + timestamp option" where
  "next_wakeup_at E out interrupts =
     (case interrupt_envelope_from_output interrupts of
        Some envelope \<Rightarrow> parse_wakeup_at E (jget envelope ''wakeup_at'')
      | None \<Rightarrow> Inr (s_wakeup_at out))"

section \<open>One step\<close>

text \<open>
  The last part of \<^verbatim>\<open>step\<close>: the graph is resumed with the value found, LangGraph keeps the
  thread, and the run's projection is saved. A node's exception leaves \<^verbatim>\<open>step\<close> with the
  lease still held.
\<close>

definition save_advanced ::
  "'e env_scheme \<Rightarrow> timestamp \<Rightarrow> string \<Rightarrow> int option \<Rightarrow> ticket_state \<Rightarrow> json option \<Rightarrow> shared
     \<Rightarrow> (exn + bool) \<times> shared" where
  "save_advanced E now2 t consumed_id out interrupts S =
     (case s_status out of
        None \<Rightarrow> (Inl (KeyError ''status''), S)
      | Some status \<Rightarrow>
          (case next_wakeup_at E out interrupts of
             Inl e \<Rightarrow> (Inl e, S)
           | Inr wk \<Rightarrow> (Inr True, S\<lparr> sr := save_run now2 t status wk consumed_id (sr S) \<rparr>)))"

definition advance_run ::
  "engine \<Rightarrow> 'e env_scheme \<Rightarrow> bool \<Rightarrow> (node \<Rightarrow> timestamp) \<Rightarrow> timestamp \<Rightarrow> string \<Rightarrow> thread \<Rightarrow> node
     \<Rightarrow> resume_value \<Rightarrow> shared \<Rightarrow> (exn + bool) \<times> shared" where
  "advance_run G E ua clk now2 t th n rv S =
     (let (res, th', q') = invoke_resume G E ua clk th n (rv_payload rv) (sq S);
          S' = S\<lparr> sq := q', threads := put_thread t th' (threads S) \<rparr>
      in case res of
           Crashed e m st \<Rightarrow> (Inl e, S')
         | Parked m st rs env \<Rightarrow>
             save_advanced E now2 t (consumed_signal_id rv) st (Some env) S'
         | Finished st \<Rightarrow> save_advanced E now2 t (consumed_signal_id rv) st None S')"

definition step ::
  "engine \<Rightarrow> 'e env_scheme \<Rightarrow> bool \<Rightarrow> (node \<Rightarrow> timestamp) \<Rightarrow> timestamp \<Rightarrow> timestamp \<Rightarrow> string set
     \<Rightarrow> string \<Rightarrow> shared \<Rightarrow> (exn + bool) \<times> shared" where
  "step G E ua clk now1 now2 locked worker_id S =
     (case claim_run now1 locked worker_id (sr S) of
        (None, rs) \<Rightarrow> (Inr False, S\<lparr> sr := rs \<rparr>)
      | (Some run, rs) \<Rightarrow>
          (let S1 = S\<lparr> sr := rs \<rparr>;
               snapshot = thread_of (ticket_id run) S1;
               envelope = pending_envelope snapshot;
               resume = (case envelope of None \<Rightarrow> None
                         | Some env \<Rightarrow> resume_for_run_from_pool S1 env (wakeup_at run))
           in case (snapshot, resume) of
                (Some th, Some rv) \<Rightarrow>
                  (case th_next th of
                     Some n \<Rightarrow> advance_run G E ua clk now2 (ticket_id run) th n rv S1
                   | None \<Rightarrow> (Inr False, S1))
              | _ \<Rightarrow> (Inr False, S1\<lparr> sr := save_run now2 (ticket_id run) (run_status run)
                       (wakeup_at run) None (sr S1) \<rparr>)))"

section \<open>Janitor and retention\<close>

text \<open>
  \<^verbatim>\<open>reconcile_orphaned_runs\<close>: the loop over the threads without a run; a thread without
  values is passed over.
\<close>

fun reconcile_loop ::
  "timestamp \<Rightarrow> string list \<Rightarrow> nat \<Rightarrow> shared \<Rightarrow> (exn + nat) \<times> shared" where
  "reconcile_loop now [] n S = (Inr n, S)"
| "reconcile_loop now (t # ts) n S =
     (case thread_of t S of
        None \<Rightarrow> reconcile_loop now ts n S
      | Some th \<Rightarrow>
          (case s_status (th_values th) of
             None \<Rightarrow> (Inl (KeyError ''status''), S)
           | Some status \<Rightarrow>
               reconcile_loop now ts (n + 1)
                 (S\<lparr> sr := create_run now t status (s_wakeup_at (th_values th)) (sr S) \<rparr>)))"

definition reconcile_orphaned_runs :: "timestamp \<Rightarrow> shared \<Rightarrow> (exn + nat) \<times> shared" where
  "reconcile_orphaned_runs now S =
     reconcile_loop now
       (list_orphaned_checkpoint_threads (map fst (threads S)) (sr S)) 0 S"

record janitor_result =
  j_tasks :: nat
  j_runs :: nat

definition reclaim_expired_leases :: "timestamp \<Rightarrow> timestamp \<Rightarrow> shared \<Rightarrow> janitor_result \<times> shared" where
  "reclaim_expired_leases now1 now2 S =
     (let (tasks, q) = reclaim_expired now1 (sq S);
          (rns, rs) = reclaim_expired_runs now2 (sr S)
      in (\<lparr> j_tasks = tasks, j_runs = rns \<rparr>, S\<lparr> sq := q, sr := rs \<rparr>))"

record retention_result =
  rt_runs :: nat
  rt_checkpoint_threads :: nat
  rt_signals :: nat
  rt_tasks :: nat

definition run_retention ::
  "timestamp \<Rightarrow> timestamp \<Rightarrow> timestamp \<Rightarrow> int \<Rightarrow> shared \<Rightarrow> (exn + retention_result) \<times> shared" where
  "run_retention now1 now2 now3 max_age S =
     (case archive_terminal_runs now1 max_age (sr S) of
        (Inl e, rs) \<Rightarrow> (Inl e, S\<lparr> sr := rs \<rparr>)
      | (Inr archived_ids, rs) \<Rightarrow>
          (let S1 = fold delete_thread archived_ids (S\<lparr> sr := rs \<rparr>);
               (sigs, rs2) = prune_consumed_signals now2 max_age (sr S1);
               (tasks, q) = prune_settled now3 max_age (sq S1)
           in (Inr \<lparr> rt_runs = length archived_ids, rt_checkpoint_threads = length archived_ids,
                     rt_signals = sigs, rt_tasks = tasks \<rparr>,
               S1\<lparr> sr := rs2, sq := q \<rparr>)))"

section \<open>The polling loop\<close>

text \<open>
  One pass of \<^verbatim>\<open>run_forever\<close>: the loop's clock \<^verbatim>\<open>tm\<close> decides what is due; the first
  exception ends the loop. The answer is whether the pass advanced a run (if not, the loop
  sleeps \<^verbatim>\<open>poll_interval\<close>).
\<close>

record runner_clock =
  next_janitor_at :: rat
  next_retention_at :: rat

definition clock_start :: runner_clock where
  "clock_start = \<lparr> next_janitor_at = 0, next_retention_at = 0 \<rparr>"

record intervals =
  janitor_interval :: rat
  retention_interval :: rat
  retention_max_age :: int

definition janitor_due :: "rat \<Rightarrow> runner_clock \<Rightarrow> bool" where
  "janitor_due tm c = (next_janitor_at c \<le> tm)"

definition retention_due :: "rat \<Rightarrow> runner_clock \<Rightarrow> bool" where
  "retention_due tm c = (next_retention_at c \<le> tm)"

definition after_pass :: "intervals \<Rightarrow> rat \<Rightarrow> runner_clock \<Rightarrow> runner_clock" where
  "after_pass I tm c =
     \<lparr> next_janitor_at = (if janitor_due tm c then tm + janitor_interval I else next_janitor_at c),
       next_retention_at = (if retention_due tm c then tm + retention_interval I
                            else next_retention_at c) \<rparr>"

definition janitor_pass :: "timestamp \<Rightarrow> shared \<Rightarrow> (exn + unit) \<times> shared" where
  "janitor_pass now S =
     (let (_, S1) = reclaim_expired_leases now now S;
          (out, S2) = reconcile_orphaned_runs now S1
      in (map_sum id (\<lambda>_. ()) out, S2))"

definition runner_pass ::
  "engine \<Rightarrow> 'e env_scheme \<Rightarrow> bool \<Rightarrow> (node \<Rightarrow> timestamp) \<Rightarrow> intervals \<Rightarrow> timestamp \<Rightarrow> string set
     \<Rightarrow> string \<Rightarrow> rat \<Rightarrow> runner_clock \<times> shared \<Rightarrow> (exn + bool) \<times> runner_clock \<times> shared" where
  "runner_pass G E ua clk I now locked w tm = (\<lambda>(c, S).
     (let (r1, S1) = (if janitor_due tm c then janitor_pass now S else (Inr (), S));
          (r2, S2) = (case r1 of
             Inl e \<Rightarrow> (Inl e, S1)
           | Inr _ \<Rightarrow> if retention_due tm c
                      then (let (r, S') = run_retention now now now (retention_max_age I) S1
                            in (map_sum id (\<lambda>_. ()) r, S'))
                      else (Inr (), S1))
      in case r2 of
           Inl e \<Rightarrow> (Inl e, c, S2)
         | Inr _ \<Rightarrow> (let (r3, S3) = step G E ua clk now now locked w S2
                     in (r3, after_pass I tm c, S3))))"

text \<open>The whole loop over a sequence of passes: it ends at the first exception.\<close>

fun run_passes ::
  "engine \<Rightarrow> 'e env_scheme \<Rightarrow> bool \<Rightarrow> intervals \<Rightarrow> string
     \<Rightarrow> ((node \<Rightarrow> timestamp) \<times> timestamp \<times> string set \<times> rat) list \<Rightarrow> runner_clock \<times> shared
     \<Rightarrow> exn option \<times> runner_clock \<times> shared" where
  "run_passes G E ua I w [] cS = (None, cS)"
| "run_passes G E ua I w ((clk, now, locked, tm) # ps) cS =
     (case runner_pass G E ua clk I now locked w tm cS of
        (Inl e, cS') \<Rightarrow> (Some e, cS')
      | (Inr _, cS') \<Rightarrow> run_passes G E ua I w ps cS')"

end
