(* ===== verification/RunnerProps.thy ===== *)
theory RunnerProps
  imports Runner
begin

text \<open>
  What a step of the runner does, for every LangGraph with the documented behaviour: the saved
  projection agrees with the checkpoint, a step without a ready value changes nothing, and what
  the janitor and the retention sweep leave.
\<close>

section \<open>Timers\<close>

text \<open>The timer a parked node has armed: none while it waits for a fallback or for finalizing.\<close>

definition timer :: "node \<Rightarrow> ticket_state \<Rightarrow> json list \<Rightarrow> timestamp option" where
  "timer n st rs =
     (if n = Await_approval \<or> (n \<in> {Await_classify, Await_draft} \<and> rs = [])
      then s_wakeup_at st else None)"

definition good_envelope :: "'e env_scheme \<Rightarrow> node \<Rightarrow> ticket_state \<Rightarrow> json list \<Rightarrow> json \<Rightarrow> bool" where
  "good_envelope E n st rs env =
     (is_jobj env \<and> next_wakeup_at E st (Some env) = Inr (timer n st rs))"

lemma next_wakeup_jobj:
  "is_jobj env \<Longrightarrow> next_wakeup_at E st (Some env) = parse_wakeup_at E (jget env ''wakeup_at'')"
  by (simp add: next_wakeup_at_def interrupt_envelope_from_output_def)

lemma await_agent_envelope:
  assumes "good_env E" and "await_agent_task E ua now ty wid pl (s_wakeup_at st) rs q = (Suspended env, q')"
    and "n \<in> {Await_classify, Await_draft}"
  shows "good_envelope E n st rs env"
  using assms
  by (cases "s_wakeup_at st")
    (auto simp: await_agent_task_def good_envelope_def await_envelope_def next_wakeup_jobj
       parse_wakeup_at_def timer_def Let_def split: list.splits if_splits prod.splits)

lemma node_envelope:
  assumes "good_env E" and "body_of E ua clk n st rs q = (Interrupt env, q')"
  shows "good_envelope E n st rs env"
proof (cases n)
  case Await_classify
  then show ?thesis using assms(2)
    by (auto simp: body_of_def await_classify_def intro: await_agent_envelope [OF assms(1)]
        split: option.splits prod.splits awaited.splits if_splits sum.splits)
next
  case Await_draft
  then show ?thesis using assms(2)
    by (auto simp: body_of_def await_draft_def intro: await_agent_envelope [OF assms(1)]
        split: option.splits prod.splits awaited.splits if_splits sum.splits)
next
  case Await_approval
  then show ?thesis using assms
    by (auto simp: body_of_def await_approval_def good_envelope_def next_wakeup_jobj
        parse_wakeup_at_def timer_def split: option.splits list.splits if_splits sum.splits)
next
  case Execute
  then show ?thesis using assms
    by (auto simp: body_of_def execute_def good_envelope_def next_wakeup_jobj
        parse_wakeup_at_def timer_def Let_def split: option.splits list.splits if_splits sum.splits)
qed (use assms in \<open>auto simp: body_of_def dispatch_classify_def dispatch_draft_def
       decide_approval_def prepare_approval_def split: option.splits\<close>)

text \<open>Every state a node leaves has a status, and a finished ticket's timer is off.\<close>

definition drive_good :: "'e env_scheme \<Rightarrow> drive_result \<Rightarrow> bool" where
  "drive_good E res =
     (case res of
        Parked n st rs env \<Rightarrow> good_envelope E n st rs env \<and> s_status st \<noteq> None
      | Finished st \<Rightarrow> s_wakeup_at st = None \<and> s_status st \<noteq> None
      | Crashed e n st \<Rightarrow> True)"

lemma node_status:
  fixes st :: ticket_state
  assumes "body_of E ua clk n st rs q = (Return st', q')" and "s_status st \<noteq> None"
  shows "s_status st' \<noteq> None \<and> (next_node n st' = None \<longrightarrow> s_wakeup_at st' = None)"
  using assms
  by (cases n) (auto simp: body_of_def dispatch_classify_def await_classify_def
      dispatch_draft_def await_draft_def decide_approval_def prepare_approval_def
      await_approval_def execute_def Let_def
      split: option.splits list.splits sum.splits if_splits prod.splits awaited.splits)

definition has_status :: "thread \<Rightarrow> bool" where
  "has_status th = (s_status (th_values th) \<noteq> None)"

context langgraph
begin

lemma drive_good_result:
  assumes "good_env E" and "s_status st \<noteq> None"
  shows "drive_good E (fst (drive G (body_of E ua clk) n st rs q))"
proof -
  have "case drive G (body_of E ua clk) n st rs q of
      (Parked n' st' rs' env, q') \<Rightarrow> good_envelope E n' st' rs' env \<and> s_status st' \<noteq> None
    | (Finished st', q') \<Rightarrow> s_wakeup_at st' = None \<and> s_status st' \<noteq> None
    | (Crashed e n' st', q') \<Rightarrow> True"
  proof (rule drive_inv [where I = "\<lambda>n st rs q. s_status st \<noteq> None"
        and P = "\<lambda>n st rs env q. good_envelope E n st rs env \<and> s_status st \<noteq> None"
        and F = "\<lambda>st q. s_wakeup_at st = None \<and> s_status st \<noteq> None" and C = "\<lambda>e n st q. True"])
    fix n and st :: ticket_state and rs q
    assume pre: "s_status st \<noteq> None"
    then show "case body_of E ua clk n st rs q of
        (Return st', q') \<Rightarrow> (case next_node n st' of
            None \<Rightarrow> s_wakeup_at st' = None \<and> s_status st' \<noteq> None | Some m \<Rightarrow> s_status st' \<noteq> None)
      | (Interrupt env, q') \<Rightarrow> good_envelope E n st rs env \<and> s_status st \<noteq> None
      | (Raise e, q') \<Rightarrow> True"
      using node_envelope [OF assms(1), of ua clk n st rs q] node_status [of E ua clk n st rs q]
      by (auto split: prod.splits outcome.splits option.splits)
  qed (fact assms(2))
  then show ?thesis by (auto simp: drive_good_def split: prod.splits drive_result.splits)
qed

lemma invoke_resume_good:
  assumes "good_env E" and "has_status th"
    and "invoke_resume G E ua clk th n v q = (res, th', q')"
  shows "drive_good E res"
    and "res = Parked m st rs env \<Longrightarrow>
      th' = \<lparr> th_values = st, th_next = Some m, th_resumes = rs, th_interrupt = Some env \<rparr>"
    and "res = Finished st \<Longrightarrow>
      th' = \<lparr> th_values = st, th_next = None, th_resumes = [], th_interrupt = None \<rparr>"
  using assms drive_good_result [OF assms(1), of "th_values th" ua clk n "th_resumes th @ [v]" q]
  by (auto simp: invoke_resume_def has_status_def persist_simps split: prod.splits)

end

section \<open>The rows a step touches\<close>

lemma claim_row_of:
  assumes "wf_runs s" and "claim_run now locked w s = (Some run, s')"
  shows "run_by_id (ticket_id run) s' = Some run"
    and "\<exists>r. run_by_id (ticket_id run) s = Some r \<and> run = claim_row now w r \<and> claimable now r"
    and "t \<noteq> ticket_id run \<Longrightarrow> run_by_id t s' = run_by_id t s"
    and "signals s' = signals s" and "archive s' = archive s"
proof -
  from assms(2) obtain r where r: "r \<in> set (runs s)" "claimable now r" "run = claim_row now w r"
    and s': "s' = s\<lparr> runs := update_where (\<lambda>x. ticket_id x = ticket_id r) (claim_row now w) (runs s) \<rparr>"
    by (cases rule: claim_run_cases [of now locked w s]) auto
  have "run_by_id (ticket_id r) s = Some r" by (rule run_by_id_row [OF assms(1) r(1)])
  then show "run_by_id (ticket_id run) s' = Some run"
    and "\<exists>r. run_by_id (ticket_id run) s = Some r \<and> run = claim_row now w r \<and> claimable now r"
    and "t \<noteq> ticket_id run \<Longrightarrow> run_by_id t s' = run_by_id t s"
    using r by (auto simp: s' run_by_id_update_one)
  show "signals s' = signals s" "archive s' = archive s" by (simp_all add: s')
qed

definition saved_row ::
  "timestamp \<Rightarrow> ticket_status \<Rightarrow> timestamp option \<Rightarrow> workflow_run \<Rightarrow> workflow_run" where
  "saved_row now st wk r = r\<lparr> run_status := st, wakeup_at := wk, lease_owner := None,
     lease_expires_at := None, updated_at := now \<rparr>"

lemma run_by_id_save:
  "run_by_id k (save_run now t st wk c s) =
    (if k = t then map_option (saved_row now st wk) (run_by_id k s) else run_by_id k s)"
proof -
  have "run_by_id k (s1\<lparr> signals := g \<rparr>) = run_by_id k s1" for s1 g by (simp add: run_by_id_def)
  moreover have "run_by_id k (s\<lparr> runs := update_where (\<lambda>r. ticket_id r = t)
      (\<lambda>r. r\<lparr> run_status := st, wakeup_at := wk, lease_owner := None, lease_expires_at := None,
             updated_at := now \<rparr>) (runs s) \<rparr>) =
    (if k = t then map_option (saved_row now st wk) (run_by_id k s) else run_by_id k s)"
    by (subst run_by_id_update_one) (simp_all add: saved_row_def [abs_def])
  ultimately show ?thesis unfolding save_run_def Let_def by (cases c) (simp_all only: option.case)
qed

lemma saved_row_simps [simp]:
  "ticket_id (saved_row now st wk r) = ticket_id r"
  "run_status (saved_row now st wk r) = st"
  "wakeup_at (saved_row now st wk r) = wk"
  "lease_owner (saved_row now st wk r) = None"
  "lease_expires_at (saved_row now st wk r) = None"
  "created_at (saved_row now st wk r) = created_at r"
  by (simp_all add: saved_row_def)

lemma save_run_None [simp]:
  "signals (save_run now t st wk None s) = signals s"
  "archive (save_run now t st wk c s) = archive s"
  by (auto simp: save_run_def Let_def split: option.splits)

section \<open>Properties of a step\<close>

lemma step_None: "claim_run now1 locked w (sr S) = (None, rs) \<Longrightarrow>
  step G E ua clk now1 now2 locked w S = (Inr False, S\<lparr> sr := rs \<rparr>)"
  by (simp add: step_def)

lemma pending_Some:
  "pending_envelope snap = Some env \<Longrightarrow>
   \<exists>th n. snap = Some th \<and> th_next th = Some n \<and> th_interrupt th = Some env \<and> is_jobj env"
  by (auto simp: pending_envelope_def snapshot_interrupts_def split: option.splits if_splits
      list.splits)

text \<open>A step that claims a run either advances it or gives it back.\<close>

lemma step_claimed:
  assumes "claim_run now1 locked w (sr S) = (Some run, rs)"
  obtains (advance) th n env rv where "thread_of (ticket_id run) S = Some th"
      "th_next th = Some n" "th_interrupt th = Some env"
      "resume_for_run (sq S) rs env (wakeup_at run) = Some rv"
      "step G E ua clk now1 now2 locked w S =
         advance_run G E ua clk now2 (ticket_id run) th n rv (S\<lparr> sr := rs \<rparr>)"
  | (give_back) "pending_envelope (thread_of (ticket_id run) S) = None \<or>
        (\<exists>env. pending_envelope (thread_of (ticket_id run) S) = Some env \<and>
           resume_for_run (sq S) rs env (wakeup_at run) = None)"
      "step G E ua clk now1 now2 locked w S =
         (Inr False, S\<lparr> sr := save_run now2 (ticket_id run) (run_status run) (wakeup_at run) None rs \<rparr>)"
proof (cases "pending_envelope (thread_of (ticket_id run) S)")
  case None
  then have "step G E ua clk now1 now2 locked w S =
      (Inr False, S\<lparr> sr := save_run now2 (ticket_id run) (run_status run) (wakeup_at run) None rs \<rparr>)"
    using assms by (cases "map_of (threads S) (ticket_id run)") (simp_all add: step_def thread_of_def Let_def)
  from give_back [OF _ this] None show thesis by simp
next
  case (Some env)
  from pending_Some [OF this] obtain th n where th: "thread_of (ticket_id run) S = Some th"
    "th_next th = Some n" "th_interrupt th = Some env" by blast
  show thesis
  proof (cases "resume_for_run (sq S) rs env (wakeup_at run)")
    case None
    then have "step G E ua clk now1 now2 locked w S =
      (Inr False, S\<lparr> sr := save_run now2 (ticket_id run) (run_status run) (wakeup_at run) None rs \<rparr>)"
      using assms Some th by (simp add: step_def thread_of_def Let_def resume_for_run_from_pool_def)
    from give_back [OF _ this] None Some show thesis by simp
  next
    case (Some rv)
    then have "step G E ua clk now1 now2 locked w S =
         advance_run G E ua clk now2 (ticket_id run) th n rv (S\<lparr> sr := rs \<rparr>)"
      using assms \<open>pending_envelope _ = _\<close> th
      by (simp add: step_def thread_of_def Let_def resume_for_run_from_pool_def)
    with advance [OF th Some] show thesis .
  qed
qed

text \<open>
  C11: the projection follows the checkpoint: when a step of the runner has advanced a run, the
  run's row has the status of the ticket's checkpoint and the timer its node has armed (none once
  it waits for a fallback, for finalizing or is finished), its lease is free, and no other run
  and no other thread has changed.
\<close>

theorem step_projects:
  assumes "langgraph G" and "good_env E" and "wf_runs (sr S)"
    and "\<forall>t th. thread_of t S = Some th \<longrightarrow> has_status th"
    and "step G E ua clk now1 now2 locked w S = (Inr True, S')"
  shows "\<exists>run th'. fst (claim_run now1 locked w (sr S)) = Some run \<and>
    thread_of (ticket_id run) S' = Some th' \<and>
    (\<exists>r. run_by_id (ticket_id run) (sr S') = Some r \<and> Some (run_status r) = s_status (th_values th') \<and>
       wakeup_at r = (case th_next th' of None \<Rightarrow> None
         | Some n \<Rightarrow> timer n (th_values th') (th_resumes th')) \<and>
       lease_owner r = None \<and> lease_expires_at r = None) \<and>
    (\<forall>t. t \<noteq> ticket_id run \<longrightarrow> run_by_id t (sr S') = run_by_id t (sr S) \<and>
       thread_of t S' = thread_of t S)"
proof -
  note invoke_resume_good = langgraph.invoke_resume_good [OF assms(1)]
  obtain run rs where claim: "claim_run now1 locked w (sr S) = (Some run, rs)"
    using assms(5) by (cases "claim_run now1 locked w (sr S)"; cases "fst (claim_run now1 locked w (sr S))")
      (auto simp: step_None)
  note row = claim_row_of [OF assms(3) claim]
  from claim show ?thesis
  proof (cases rule: step_claimed [where G = G and E = E and ua = ua and clk = clk and ?now2.0 = now2])
    case (advance th n env rv)
    have st: "has_status th" using assms(4) advance(1) by blast
    obtain res th' q' where inv: "invoke_resume G E ua clk th n (rv_payload rv) (sq S) = (res, th', q')"
      by (rule prod_cases3)
    note good = invoke_resume_good [OF assms(2) st inv]
    from advance(5) assms(5) show ?thesis
      using inv good row claim
      by (cases res)
        (auto simp: advance_run_def save_advanced_def drive_good_def good_envelope_def
           thread_of_def run_by_id_save next_wakeup_at_def interrupt_envelope_from_output_def
           split: option.splits sum.splits)
  qed (use assms(5) in simp)
qed

definition demo_shared :: shared where
  "demo_shared = \<lparr> sq = empty_queue, sr = one_run CLASSIFYING (Some 0),
     threads = [(''t1'', demo_classifying)] \<rparr>"

lemma demo_claim:
  "claim_run 5 {} ''w'' (one_run st (Some 0)) =
    (Some (claim_row 5 ''w'' \<lparr> ticket_id = ''t1'', run_status = st, wakeup_at = Some 0,
        lease_owner = None, lease_expires_at = None, created_at = 0, updated_at = 0 \<rparr>),
     (one_run st (Some 0))\<lparr> runs := [claim_row 5 ''w'' \<lparr> ticket_id = ''t1'', run_status = st,
        wakeup_at = Some 0, lease_owner = None, lease_expires_at = None, created_at = 0,
        updated_at = 0 \<rparr>] \<rparr>)"
  by (simp add: claim_run_def one_run_def create_run_def empty_runs_def claimable_def)

lemma demo_step:
  "\<exists>S'. step ref_engine default_env True demo_clock 5 6 {} ''w'' demo_shared = (Inr True, S')"
  by (simp add: step_def demo_shared_def demo_claim thread_of_def pending_envelope_def
      snapshot_interrupts_def demo_classifying_def parked_thread_def agent_envelope_def
      await_envelope_def resume_for_run_from_pool_def resume_for_run_def resume_value_of_def
      approval_resume_value_def kind_is_def empty_queue_def advance_run_def invoke_resume_def
      ref_graph.drive_nodes body_of_def await_classify_def classifying_def initial_state_def
      await_agent_task_def redispatch_eq cancel_pending_def Let_def timeout_envelope_def
      is_timeout_def ref_graph.persist_simps save_advanced_def next_wakeup_at_def
      interrupt_envelope_from_output_def parse_wakeup_at_def)

theorem step_projects_witness:
  "\<exists>S' r. step ref_engine default_env True demo_clock 5 6 {} ''w'' demo_shared = (Inr True, S') \<and>
     run_by_id ''t1'' (sr S') = Some r \<and> lease_owner r = None"
proof -
  obtain S' where S': "step ref_engine default_env True demo_clock 5 6 {} ''w'' demo_shared = (Inr True, S')"
    using demo_step by blast
  have "wf_runs (sr demo_shared)"
    by (simp add: demo_shared_def one_run_def wf_create_run wf_runs_empty)
  moreover have "\<forall>t th. thread_of t demo_shared = Some th \<longrightarrow> has_status th"
    by (simp add: thread_of_def demo_shared_def has_status_def demo_classifying_def
        parked_thread_def classifying_def initial_state_def)
  ultimately show ?thesis
    using step_projects [OF ref_graph.langgraph_axioms good_default_env _ _ S'] S'
    by (auto simp: demo_shared_def demo_claim)
qed

text \<open>
  A step that finds nothing to resume with is harmless: the queue, the checkpoints, the
  signals and the archive are as before, every run keeps its status, its timer and its age, the
  claimed run's lease is free again and no other lease has changed.
\<close>

theorem step_idle_harmless:
  assumes "wf_runs (sr S)" and "step G E ua clk now1 now2 locked w S = (Inr False, S')"
  shows "sq S' = sq S \<and> threads S' = threads S \<and> signals (sr S') = signals (sr S) \<and>
    archive (sr S') = archive (sr S) \<and>
    (\<forall>t. map_option (\<lambda>r. (run_status r, wakeup_at r, created_at r)) (run_by_id t (sr S')) =
         map_option (\<lambda>r. (run_status r, wakeup_at r, created_at r)) (run_by_id t (sr S))) \<and>
    (\<forall>t. run_lease (sr S') t =
       (case fst (claim_run now1 locked w (sr S)) of
          Some run \<Rightarrow> if ticket_id run = t then None else run_lease (sr S) t
        | None \<Rightarrow> run_lease (sr S) t))"
proof (cases rule: claim_run_cases [of now1 locked w "sr S"])
  case none
  then show ?thesis using assms(2) by (simp add: step_None)
next
  case (some r0)
  then obtain run rs where claim: "claim_run now1 locked w (sr S) = (Some run, rs)" by simp
  note row = claim_row_of [OF assms(1) claim]
  from claim show ?thesis
  proof (cases rule: step_claimed [where G = G and E = E and ua = ua and clk = clk and ?now2.0 = now2])
    case (advance th n env rv)
    then show ?thesis using assms(2)
      by (auto simp: advance_run_def save_advanced_def Let_def
          split: prod.splits drive_result.splits option.splits sum.splits)
  next
    case give_back
    from row(2) obtain r where r: "run_by_id (ticket_id run) (sr S) = Some r"
      "run = claim_row now1 w r" by blast
    have S': "S' = S\<lparr> sr := save_run now2 (ticket_id run) (run_status run) (wakeup_at run) None rs \<rparr>"
      using give_back(2) assms(2) by simp
    have by_id: "run_by_id t (sr S') = (if t = ticket_id run
        then Some (saved_row now2 (run_status run) (wakeup_at run) run) else run_by_id t (sr S))" for t
      using row(1,3) by (simp add: S' run_by_id_save)
    have parts: "sq S' = sq S" "threads S' = threads S" "signals (sr S') = signals (sr S)"
      "archive (sr S') = archive (sr S)"
      using row(4,5) by (simp_all add: S')
    show ?thesis using claim r by (auto simp: parts by_id run_lease_def)
  qed
qed

lemma demo_idle_step:
  "step ref_engine default_env True demo_clock 5 6 {} ''w''
     \<lparr> sq = empty_queue, sr = one_run CLASSIFYING (Some 0), threads = [] \<rparr> =
   (Inr False, \<lparr> sq = empty_queue, sr = save_run 6 ''t1'' CLASSIFYING (Some 0) None
      (snd (claim_run 5 {} ''w'' (one_run CLASSIFYING (Some 0)))), threads = [] \<rparr>)"
  by (simp add: step_def demo_claim thread_of_def pending_envelope_def snapshot_interrupts_def Let_def)

theorem step_idle_harmless_witness:
  "run_lease (sr (snd (step ref_engine default_env True demo_clock 5 6 {} ''w''
     \<lparr> sq = empty_queue, sr = one_run CLASSIFYING (Some 0), threads = [] \<rparr>))) ''t1'' = None"
  using step_idle_harmless [OF _ demo_idle_step] wf_one_run
  by (simp add: demo_idle_step demo_claim)

text \<open>
  C35: a finalize task that fails for good stops its ticket and its runner: the runner that claims
  the ticket's run raises, its lease is left to run out, and the checkpoint, the failed task and
  the run's status are as before, so every later claim of the run ends in the same way.
\<close>

theorem finalize_failure_stuck:
  assumes "langgraph G" and "wf_runs (sr S)" and "history G E tk th"
    and "thread_of (id' tk) S = Some th" and "th_next th = Some Execute"
    and "th_interrupt th = Some (terminal_envelope E tk r)"
    and "find (task_ready (task_key (id' tk) ''finalize'')) (t_rows (sq S)) = Some task"
    and "t_status task = Failed"
    and "claim_run now1 locked w (sr S) = (Some run, rs)" and "ticket_id run = id' tk"
  shows "\<exists>S'. step G E ua clk now1 now2 locked w S = (Inl (ValidationError ''ticket_id''), S') \<and>
    t_rows (sq S') = t_rows (sq S) \<and> thread_of (id' tk) S' = Some th \<and>
    run_by_id (id' tk) (sr S') = Some run \<and>
    run_lease (sr S') (id' tk) = Some (w, now1 + seconds 30)"
proof -
  note execute_rejects = langgraph.execute_rejects [OF assms(1)]
  note row = claim_row_of [OF assms(2,9)]
  define v where "v = failed_payload task"
  have rv: "resume_for_run (sq S) rs (terminal_envelope E tk r) (wakeup_at run) =
      Some \<lparr> rv_payload = v, consumed_signal_id = None \<rparr>"
    using assms(7,8) by (simp add: resume_for_run_def resume_value_of_def approval_resume_value_def
        kind_is_def terminal_envelope_def v_def)
  have "result_validate E v = Inl (ValidationError ''ticket_id'')"
    by (simp add: v_def failed_payload_def result_validate_def field_def)
  from execute_rejects [OF assms(3,5) this, of ua clk "sq S"] obtain q' d c
    where inv: "invoke_resume G E ua clk th Execute v (sq S) =
      (Crashed (ValidationError ''ticket_id'') Execute (th_values th), th, q')"
    and q'_def: "q' = put_finalize E (clk Execute) tk c d (s_status (th_values th)) (sq S)" by blast
  have "find (task_ready (task_key (id' tk) ''finalize'')) (t_rows (sq S)) \<noteq> None"
    using assms(7) by simp
  then have "task_key (id' tk) ''finalize'' \<in> keys (sq S)"
    by (auto simp: find_None_iff keys_def task_ready_def intro: rev_image_eqI)
  then have q': "t_rows q' = t_rows (sq S)" by (simp add: q'_def put_finalize_def put_task_again)
  have pend: "pending_envelope (Some th) = Some (terminal_envelope E tk r)"
    using assms(5,6) by (simp add: pending_envelope_def snapshot_interrupts_def terminal_envelope_def)
  have "step G E ua clk now1 now2 locked w S = (Inl (ValidationError ''ticket_id''),
      S\<lparr> sr := rs, sq := q', threads := put_thread (id' tk) th (threads S) \<rparr>)"
    using assms(4,5,9,10) rv inv pend
    by (simp add: step_def Let_def thread_of_def resume_for_run_from_pool_def advance_run_def)
  moreover have "run_by_id (id' tk) rs = Some run" using row(1) assms(10) by simp
  moreover have "run_lease rs (id' tk) = Some (w, now1 + seconds 30)"
    using row(1,2) assms(10) by (auto simp: run_lease_def)
  ultimately show ?thesis using q' by (simp add: thread_of_def)
qed

definition failed_finalize_queue :: task_table where
  "failed_finalize_queue = snd (cancel_pending ''t1:finalize'' ''smtp down''
     (put_finalize default_env 0 demo_ticket demo_class demo_refund (Some AWAITING_APPROVAL)
        empty_queue))"

lemma failed_finalize_task:
  "\<exists>task. find (task_ready ''t1:finalize'') (t_rows failed_finalize_queue) = Some task \<and>
     t_status task = Failed"
  by (simp add: failed_finalize_queue_def put_finalize_def put_task_def enqueue_def
      empty_queue_def cancel_pending_def task_ready_def task_key_def demo_ticket_def Let_def)

theorem finalize_failure_stuck_witness:
  "\<exists>S'. step ref_engine default_env True demo_clock 5 6 {} ''w''
     \<lparr> sq = failed_finalize_queue, sr = one_run AWAITING_APPROVAL (Some 0),
       threads = [(''t1'', demo_approved)] \<rparr> = (Inl (ValidationError ''ticket_id''), S') \<and>
     thread_of ''t1'' S' = Some demo_approved"
proof -
  obtain task where "find (task_ready ''t1:finalize'') (t_rows failed_finalize_queue) = Some task"
    "t_status task = Failed" using failed_finalize_task by blast
  then show ?thesis
    using finalize_failure_stuck [OF ref_graph.langgraph_axioms _ demo_history_approved,
        of "\<lparr> sq = failed_finalize_queue, sr = one_run AWAITING_APPROVAL (Some 0),
          threads = [(''t1'', demo_approved)] \<rparr>" _ task 5 "{}" "''w''" _ _ True demo_clock 6]
    by (fastforce simp: wf_one_run thread_of_def demo_ticket_def demo_approved_def parked_thread_def
        task_key_def demo_claim)
qed

section \<open>The janitor and the retention sweep\<close>

definition projected :: "timestamp \<Rightarrow> string \<Rightarrow> thread \<Rightarrow> workflow_run" where
  "projected now t th =
     \<lparr> ticket_id = t, run_status = the (s_status (th_values th)),
       wakeup_at = s_wakeup_at (th_values th), lease_owner = None, lease_expires_at = None,
       created_at = now, updated_at = now \<rparr>"

lemma create_run_kept [simp]:
  "signals (create_run now t st wk s) = signals s" "archive (create_run now t st wk s) = archive s"
  by (simp_all add: create_run_def)

lemma reconcile_loop_correct:
  assumes "\<forall>t th. thread_of t S = Some th \<longrightarrow> has_status th"
  shows "\<exists>m. fst (reconcile_loop now ts n S) = Inr m \<and>
    sq (snd (reconcile_loop now ts n S)) = sq S \<and>
    threads (snd (reconcile_loop now ts n S)) = threads S \<and>
    signals (sr (snd (reconcile_loop now ts n S))) = signals (sr S) \<and>
    archive (sr (snd (reconcile_loop now ts n S))) = archive (sr S) \<and>
    (\<forall>k. run_by_id k (sr (snd (reconcile_loop now ts n S))) =
      (if run_by_id k (sr S) = None \<and> k \<in> set ts
       then map_option (projected now k) (thread_of k S) else run_by_id k (sr S)))"
  using assms
proof (induction ts arbitrary: n S)
  case (Cons t ts)
  show ?case
  proof (cases "thread_of t S")
    case None
    then show ?thesis using Cons.IH [OF Cons.prems, of n] by auto
  next
    case (Some th)
    then obtain st where st: "s_status (th_values th) = Some st"
      using Cons.prems by (auto simp: has_status_def)
    define S1 where "S1 = S\<lparr> sr := create_run now t st (s_wakeup_at (th_values th)) (sr S) \<rparr>"
    have same: "thread_of k S1 = thread_of k S" for k by (simp add: S1_def thread_of_def)
    have "\<forall>t th. thread_of t S1 = Some th \<longrightarrow> has_status th" using Cons.prems same by simp
    note IH = Cons.IH [OF this, of "n + 1"]
    have loop: "reconcile_loop now (t # ts) n S = reconcile_loop now ts (n + 1) S1"
      using Some st by (simp add: S1_def)
    have by_id: "run_by_id k (sr S1) = (if k = t \<and> run_by_id k (sr S) = None
        then Some (projected now t th) else run_by_id k (sr S))" for k
      by (auto simp: S1_def run_by_id_create projected_def st)
    have kept: "sq S1 = sq S" "threads S1 = threads S" "signals (sr S1) = signals (sr S)"
      "archive (sr S1) = archive (sr S)" by (simp_all add: S1_def)
    show ?thesis unfolding loop using IH Some by (auto simp: kept by_id same)
  qed
qed auto

text \<open>
  C26: the janitor recovers every ticket whose run is missing: a checkpoint that
  \<^verbatim>\<open>create_ticket\<close> seeded before it crashed gets the run row that \<^verbatim>\<open>create_ticket\<close>
  would have inserted, with the checkpoint's status and timer and no lease; existing runs, the
  queue, the signals and the checkpoints are untouched, and afterwards no checkpoint is without
  a run.
\<close>

theorem reconcile_recovers:
  assumes "\<forall>t th. thread_of t S = Some th \<longrightarrow> has_status th"
    and "reconcile_orphaned_runs now S = (out, S')"
  shows "(\<exists>n. out = Inr n) \<and>
    (\<forall>t. run_by_id t (sr S') = (case run_by_id t (sr S) of
        Some r \<Rightarrow> Some r | None \<Rightarrow> map_option (projected now t) (thread_of t S))) \<and>
    sq S' = sq S \<and> threads S' = threads S \<and> signals (sr S') = signals (sr S) \<and>
    list_orphaned_checkpoint_threads (map fst (threads S')) (sr S') = []"
proof -
  define ts where "ts = list_orphaned_checkpoint_threads (map fst (threads S)) (sr S)"
  have res: "reconcile_loop now ts 0 S = (out, S')"
    using assms(2) by (simp add: reconcile_orphaned_runs_def ts_def)
  note loop = reconcile_loop_correct [OF assms(1), of now ts 0, unfolded res fst_conv snd_conv]
  have ts: "k \<in> set ts \<longleftrightarrow> k \<in> fst ` set (threads S) \<and> run_by_id k (sr S) = None" for k
    by (auto simp: ts_def list_orphaned_checkpoint_threads_def list_ex_iff run_by_id_def
        find_by_None)
  have th: "k \<in> fst ` set (threads S) \<longleftrightarrow> thread_of k S \<noteq> None" for k
    by (simp add: thread_of_def map_of_eq_None_iff)
  have by_id: "run_by_id t (sr S') = (case run_by_id t (sr S) of
      Some r \<Rightarrow> Some r | None \<Rightarrow> map_option (projected now t) (thread_of t S))" for t
    using loop ts [of t] th [of t] by (auto split: option.splits)
  have "run_by_id k (sr S') \<noteq> None" if "k \<in> fst ` set (threads S')" for k
    using that by_id [of k] th [of k] loop by (auto split: option.splits)
  then have "list_orphaned_checkpoint_threads (map fst (threads S')) (sr S') = []"
    by (auto simp: list_orphaned_checkpoint_threads_def filter_empty_conv list_ex_iff run_by_id_def
        find_by_None)
  then show ?thesis using loop by_id by blast
qed

theorem reconcile_recovers_witness:
  "\<exists>S' r. reconcile_orphaned_runs 9 \<lparr> sq = empty_queue, sr = empty_runs,
      threads = [(''t1'', demo_classifying)] \<rparr> = (Inr 1, S') \<and>
    run_by_id ''t1'' (sr S') = Some r \<and> run_status r = CLASSIFYING"
proof -
  define S where "S = \<lparr> sq = empty_queue, sr = empty_runs, threads = [(''t1'', demo_classifying)] \<rparr>"
  have st: "\<forall>t th. thread_of t S = Some th \<longrightarrow> has_status th"
    by (simp add: S_def thread_of_def has_status_def demo_classifying_def parked_thread_def
        classifying_def)
  have "fst (reconcile_orphaned_runs 9 S) = Inr 1"
    by (simp add: S_def reconcile_orphaned_runs_def list_orphaned_checkpoint_threads_def
        empty_runs_def thread_of_def demo_classifying_def parked_thread_def classifying_def)
  then obtain S' where "reconcile_orphaned_runs 9 S = (Inr 1, S')" by (metis prod.collapse)
  with reconcile_recovers [OF st this] show ?thesis
    by (auto simp: S_def thread_of_def projected_def demo_classifying_def parked_thread_def
        classifying_def)
qed

text \<open>
  C40: a crash in the retention sweep blocks retention: when the process dies between the archive
  commit and the deletion of an archived ticket's checkpoint, the janitor takes the checkpoint for
  an orphan and brings the settled run back to life, and once that run is old enough every
  further sweep violates the archive's primary key, archives nothing and raises.
\<close>

theorem retention_blocked:
  assumes "\<forall>t th. thread_of t S = Some th \<longrightarrow> has_status th"
    and "thread_of t S = Some th" and "s_status (th_values th) = Some status" and "terminal status"
    and "t \<in> (ticket_id \<circ> archived) ` set (archive (sr S))" and "run_by_id t (sr S) = None"
    and "reconcile_orphaned_runs now S = (out, S')" and "now + max_age < later"
  shows "(\<exists>r. run_by_id t (sr S') = Some r \<and> run_status r = status) \<and>
    run_retention later now2 now3 max_age S' =
      (Inl (UniqueViolation ''workflow_run_archive_pkey''), S')"
proof -
  have res: "reconcile_loop now (list_orphaned_checkpoint_threads (map fst (threads S)) (sr S)) 0 S
      = (out, S')" using assms(7) by (simp add: reconcile_orphaned_runs_def)
  note loop = reconcile_loop_correct [OF assms(1), of now
      "list_orphaned_checkpoint_threads (map fst (threads S)) (sr S)" 0, unfolded res fst_conv snd_conv]
  have "t \<in> fst ` set (threads S)"
    using assms(2) by (auto simp: thread_of_def dest!: map_of_SomeD intro: rev_image_eqI)
  then have "t \<in> set (list_orphaned_checkpoint_threads (map fst (threads S)) (sr S))"
    using assms(6) by (auto simp: list_orphaned_checkpoint_threads_def list_ex_iff run_by_id_def
        find_by_None)
  then have r: "run_by_id t (sr S') = Some (projected now t th)"
    using loop assms(2,6) by simp
  then have "projected now t th \<in> set (runs (sr S'))" by (auto dest: run_by_id_Some)
  moreover have "terminal (run_status (projected now t th))" "updated_at (projected now t th) = now"
    "ticket_id (projected now t th) = t"
    using assms(3,4) by (simp_all add: projected_def)
  moreover have "archive (sr S') = archive (sr S)" using loop by blast
  ultimately have "\<exists>r \<in> set (filter (\<lambda>r. terminal (run_status r) \<and> updated_at r < later - max_age)
      (runs (sr S'))). ticket_id r \<in> (ticket_id \<circ> archived) ` set (archive (sr S'))"
    using assms(5,8) by (intro bexI [of _ "projected now t th"]) simp_all
  then have "archive_terminal_runs later max_age (sr S') =
      (Inl (UniqueViolation ''workflow_run_archive_pkey''), sr S')"
    unfolding archive_terminal_runs_def Let_def list_ex_iff by (rule if_P)
  then show ?thesis using r assms(3) by (simp add: run_retention_def projected_def)
qed

definition resolved_thread :: thread where
  "resolved_thread = \<lparr> th_values = (initial_state demo_ticket)\<lparr> s_status := Some RESOLVED \<rparr>,
     th_next = None, th_resumes = [], th_interrupt = None \<rparr>"

definition archived_store :: run_store where
  "archived_store = snd (archive_terminal_runs (hours 3) (hours 1) (one_run RESOLVED None))"

theorem retention_blocked_witness:
  "run_retention (hours 10) (hours 10) (hours 10) (hours 1)
     (snd (reconcile_orphaned_runs (hours 4) \<lparr> sq = empty_queue, sr = archived_store,
        threads = [(''t1'', resolved_thread)] \<rparr>)) =
   (Inl (UniqueViolation ''workflow_run_archive_pkey''),
    snd (reconcile_orphaned_runs (hours 4) \<lparr> sq = empty_queue, sr = archived_store,
        threads = [(''t1'', resolved_thread)] \<rparr>))"
proof -
  define S where "S = \<lparr> sq = empty_queue, sr = archived_store, threads = [(''t1'', resolved_thread)] \<rparr>"
  have arch: "''t1'' \<in> (ticket_id \<circ> archived) ` set (archive (sr S))" "run_by_id ''t1'' (sr S) = None"
    by (simp_all add: S_def archived_store_def archive_terminal_runs_def one_run_def
        create_run_def empty_runs_def hours_def seconds_def run_by_id_def Let_def)
  have st: "\<forall>t th. thread_of t S = Some th \<longrightarrow> has_status th"
    "thread_of ''t1'' S = Some resolved_thread"
    "s_status (th_values resolved_thread) = Some RESOLVED"
    by (simp_all add: S_def thread_of_def has_status_def resolved_thread_def)
  have late: "hours 4 + hours 1 < hours 10" by (simp add: hours_def seconds_def)
  show ?thesis
    using retention_blocked [OF st _ arch prod.collapse [symmetric] late]
    unfolding S_def [symmetric] by simp
qed

end
