(* ===== verification/Ledger.thy ===== *)
theory Ledger
  imports Interfaces Models
begin

text \<open>
  The at-most-once ledgers of \<^verbatim>\<open>src/ticketflow/ledger.py\<close> (refunds and sent replies, each
  with its log of attempts) and the read model of \<^verbatim>\<open>src/ticketflow/readmodel.py\<close>, which
  runs them in a transaction of their own and keeps the terminal results. Tables: migrations 002
  and 006 of \<^verbatim>\<open>src/ticketflow/db.py\<close>.
\<close>

section \<open>State\<close>

record refund_row =
  rf_ticket_id :: string
  rf_amount :: rat
  rf_recorded_at :: timestamp

record reply_row =
  rp_ticket_id :: string
  rp_customer_email :: string
  rp_reply_text :: string
  rp_recorded_at :: timestamp

record attempt_row =
  at_id :: int
  at_ticket_id :: string
  at_attempt :: nat
  at_attempted_at :: timestamp

record result_row =
  rs_ticket_id :: string
  rs_data :: json

record ledger_store =
  refunds :: "refund_row list"
  refund_attempts :: "attempt_row list"
  refund_attempt_seq :: int
  sent_replies :: "reply_row list"
  reply_attempts :: "attempt_row list"
  reply_attempt_seq :: int
  ticket_results :: "result_row list"

definition empty_ledger :: ledger_store where
  "empty_ledger = \<lparr> refunds = [], refund_attempts = [], refund_attempt_seq = 1,
     sent_replies = [], reply_attempts = [], reply_attempt_seq = 1, ticket_results = [] \<rparr>"

section \<open>The ledgers\<close>

definition record_refund ::
  "timestamp \<Rightarrow> string \<Rightarrow> rat \<Rightarrow> nat \<Rightarrow> ledger_store \<Rightarrow> bool \<times> ledger_store" where
  "record_refund now t amount attempt s =
     (let s1 = s\<lparr> refund_attempts := refund_attempts s @
            [\<lparr> at_id = refund_attempt_seq s, at_ticket_id = t, at_attempt = attempt,
               at_attempted_at = now \<rparr>],
          refund_attempt_seq := refund_attempt_seq s + 1 \<rparr>
      in if list_ex (\<lambda>r. rf_ticket_id r = t) (refunds s1) then (False, s1)
         else (True, s1\<lparr> refunds := refunds s1 @
            [\<lparr> rf_ticket_id = t, rf_amount = amount, rf_recorded_at = now \<rparr>] \<rparr>))"

definition refund_recorded :: "string \<Rightarrow> ledger_store \<Rightarrow> bool" where
  "refund_recorded t s = list_ex (\<lambda>r. rf_ticket_id r = t) (refunds s)"

definition record_sent_reply ::
  "timestamp \<Rightarrow> string \<Rightarrow> string \<Rightarrow> string \<Rightarrow> nat \<Rightarrow> ledger_store \<Rightarrow> bool \<times> ledger_store" where
  "record_sent_reply now t email text attempt s =
     (let s1 = s\<lparr> reply_attempts := reply_attempts s @
            [\<lparr> at_id = reply_attempt_seq s, at_ticket_id = t, at_attempt = attempt,
               at_attempted_at = now \<rparr>],
          reply_attempt_seq := reply_attempt_seq s + 1 \<rparr>
      in if list_ex (\<lambda>r. rp_ticket_id r = t) (sent_replies s1) then (False, s1)
         else (True, s1\<lparr> sent_replies := sent_replies s1 @
            [\<lparr> rp_ticket_id = t, rp_customer_email = email, rp_reply_text = text,
               rp_recorded_at = now \<rparr>] \<rparr>))"

section \<open>The read model\<close>

text \<open>\<^verbatim>\<open>save_result\<close>: an upsert by ticket id.\<close>

definition save_result :: "ticket_result \<Rightarrow> ledger_store \<Rightarrow> ledger_store" where
  "save_result r s =
     (if list_ex (\<lambda>x. rs_ticket_id x = r_ticket_id r) (ticket_results s)
      then s\<lparr> ticket_results := update_where (\<lambda>x. rs_ticket_id x = r_ticket_id r)
             (\<lambda>x. x\<lparr> rs_data := result_dump r \<rparr>) (ticket_results s) \<rparr>
      else s\<lparr> ticket_results := ticket_results s @
             [\<lparr> rs_ticket_id = r_ticket_id r, rs_data = result_dump r \<rparr>] \<rparr>)"

definition load_result ::
  "'k coercion_scheme \<Rightarrow> string \<Rightarrow> ledger_store \<Rightarrow> exn + ticket_result option" where
  "load_result K t s =
     (case find_by rs_ticket_id t (ticket_results s) of
        None \<Rightarrow> Inr None
      | Some row \<Rightarrow> bindr (result_validate K (rs_data row)) (\<lambda>r. Inr (Some r)))"

definition clear :: "ledger_store \<Rightarrow> nat \<times> ledger_store" where
  "clear s = (length (ticket_results s), s\<lparr> ticket_results := [] \<rparr>)"

text \<open>
  \<^verbatim>\<open>readmodel.record_refund\<close>, \<^verbatim>\<open>readmodel.refund_recorded\<close> and
  \<^verbatim>\<open>readmodel.record_sent_reply\<close> run the ledger's functions in a transaction and commit
  it: the same functions of the store.
\<close>

definition readmodel_record_refund ::
  "timestamp \<Rightarrow> string \<Rightarrow> rat \<Rightarrow> nat \<Rightarrow> ledger_store \<Rightarrow> bool \<times> ledger_store" where
  "readmodel_record_refund now t amount attempt s = record_refund now t amount attempt s"

definition readmodel_refund_recorded :: "string \<Rightarrow> ledger_store \<Rightarrow> bool" where
  "readmodel_refund_recorded t s = refund_recorded t s"

definition readmodel_record_sent_reply ::
  "timestamp \<Rightarrow> string \<Rightarrow> string \<Rightarrow> string \<Rightarrow> nat \<Rightarrow> ledger_store \<Rightarrow> bool \<times> ledger_store" where
  "readmodel_record_sent_reply now t email text attempt s =
     record_sent_reply now t email text attempt s"

lemmas readmodel_defs = readmodel_record_refund_def readmodel_refund_recorded_def
  readmodel_record_sent_reply_def

section \<open>The contracts the ledgers provide\<close>

definition refund_of :: "ledger_store \<Rightarrow> string \<Rightarrow> rat option" where
  "refund_of s t = map_option rf_amount (find_by rf_ticket_id t (refunds s))"

definition reply_of :: "ledger_store \<Rightarrow> string \<Rightarrow> (string \<times> string) option" where
  "reply_of s t =
     map_option (\<lambda>r. (rp_customer_email r, rp_reply_text r)) (find_by rp_ticket_id t (sent_replies s))"

definition attempts_for :: "attempt_row list \<Rightarrow> string \<Rightarrow> nat list" where
  "attempts_for rows t = map at_attempt (filter (\<lambda>r. at_ticket_id r = t) rows)"

lemma refund_recorded_iff: "refund_recorded t s \<longleftrightarrow> refund_of s t \<noteq> None"
  by (auto simp: refund_recorded_def refund_of_def list_ex_iff find_by_None)

lemma refund_row_iff: "list_ex (\<lambda>r. rf_ticket_id r = t) (refunds s) \<longleftrightarrow> refund_of s t \<noteq> None"
  using refund_recorded_iff by (simp add: refund_recorded_def)

lemma reply_row_iff: "list_ex (\<lambda>r. rp_ticket_id r = t) (sent_replies s) \<longleftrightarrow> reply_of s t \<noteq> None"
  by (auto simp: reply_of_def list_ex_iff find_by_None)

lemma refund_of_cong [simp]:
  "refund_of (s\<lparr> refund_attempts := a, refund_attempt_seq := n \<rparr>) = refund_of s"
  "refund_of (s\<lparr> reply_attempts := a, reply_attempt_seq := n \<rparr>) = refund_of s"
  "refund_of (s\<lparr> sent_replies := rs \<rparr>) = refund_of s"
  "refund_of (s\<lparr> ticket_results := tr \<rparr>) = refund_of s"
  by (simp_all add: refund_of_def fun_eq_iff)

lemma reply_of_cong [simp]:
  "reply_of (s\<lparr> refund_attempts := a, refund_attempt_seq := n \<rparr>) = reply_of s"
  "reply_of (s\<lparr> reply_attempts := a, reply_attempt_seq := n \<rparr>) = reply_of s"
  "reply_of (s\<lparr> refunds := rf \<rparr>) = reply_of s"
  "reply_of (s\<lparr> ticket_results := tr \<rparr>) = reply_of s"
  by (simp_all add: reply_of_def fun_eq_iff)

lemma refund_of_after:
  "refund_of (snd (record_refund now t amount n s)) =
    (if refund_of s t = None then (refund_of s)(t \<mapsto> amount) else refund_of s)"
  by (auto simp: record_refund_def Let_def refund_row_iff fun_eq_iff)
     (auto simp: refund_of_def find_by_append split: option.splits)

lemma reply_of_after:
  "reply_of (snd (record_sent_reply now t email text n s)) =
    (if reply_of s t = None then (reply_of s)(t \<mapsto> (email, text)) else reply_of s)"
  by (auto simp: record_sent_reply_def Let_def reply_row_iff fun_eq_iff)
     (auto simp: reply_of_def find_by_append split: option.splits)

lemma refund_first: "fst (record_refund now t amount n s) \<longleftrightarrow> refund_of s t = None"
  by (simp add: record_refund_def Let_def refund_row_iff)

lemma reply_first: "fst (record_sent_reply now t email text n s) \<longleftrightarrow> reply_of s t = None"
  unfolding record_sent_reply_def Let_def reply_row_iff by (cases "reply_of s t") simp_all

lemma refund_attempts_after:
  "attempts_for (refund_attempts (snd (record_refund now t amount n s))) t' =
    attempts_for (refund_attempts s) t' @ (if t' = t then [n] else [])"
  by (simp add: record_refund_def Let_def attempts_for_def)

lemma reply_attempts_after:
  "attempts_for (reply_attempts (snd (record_sent_reply now t email text n s))) t' =
    attempts_for (reply_attempts s) t' @ (if t' = t then [n] else [])"
  by (simp add: record_sent_reply_def Let_def attempts_for_def)

interpretation refund_ledger: once_ledger
  "\<lambda>t amount n s. record_refund now t amount n s" refund_of
  "\<lambda>s t. attempts_for (refund_attempts s) t" for now
  by unfold_locales (simp_all add: refund_first refund_of_after refund_attempts_after)

interpretation reply_ledger: once_ledger
  "\<lambda>t v n s. record_sent_reply now t (fst v) (snd v) n s" reply_of
  "\<lambda>s t. attempts_for (reply_attempts s) t" for now
  by unfold_locales (simp_all add: reply_first reply_of_after reply_attempts_after)

lemma refund_of_reply [simp]: "refund_of (snd (record_sent_reply now t e x n s)) = refund_of s"
  by (simp add: record_sent_reply_def Let_def)

lemma reply_of_refund [simp]: "reply_of (snd (record_refund now t a n s)) = reply_of s"
  by (simp add: record_refund_def Let_def)

lemma refund_of_save [simp]: "refund_of (save_result r s) = refund_of s"
  by (simp add: save_result_def)

lemma reply_of_save [simp]: "reply_of (save_result r s) = reply_of s"
  by (simp add: save_result_def)

lemma refund_of_empty [simp]: "refund_of empty_ledger t = None"
  by (simp add: refund_of_def empty_ledger_def)

lemma reply_of_empty [simp]: "reply_of empty_ledger t = None"
  by (simp add: reply_of_def empty_ledger_def)

section \<open>Well-formed stores\<close>

definition wf_ledger :: "ledger_store \<Rightarrow> bool" where
  "wf_ledger s =
     (distinct (map rf_ticket_id (refunds s)) \<and> distinct (map rp_ticket_id (sent_replies s)) \<and>
      distinct (map rs_ticket_id (ticket_results s)) \<and>
      distinct (map at_id (refund_attempts s)) \<and>
      (\<forall>a \<in> set (refund_attempts s). at_id a < refund_attempt_seq s) \<and>
      distinct (map at_id (reply_attempts s)) \<and>
      (\<forall>a \<in> set (reply_attempts s). at_id a < reply_attempt_seq s) \<and>
      (\<forall>r \<in> set (refunds s). \<exists>a \<in> set (refund_attempts s). at_ticket_id a = rf_ticket_id r) \<and>
      (\<forall>r \<in> set (sent_replies s). \<exists>a \<in> set (reply_attempts s). at_ticket_id a = rp_ticket_id r))"

datatype ledger_op =
    RecordRefund timestamp string rat nat
  | RecordReply timestamp string string string nat
  | SaveResult ticket_result
  | ClearResults

fun ledger_apply :: "ledger_op \<Rightarrow> ledger_store \<Rightarrow> ledger_store" where
  "ledger_apply (RecordRefund now t a n) s = snd (record_refund now t a n s)"
| "ledger_apply (RecordReply now t e x n) s = snd (record_sent_reply now t e x n s)"
| "ledger_apply (SaveResult r) s = save_result r s"
| "ledger_apply ClearResults s = snd (clear s)"

lemma wf_record_refund: "wf_ledger s \<Longrightarrow> wf_ledger (snd (record_refund now t a n s))"
  by (auto simp: wf_ledger_def record_refund_def Let_def list_ex_iff)

lemma wf_record_reply: "wf_ledger s \<Longrightarrow> wf_ledger (snd (record_sent_reply now t e x n s))"
  by (auto simp: wf_ledger_def record_sent_reply_def Let_def list_ex_iff)

lemma wf_save_result: "wf_ledger s \<Longrightarrow> wf_ledger (save_result r s)"
  by (auto simp: wf_ledger_def save_result_def list_ex_iff map_update_where)

lemma wf_ledger_apply: "wf_ledger s \<Longrightarrow> wf_ledger (ledger_apply op s)"
  by (cases op)
     (simp_all add: wf_record_refund wf_record_reply wf_save_result clear_def, simp add: wf_ledger_def)

lemma wf_ledger_fold: "wf_ledger s \<Longrightarrow> wf_ledger (fold ledger_apply ops s)"
  by (induction ops arbitrary: s) (simp_all add: wf_ledger_apply)

lemma wf_ledger_empty: "wf_ledger empty_ledger"
  by (simp add: wf_ledger_def empty_ledger_def)

section \<open>Properties of the ledgers and the read model\<close>

text \<open>
  C12: money moves at most once per ticket: whatever refunds are delivered, in whatever order and
  however often, exactly one delivery for a ticket is told it was the first, the ledger then
  holds that ticket's refund with the amount of its first delivery, and every delivery's attempt
  number is logged in order.
\<close>

theorem refund_at_most_once:
  assumes "refund_of s t = None" and "t \<in> fst ` set ds"
  shows "let (answers, s') = refund_ledger.deliver now ds s
    in refund_ledger.firsts t ds answers = 1 \<and>
       refund_of s' t = map_option (\<lambda>(_, a, _). a) (find (\<lambda>d. fst d = t) ds) \<and>
       attempts_for (refund_attempts s') t =
         attempts_for (refund_attempts s) t @ map (\<lambda>(_, _, n). n) (filter (\<lambda>d. fst d = t) ds)"
  using refund_ledger.firsts_fresh [OF assms(1), of ds now]
    refund_ledger.entry_first [OF assms(1), of now ds]
    refund_ledger.attempts_all [of now ds s t] assms(2)
  by (simp add: split_beta)

theorem refund_at_most_once_witness:
  "let ds = [(''t1'', 42, 1), (''t2'', 7, 1), (''t1'', 99, 2)];
       s' = snd (refund_ledger.deliver 0 ds empty_ledger)
   in refund_of s' ''t1'' = Some 42 \<and> attempts_for (refund_attempts s') ''t1'' = [1, 2]"
  using refund_at_most_once [OF refund_of_empty, of "''t1''"
      "[(''t1'', 42, 1), (''t2'', 7, 1), (''t1'', 99, 2)]" 0]
  by (simp add: split_beta Let_def attempts_for_def empty_ledger_def)

text \<open>
  The customer is written to at most once per ticket: the same for replies, with the email
  and the text of the first delivery.
\<close>

theorem reply_at_most_once:
  assumes "reply_of s t = None" and "t \<in> fst ` set ds"
  shows "let (answers, s') = reply_ledger.deliver now ds s
    in reply_ledger.firsts t ds answers = 1 \<and>
       reply_of s' t = map_option (\<lambda>(_, v, _). v) (find (\<lambda>d. fst d = t) ds) \<and>
       attempts_for (reply_attempts s') t =
         attempts_for (reply_attempts s) t @ map (\<lambda>(_, _, n). n) (filter (\<lambda>d. fst d = t) ds)"
  using reply_ledger.firsts_fresh [OF assms(1), of ds now]
    reply_ledger.entry_first [OF assms(1), of now ds]
    reply_ledger.attempts_all [of now ds s t] assms(2)
  by (simp add: split_beta)

theorem reply_at_most_once_witness:
  "let ds = [(''t1'', (''jo@x'', ''hello''), 1), (''t1'', (''jo@x'', ''hello again''), 2)];
       s' = snd (reply_ledger.deliver 0 ds empty_ledger)
   in reply_of s' ''t1'' = Some (''jo@x'', ''hello'') \<and>
      attempts_for (reply_attempts s') ''t1'' = [1, 2]"
  using reply_at_most_once [OF reply_of_empty, of "''t1''"
      "[(''t1'', (''jo@x'', ''hello''), 1), (''t1'', (''jo@x'', ''hello again''), 2)]" 0]
  by (simp add: split_beta Let_def attempts_for_def empty_ledger_def)

text \<open>
  The ledgers stay well formed under any sequence of refunds, replies, results and resets:
  one refund, one reply and one result per ticket, attempt ids unique, and no refund or reply
  without an attempt on record.
\<close>

theorem ledger_wf_invariant: "wf_ledger (fold ledger_apply ops empty_ledger)"
  by (rule wf_ledger_fold [OF wf_ledger_empty])

text \<open>
  The read model returns what was saved last: loading a ticket after saving its result gives
  that result back, whatever was stored before, and saving one ticket's result does not change
  what another loads.
\<close>

theorem read_model_roundtrip:
  assumes "good_coercion K"
  shows "load_result K (r_ticket_id r) (save_result r s) = Inr (Some r) \<and>
    (t \<noteq> r_ticket_id r \<longrightarrow> load_result K t (save_result r s) = load_result K t s)"
proof -
  have at: "find_by rs_ticket_id t (ticket_results (save_result r s)) =
      (if t = r_ticket_id r
       then Some \<lparr> rs_ticket_id = r_ticket_id r, rs_data = result_dump r \<rparr>
       else find_by rs_ticket_id t (ticket_results s))" for t
  proof (cases "list_ex (\<lambda>x. rs_ticket_id x = r_ticket_id r) (ticket_results s)")
    case True
    then obtain x where x: "find_by rs_ticket_id (r_ticket_id r) (ticket_results s) = Some x"
      by (auto simp: list_ex_find_by)
    have "x\<lparr> rs_data := result_dump r \<rparr> =
        \<lparr> rs_ticket_id = r_ticket_id r, rs_data = result_dump r \<rparr>"
      using find_by_Some [OF x] by (cases x) simp
    then show ?thesis using True x
      by (cases "find_by rs_ticket_id t (ticket_results s)")
         (auto simp: save_result_def find_by_update_where_key dest: find_by_Some)
  next
    case False
    then have "find_by rs_ticket_id (r_ticket_id r) (ticket_results s) = None"
      by (auto simp: list_ex_iff find_by_None)
    then show ?thesis using False
      by (auto simp: save_result_def find_by_append split: option.splits)
  qed
  show ?thesis using assms by (simp add: load_result_def at)
qed

theorem read_model_roundtrip_witness:
  "let r = \<lparr> r_ticket_id = ''t1'', r_status = RESOLVED, r_reply_text = ''done'',
       refund_executed = True, model_path = ''primary/primary'' \<rparr>
   in load_result strict_coercion ''t1'' (save_result r empty_ledger) = Inr (Some r)"
  using read_model_roundtrip [OF good_strict_coercion,
      of "\<lparr> r_ticket_id = ''t1'', r_status = RESOLVED, r_reply_text = ''done'',
       refund_executed = True, model_path = ''primary/primary'' \<rparr>" empty_ledger]
  by (simp add: Let_def)

end
