(* ===== verification/Api.thy ===== *)
theory Api
  imports RunnerProps Ledger
begin

text \<open>
  The HTTP operations of \<^verbatim>\<open>src/ticketflow/api.py\<close> on the shared state and the ledgers. A
  handler answers its response model or the exception it raises; the ticket id that
  \<^verbatim>\<open>uuid4\<close> makes and the outcome of the database ping are parameters. The API's writes go
  through the async pool.
\<close>

section \<open>Requests and responses\<close>

record create_ticket_request =
  req_customer_email :: string
  req_subject :: string
  req_body :: string

definition approval_conflict :: exn where
  "approval_conflict = HTTPException 409 ''ticket is not awaiting approval''"

definition health :: "(string \<times> string) list" where
  "health = [(''status'', ''healthy''), (''service'', ''ticketflow-api'')]"

text \<open>
  \<^verbatim>\<open>_database_connected\<close>: no pool, or a ping that raises, is not connected.
\<close>

definition database_connected :: "(exn + unit) option \<Rightarrow> bool" where
  "database_connected ping = (case ping of Some (Inr _) \<Rightarrow> True | _ \<Rightarrow> False)"

text \<open>\<^verbatim>\<open>_readiness_config\<close>: the database's URL and the three queues.\<close>

definition readiness_config :: "string \<Rightarrow> 'e env_scheme \<Rightarrow> (string \<times> string) list" where
  "readiness_config database_url E =
     [(''database_url'', database_url), (''task_queue'', TASK_QUEUE E),
      (''agent_task_queue'', AGENT_TASK_QUEUE E), (''fallback_task_queue'', FALLBACK_TASK_QUEUE E)]"

record readiness =
  rd_status :: string
  rd_database :: string
  rd_orchestration :: string
  rd_config :: "(string \<times> string) list"

definition ready ::
  "string \<Rightarrow> 'e env_scheme \<Rightarrow> (exn + unit) option \<Rightarrow> engine option \<Rightarrow> readiness" where
  "ready database_url E ping compiled =
     (let database = database_connected ping;
          orchestration = (compiled \<noteq> None);
          healthy = (database \<and> orchestration)
      in \<lparr> rd_status = (if healthy then ''healthy'' else ''degraded''),
           rd_database = (if database then ''connected'' else ''unavailable''),
           rd_orchestration = (if orchestration then ''ready'' else ''not_ready''),
           rd_config = readiness_config database_url E \<rparr>)"

section \<open>Tickets\<close>

definition create_ticket ::
  "engine \<Rightarrow> 'e env_scheme \<Rightarrow> (node \<Rightarrow> timestamp) \<Rightarrow> timestamp \<Rightarrow> string \<Rightarrow> create_ticket_request
     \<Rightarrow> shared \<Rightarrow> (exn + string) \<times> shared" where
  "create_ticket G E clk now uuid req S =
     (let t = \<lparr> id' = uuid, customer_email = req_customer_email req, subject = req_subject req,
                body = req_body req \<rparr>;
          (res, th, q') = invoke_new G E True clk (initial_state t) (sq S);
          S1 = S\<lparr> sq := q', threads := put_thread uuid th (threads S) \<rparr>;
          record_run = (\<lambda>out. case s_status out of
             None \<Rightarrow> (Inl (KeyError ''status''), S1)
           | Some status \<Rightarrow>
               (Inr uuid, S1\<lparr> sr := acreate_run now uuid status (s_wakeup_at out) (sr S1) \<rparr>))
      in case res of
           Crashed e n st \<Rightarrow> (Inl e, S1)
         | Parked n st rs env \<Rightarrow> record_run st
         | Finished st \<Rightarrow> record_run st)"

definition list_tickets :: "ticket_status \<Rightarrow> shared \<Rightarrow> string list" where
  "list_tickets status S = list_runs_by_status status (sr S)"

definition get_ticket ::
  "'k coercion_scheme \<Rightarrow> string \<Rightarrow> shared \<Rightarrow> ledger_store \<Rightarrow> exn + ticket_status_info" where
  "get_ticket K tid S L =
     (case thread_of tid S of
        Some th \<Rightarrow>
          (case s_status (th_values th) of
             None \<Rightarrow> Inl (KeyError ''status'')
           | Some status \<Rightarrow> Inr \<lparr> i_ticket_id = tid, i_status = status,
               i_classification = s_classification (th_values th), i_draft = s_draft (th_values th),
               i_decision = s_decision (th_values th), i_result = s_result (th_values th) \<rparr>)
      | None \<Rightarrow>
          (case load_result K tid L of
             Inl e \<Rightarrow> Inl e
           | Inr None \<Rightarrow> Inl (HTTPException 404 ''ticket not found'')
           | Inr (Some result) \<Rightarrow> Inr \<lparr> i_ticket_id = tid, i_status = r_status result,
               i_classification = None, i_draft = None, i_decision = None,
               i_result = Some result \<rparr>))"

definition submit_approval ::
  "timestamp \<Rightarrow> string \<Rightarrow> approval_decision \<Rightarrow> shared \<Rightarrow> (exn + ticket_status) \<times> shared" where
  "submit_approval now tid decision S =
     (case add_pending_signal_if_waiting now tid APPROVAL_DECISION_SIGNAL (decision_dump decision)
             AWAITING_APPROVAL (sr S) of
        (None, rs) \<Rightarrow> (Inl approval_conflict, S\<lparr> sr := rs \<rparr>)
      | (Some signal_id, rs) \<Rightarrow> (Inr AWAITING_APPROVAL, S\<lparr> sr := rs \<rparr>))"

section \<open>The log context of a request\<close>

text \<open>
  \<^verbatim>\<open>ticket_context_middleware\<close>: the ticket id in the path, if any, is the log context while
  the rest of the application handles the request, and the context before it is restored
  whether that returns or raises.
\<close>

definition path_parts :: "string \<Rightarrow> string list" where
  "path_parts path =
     split_on CHR ''/'' (rev (dropWhile (\<lambda>c. c = CHR ''/'')
       (rev (dropWhile (\<lambda>c. c = CHR ''/'') path))))"

definition path_ticket :: "string \<Rightarrow> string option" where
  "path_ticket path =
     (case path_parts path of
        p0 # p1 # ps \<Rightarrow> if p0 = ''tickets'' \<and> p1 \<noteq> [] then Some p1 else None
      | _ \<Rightarrow> None)"

definition ticket_context_middleware ::
  "string \<Rightarrow> (string option \<Rightarrow> 's \<Rightarrow> (exn + 'r) \<times> string option \<times> 's) \<Rightarrow> string option \<Rightarrow> 's
     \<Rightarrow> (exn + 'r) \<times> string option \<times> 's" where
  "ticket_context_middleware path call_next ctx s =
     (let (out, ctx', s') = call_next (case path_ticket path of Some t \<Rightarrow> Some t | None \<Rightarrow> ctx) s
      in (out, if path_ticket path \<noteq> None then ctx else ctx', s'))"

section \<open>Properties of the API\<close>

definition new_ticket :: "string \<Rightarrow> create_ticket_request \<Rightarrow> ticket" where
  "new_ticket uuid req = \<lparr> id' = uuid, customer_email = req_customer_email req,
     subject = req_subject req, body = req_body req \<rparr>"

text \<open>
  C21: creating a ticket under a new id answers the id, and leaves everything the rest of the
  system needs: a pending classify task for that ticket in the agents' queue, a checkpoint that
  reports it as classifying, and a run with that status and the schedule-to-start timer; no other
  run and no other thread is touched.
\<close>

theorem create_ticket_correct:
  assumes "langgraph G" and "run_by_id uuid (sr S) = None"
    and "task_by_key (task_key uuid ''classify'') (sq S) = None"
  shows "\<exists>S'. create_ticket G E clk now uuid req S = (Inr uuid, S') \<and>
    (\<exists>r. task_by_key (task_key uuid ''classify'') (sq S') = Some r \<and> t_status r = Pending \<and>
       queue_name r = AGENT_TASK_QUEUE E \<and> t_workflow_id r = uuid \<and> task_type r = ''classify'' \<and>
       payload r = classify_payload (new_ticket uuid req)) \<and>
    get_ticket K uuid S' L = Inr \<lparr> i_ticket_id = uuid, i_status = CLASSIFYING,
       i_classification = None, i_draft = None, i_decision = None, i_result = None \<rparr> \<and>
    run_by_id uuid (sr S') = Some \<lparr> ticket_id = uuid, run_status = CLASSIFYING,
       wakeup_at = Some (clk Dispatch_classify + SCHEDULE_TO_START E), lease_owner = None,
       lease_expires_at = None, created_at = now, updated_at = now \<rparr> \<and>
    (\<forall>t. t \<noteq> uuid \<longrightarrow> run_by_id t (sr S') = run_by_id t (sr S) \<and>
       thread_of t S' = thread_of t S)"
proof -
  note start_ticket = langgraph.start_ticket [OF assms(1)]
  have "id' (new_ticket uuid req) = uuid" by (simp add: new_ticket_def)
  then show ?thesis
    using start_ticket [of E True clk "new_ticket uuid req" "sq S"] assms(2,3)
    by (simp add: create_ticket_def new_ticket_def [symmetric] Let_def get_ticket_def thread_of_def
        parked_thread_def classifying_def initial_state_def run_by_id_create put_task_def
        task_by_key_enqueue enqueue_row_def)
qed

theorem create_ticket_correct_witness:
  "\<exists>S'. create_ticket ref_engine default_env demo_clock 7 ''t1''
      \<lparr> req_customer_email = ''a@b.c'', req_subject = ''Hi'', req_body = ''login'' \<rparr>
      \<lparr> sq = empty_queue, sr = empty_runs, threads = [] \<rparr> = (Inr ''t1'', S') \<and>
    (\<exists>r. run_by_id ''t1'' (sr S') = Some r \<and> run_status r = CLASSIFYING)"
  using create_ticket_correct [OF ref_graph.langgraph_axioms, of "''t1''"
      "\<lparr> sq = empty_queue, sr = empty_runs, threads = [] \<rparr>" default_env demo_clock 7
      "\<lparr> req_customer_email = ''a@b.c'', req_subject = ''Hi'', req_body = ''login'' \<rparr>"
      default_env empty_ledger]
  by (auto simp: task_by_key_def empty_queue_def)

lemma submit_accepted:
  assumes "wf_runs (sr S)" and "run_by_id t (sr S) = Some r" and "run_status r = AWAITING_APPROVAL"
    and "filter (waiting_decision t) (signals (sr S)) = []"
  shows "\<exists>S2. submit_approval now t dec S = (Inr AWAITING_APPROVAL, S2) \<and> sq S2 = sq S \<and>
    threads S2 = threads S \<and> wf_runs (sr S2) \<and>
    run_by_id t (sr S2) = Some (wake_row now r)"
proof -
  have r: "r \<in> set (runs (sr S))" "ticket_id r = t" using run_by_id_Some [OF assms(2)] by auto
  have "\<not> unconsumed_signal t APPROVAL_DECISION_SIGNAL (sr S)"
    using assms(4) by (auto simp: unconsumed_signal_def list_ex_iff filter_empty_conv waiting_decision_def)
  moreover have "list_ex (\<lambda>r. ticket_id r = t \<and> run_status r = AWAITING_APPROVAL) (runs (sr S))"
    using r assms(3) by (auto simp: list_ex_iff)
  ultimately obtain i rs where
    add: "add_pending_signal_if_waiting now t APPROVAL_DECISION_SIGNAL (decision_dump dec)
      AWAITING_APPROVAL (sr S) = (Some i, rs)"
    and rns: "runs rs = update_where (\<lambda>r. ticket_id r = t) (wake_row now) (runs (sr S))"
    by (simp add: add_pending_signal_if_waiting_def)
  have "run_by_id t rs = run_by_id t ((sr S)\<lparr> runs := update_where (\<lambda>r. ticket_id r = t) (wake_row now)
      (runs (sr S)) \<rparr>)" using rns by (simp add: run_by_id_def)
  then have "run_by_id t rs = Some (wake_row now r)" using assms(2) by (simp add: run_by_id_update_one)
  moreover have "wf_runs rs"
    using wf_add_signal [OF assms(1), of now t APPROVAL_DECISION_SIGNAL "decision_dump dec" AWAITING_APPROVAL]
    by (simp add: add)
  ultimately show ?thesis using add by (simp add: submit_approval_def)
qed

text \<open>
  C34: a second decision is accepted after the first was taken, and breaks the ticket's next step:
  an approved ticket keeps the status \<^verbatim>\<open>awaiting_approval\<close> while its finalize task is
  pending, so the API accepts another decision and wakes the run, and a runner that claims it
  before the finalize task is done resumes \<^verbatim>\<open>execute\<close> with a timeout, which raises.
\<close>

theorem second_decision_breaks:
  assumes "langgraph G" and "wf_runs (sr S)" and "history G E tk th"
    and "thread_of (id' tk) S = Some th" and "th_next th = Some Execute"
    and "th_interrupt th = Some (terminal_envelope E tk res)"
    and "run_by_id (id' tk) (sr S) = Some r" and "run_status r = AWAITING_APPROVAL"
    and "filter (waiting_decision (id' tk)) (signals (sr S)) = []"
    and "find (task_ready (task_key (id' tk) ''finalize'')) (t_rows (sq S)) = None"
  shows "\<exists>S2. submit_approval now (id' tk) dec S = (Inr AWAITING_APPROVAL, S2) \<and>
    (\<forall>run rs now1 locked w. claim_run now1 locked w (sr S2) = (Some run, rs) \<longrightarrow>
       ticket_id run = id' tk \<longrightarrow>
       (\<exists>S3. step G E ua clk now1 now2 locked w S2 = (Inl (ValidationError ''ticket_id''), S3)))"
proof -
  note execute_rejects = langgraph.execute_rejects [OF assms(1)]
  obtain S2 where S2: "submit_approval now (id' tk) dec S = (Inr AWAITING_APPROVAL, S2)"
    "sq S2 = sq S" "threads S2 = threads S" "wf_runs (sr S2)"
    "run_by_id (id' tk) (sr S2) = Some (wake_row now r)"
    using submit_accepted [OF assms(2,7,8,9)] by blast
  have "\<exists>S3. step G E ua clk now1 now2 locked w S2 = (Inl (ValidationError ''ticket_id''), S3)"
    if claim: "claim_run now1 locked w (sr S2) = (Some run, rs)" and tid: "ticket_id run = id' tk"
    for run rs now1 locked w
  proof -
    have "wakeup_at run = Some now"
      using claim_row_of(2) [OF S2(4) claim] S2(5) tid by auto
    then have rv: "resume_for_run (sq S2) rs (terminal_envelope E tk res) (wakeup_at run) =
        Some \<lparr> rv_payload = timeout_envelope, consumed_signal_id = None \<rparr>"
      using assms(10) S2(2) by (simp add: resume_for_run_def resume_value_of_def
          approval_resume_value_def kind_is_def terminal_envelope_def)
    have "result_validate E timeout_envelope = Inl (ValidationError ''ticket_id'')"
      by (simp add: timeout_envelope_def result_validate_def field_def)
    from execute_rejects [OF assms(3,5) this, of ua clk "sq S2"] obtain q'
      where inv: "invoke_resume G E ua clk th Execute timeout_envelope (sq S2) =
        (Crashed (ValidationError ''ticket_id'') Execute (th_values th), th, q')" by blast
    have pend: "pending_envelope (Some th) = Some (terminal_envelope E tk res)"
      using assms(5,6)
      by (simp add: pending_envelope_def snapshot_interrupts_def terminal_envelope_def)
    show ?thesis using assms(4,5) S2(3) claim tid rv inv pend
      by (simp add: step_def Let_def thread_of_def resume_for_run_from_pool_def advance_run_def)
  qed
  with S2(1) show ?thesis by blast
qed

theorem second_decision_breaks_witness:
  "let S = \<lparr> sq = empty_queue, sr = one_run AWAITING_APPROVAL None, threads = [(''t1'', demo_approved)] \<rparr>
   in \<exists>S2 S3. submit_approval 4 ''t1'' demo_yes S = (Inr AWAITING_APPROVAL, S2) \<and>
      step ref_engine default_env True demo_clock 5 6 {} ''w'' S2 =
        (Inl (ValidationError ''ticket_id''), S3)"
proof -
  define S where "S = \<lparr> sq = empty_queue, sr = one_run AWAITING_APPROVAL None,
    threads = [(''t1'', demo_approved)] \<rparr>"
  have t1: "id' demo_ticket = ''t1''" by (simp add: demo_ticket_def)
  have parked: "wf_runs (sr S)" "thread_of (id' demo_ticket) S = Some demo_approved"
    "th_next demo_approved = Some Execute"
    "th_interrupt demo_approved = Some (terminal_envelope default_env demo_ticket
        (expected_result demo_ticket demo_class demo_refund (Some AWAITING_APPROVAL)))"
    "filter (waiting_decision (id' demo_ticket)) (signals (sr S)) = []"
    "find (task_ready (task_key (id' demo_ticket) ''finalize'')) (t_rows (sq S)) = None"
    by (simp_all add: S_def wf_one_run thread_of_def t1 demo_approved_def parked_thread_def)
       (simp_all add: one_run_def create_run_def empty_runs_def empty_queue_def)
  obtain r where r: "run_by_id (id' demo_ticket) (sr S) = Some r" "run_status r = AWAITING_APPROVAL"
    by (simp add: S_def t1 one_run_def run_by_id_create)
  from second_decision_breaks [OF ref_graph.langgraph_axioms parked(1) demo_history_approved
      parked(2-4) r parked(5,6), of 4 demo_yes True demo_clock 6]
  obtain S2 where S2: "submit_approval 4 (id' demo_ticket) demo_yes S = (Inr AWAITING_APPROVAL, S2)"
    and brk: "\<forall>run rs now1 locked w. claim_run now1 locked w (sr S2) = (Some run, rs) \<longrightarrow>
       ticket_id run = id' demo_ticket \<longrightarrow> (\<exists>S3. step ref_engine default_env True demo_clock now1 6
          locked w S2 = (Inl (ValidationError ''ticket_id''), S3))" by blast
  have "\<exists>run rs. claim_run 5 {} ''w'' (sr S2) = (Some run, rs) \<and> ticket_id run = id' demo_ticket"
    using S2 by (auto simp: S_def t1 submit_approval_def add_pending_signal_if_waiting_def one_run_def
        create_run_def empty_runs_def unconsumed_signal_def claim_run_def claimable_def wake_row_def)
  with S2 brk show ?thesis unfolding Let_def S_def [symmetric] t1 by blast
qed

end
