(* ===== verification/Agent.thy ===== *)
theory Agent
  imports Models Ledger
begin

text \<open>
  The agents: the interface of \<^verbatim>\<open>src/ticketflow/agent/base.py\<close>, the mock agent of
  \<^verbatim>\<open>agent/mock.py\<close>, and the operations of \<^verbatim>\<open>activities.py\<close> that wrap an agent and the
  side effects. The random generator is a stream of draws and a position in it: Python's
  \<^verbatim>\<open>random()\<close> lies in the half-open unit interval, which is the hypothesis
  \<^verbatim>\<open>unit_draws\<close>. Floats are rationals.
\<close>

section \<open>The random generator\<close>

type_synonym draws = "nat \<Rightarrow> rat"

definition unit_draws :: "draws \<Rightarrow> bool" where
  "unit_draws rng = (\<forall>i. 0 \<le> rng i \<and> rng i < 1)"

definition uniform :: "rat \<Rightarrow> rat \<Rightarrow> rat \<Rightarrow> rat" where
  "uniform a b x = a + (b - a) * x"

text \<open>\<^verbatim>\<open>round(x, 2)\<close>: to the nearest cent, to the even one from the middle.\<close>

definition round_half_even :: "rat \<Rightarrow> int" where
  "round_half_even x =
     (let f = \<lfloor>x\<rfloor>; r = x - of_int f
      in if r < 1 / 2 then f else if 1 / 2 < r then f + 1 else if even f then f else f + 1)"

definition round2 :: "rat \<Rightarrow> rat" where
  "round2 x = of_int (round_half_even (100 * x)) / 100"

section \<open>The mock agent\<close>

record mock_agent =
  failure_rate :: rat
  refund_rate :: rat
  latency_range :: "rat \<times> rat"
  confidence_range :: "rat \<times> rat"
  m_model :: string

definition default_agent :: mock_agent where
  "default_agent = \<lparr> failure_rate = 1 / 10, refund_rate = 1 / 10, latency_range = (0, 0),
     confidence_range = (8 / 10, 1), m_model = ''primary'' \<rparr>"

definition primary_agent :: "rat \<Rightarrow> mock_agent" where
  "primary_agent latency_max = default_agent\<lparr> latency_range := (0, latency_max) \<rparr>"

definition fallback_agent :: mock_agent where
  "fallback_agent = \<lparr> failure_rate = 0, refund_rate = 0, latency_range = (0, 0),
     confidence_range = (0, 6 / 10), m_model = ''fallback'' \<rparr>"

definition KEYWORD_CATEGORIES :: "(string \<times> ticket_category) list" where
  "KEYWORD_CATEGORIES =
     [(''refund'', BILLING), (''money'', BILLING), (''charge'', BILLING), (''invoice'', BILLING),
      (''crash'', TECHNICAL), (''error'', TECHNICAL), (''bug'', TECHNICAL),
      (''password'', ACCOUNT), (''login'', ACCOUNT)]"

definition APOSTROPHE :: string where
  "APOSTROPHE = [CHR 0x27]"

fun REPLY_TEMPLATES :: "ticket_category \<Rightarrow> string" where
  "REPLY_TEMPLATES BILLING = ''Thanks for reaching out about your billing concern. '' @
     ''I'' @ APOSTROPHE @ ''ve reviewed your account and here is what I can do.''"
| "REPLY_TEMPLATES TECHNICAL = ''Sorry you hit a technical issue. Please try the steps below - '' @
     ''we'' @ APOSTROPHE @ ''ve also flagged this to our engineers.''"
| "REPLY_TEMPLATES ACCOUNT = ''Thanks for contacting us about your account. '' @
     ''I'' @ APOSTROPHE @ ''ve checked your account settings and here is how to proceed.''"
| "REPLY_TEMPLATES GENERAL =
     ''Thanks for your message! Here is some information that should help.''"

text \<open>
  Each operation takes the stream and the position and returns its outcome and the new position.
\<close>

definition maybe_fail :: "mock_agent \<Rightarrow> draws \<Rightarrow> nat \<Rightarrow> (exn + unit) \<times> nat" where
  "maybe_fail A rng i =
     ((if rng i < failure_rate A then Inl (AgentOverloadedError ''mock agent backend overloaded'')
       else Inr ()), i + 1)"

definition maybe_sleep :: "mock_agent \<Rightarrow> draws \<Rightarrow> nat \<Rightarrow> rat option \<times> nat" where
  "maybe_sleep A rng i =
     (let (minimum, maximum) = latency_range A
      in if maximum \<le> 0 then (None, i) else (Some (uniform minimum maximum (rng i)), i + 1))"

definition confidence :: "mock_agent \<Rightarrow> draws \<Rightarrow> nat \<Rightarrow> rat \<times> nat" where
  "confidence A rng i =
     (let (minimum, maximum) = confidence_range A in (uniform minimum maximum (rng i), i + 1))"

definition ticket_text :: "ticket \<Rightarrow> string" where
  "ticket_text t = lower (subject t @ '' '' @ body t)"

definition keyword_category :: "string \<Rightarrow> ticket_category" where
  "keyword_category text =
     (case find (\<lambda>(keyword, cat). contains_str keyword text) KEYWORD_CATEGORIES of
        Some (keyword, cat) \<Rightarrow> cat
      | None \<Rightarrow> GENERAL)"

text \<open>The model constructors check the confidence bounds and the refund amount.\<close>

definition mock_classify :: "mock_agent \<Rightarrow> draws \<Rightarrow> nat \<Rightarrow> ticket \<Rightarrow> (exn + classification) \<times> nat" where
  "mock_classify A rng i t =
     (case maybe_fail A rng i of
        (Inl e, j) \<Rightarrow> (Inl e, j)
      | (Inr _, j) \<Rightarrow>
          (let (_, k) = maybe_sleep A rng j;
               (q, l) = confidence A rng k
           in (bindr (require (valid_confidence q) ''confidence'' ()) (\<lambda>_.
                 Inr \<lparr> category = keyword_category (ticket_text t), c_confidence = q,
                       c_model = m_model A \<rparr>), l)))"

definition mock_action :: "mock_agent \<Rightarrow> draws \<Rightarrow> nat \<Rightarrow> (exn + proposed_action) \<times> nat" where
  "mock_action A rng i =
     (if rng i < refund_rate A
      then (let amount = round2 (uniform 5 100 (rng (i + 1)))
            in (bindr (require (0 < amount) ''refund_amount'' ()) (\<lambda>_.
                  Inr \<lparr> a_type = REFUND, refund_amount = Some amount \<rparr>), i + 2))
      else (Inr \<lparr> a_type = REPLY_ONLY, refund_amount = None \<rparr>, i + 1))"

definition mock_draft_reply ::
  "mock_agent \<Rightarrow> draws \<Rightarrow> nat \<Rightarrow> ticket \<Rightarrow> classification \<Rightarrow> (exn + draft_reply) \<times> nat" where
  "mock_draft_reply A rng i t c =
     (case maybe_fail A rng i of
        (Inl e, j) \<Rightarrow> (Inl e, j)
      | (Inr _, j) \<Rightarrow>
          (let (_, k) = maybe_sleep A rng j
           in case mock_action A rng k of
                (Inl e, l) \<Rightarrow> (Inl e, l)
              | (Inr a, l) \<Rightarrow>
                  (let (q, m) = confidence A rng l
                   in (bindr (require (valid_confidence q) ''confidence'' ()) (\<lambda>_.
                         Inr \<lparr> reply_text = REPLY_TEMPLATES (category c), action = a,
                               d_confidence = q, d_model = m_model A \<rparr>), m))))"

section \<open>The interface of an agent\<close>

text \<open>
  What the workers use of an agent: two operations on the agent's own state, whose results are
  models, and so satisfy the constraints checked when a model is built.
\<close>

record 's agent =
  classify :: "'s \<Rightarrow> ticket \<Rightarrow> (exn + classification) \<times> 's"
  draft_reply_of :: "'s \<Rightarrow> ticket \<Rightarrow> classification \<Rightarrow> (exn + draft_reply) \<times> 's"

locale agent_backend =
  fixes A :: "'s agent"
  assumes classify_valid: "classify A s t = (Inr c, s') \<Longrightarrow> valid_classification c"
    and draft_valid: "draft_reply_of A s t c = (Inr d, s') \<Longrightarrow> valid_draft d"
begin

text \<open>An agent's answers reach the workflow unchanged, through their JSON form.\<close>

lemma classify_reaches:
  "good_coercion K \<Longrightarrow> classify A s t = (Inr c, s') \<Longrightarrow>
   classification_validate K (classification_dump c) = Inr c"
  using classify_valid by simp

lemma draft_reaches:
  "good_coercion K \<Longrightarrow> draft_reply_of A s t c = (Inr d, s') \<Longrightarrow>
   draft_validate K (draft_dump d) = Inr d"
  using draft_valid by simp

end

definition mock_backend :: "mock_agent \<Rightarrow> draws \<Rightarrow> nat agent" where
  "mock_backend A rng = \<lparr> classify = mock_classify A rng, draft_reply_of = mock_draft_reply A rng \<rparr>"

lemma mock_action_valid: "mock_action A rng i = (Inr a, j) \<Longrightarrow> valid_action a"
  by (auto simp: mock_action_def valid_action_def require_def Let_def bindr_Inr_iff
      split: if_splits)

lemma mock_classify_eq:
  "mock_classify A rng i t =
     (if rng i < failure_rate A
      then (Inl (AgentOverloadedError ''mock agent backend overloaded''), i + 1)
      else let k = snd (maybe_sleep A rng (i + 1)); q = fst (confidence A rng k)
           in (if valid_confidence q
               then Inr \<lparr> category = keyword_category (ticket_text t), c_confidence = q,
                          c_model = m_model A \<rparr>
               else Inl (ValidationError ''confidence''), snd (confidence A rng k)))"
  by (simp add: mock_classify_def maybe_fail_def require_def split_beta Let_def)

lemma mock_draft_eq:
  "mock_draft_reply A rng i t c =
     (if rng i < failure_rate A
      then (Inl (AgentOverloadedError ''mock agent backend overloaded''), i + 1)
      else case mock_action A rng (snd (maybe_sleep A rng (i + 1))) of
          (Inl e, l) \<Rightarrow> (Inl e, l)
        | (Inr a, l) \<Rightarrow>
            (if valid_confidence (fst (confidence A rng l))
             then Inr \<lparr> reply_text = REPLY_TEMPLATES (category c), action = a,
                        d_confidence = fst (confidence A rng l), d_model = m_model A \<rparr>
             else Inl (ValidationError ''confidence''), snd (confidence A rng l)))"
  unfolding mock_draft_reply_def maybe_fail_def require_def
  by (cases "fst (mock_action A rng (snd (maybe_sleep A rng (i + 1))))")
     (simp_all add: split_beta Let_def)

interpretation mock: agent_backend "mock_backend A rng" for A rng
proof
  fix s t c s'
  assume "classify (mock_backend A rng) s t = (Inr c, s')"
  then show "valid_classification c"
    by (auto simp: mock_backend_def mock_classify_eq valid_classification_def Let_def
        split: if_splits)
next
  fix s t c d s'
  assume "draft_reply_of (mock_backend A rng) s t c = (Inr d, s')"
  then show "valid_draft d"
    unfolding mock_backend_def agent.select_convs mock_draft_eq
    by (cases "mock_action A rng (snd (maybe_sleep A rng (s + 1)))";
        cases "fst (mock_action A rng (snd (maybe_sleep A rng (s + 1))))")
      (auto simp: valid_draft_def dest: mock_action_valid split: if_splits)
qed

section \<open>Bounds of the answers\<close>

lemma uniform_bounds:
  assumes "a \<le> b" and "0 \<le> x" and "x < 1"
  shows "a \<le> uniform a b x" and "uniform a b x \<le> b" and "a < b \<Longrightarrow> uniform a b x < b"
proof -
  have "0 \<le> (b - a) * x" using assms by simp
  then show "a \<le> uniform a b x" by (simp add: uniform_def)
  have "(b - a) * x \<le> (b - a) * 1" using assms by (intro mult_left_mono) simp_all
  then show "uniform a b x \<le> b" by (simp add: uniform_def)
  assume "a < b"
  then have "(b - a) * x < (b - a) * 1" using assms by (intro mult_strict_left_mono) simp_all
  then show "uniform a b x < b" by (simp add: uniform_def)
qed

lemma round_half_even_bounds:
  assumes "of_int m \<le> x" and "x < of_int n"
  shows "m \<le> round_half_even x" and "round_half_even x \<le> n"
proof -
  have "m \<le> \<lfloor>x\<rfloor>" using assms(1) by (simp add: le_floor_iff)
  then show "m \<le> round_half_even x" by (auto simp: round_half_even_def Let_def)
  have "\<lfloor>x\<rfloor> < n" using assms(2) by (simp add: floor_less_iff)
  then show "round_half_even x \<le> n" by (auto simp: round_half_even_def Let_def)
qed

lemma round2_bounds:
  assumes "5 \<le> x" and "x < 100"
  shows "5 \<le> round2 x" and "round2 x \<le> 100"
proof -
  have "(of_int 500 :: rat) \<le> 100 * x" "100 * x < of_int 10000" using assms by simp_all
  from round_half_even_bounds [OF this]
  have "500 \<le> round_half_even (100 * x)" "round_half_even (100 * x) \<le> 10000" .
  then have "(500 :: rat) \<le> of_int (round_half_even (100 * x))"
    "of_int (round_half_even (100 * x)) \<le> (10000 :: rat)" by linarith+
  then show "5 \<le> round2 x" "round2 x \<le> 100" by (simp_all add: round2_def)
qed

lemma mock_action_bounds:
  assumes "unit_draws rng" and "mock_action A rng i = (Inr a, j)" and "a_type a = REFUND"
  shows "\<exists>q. refund_amount a = Some q \<and> 5 \<le> q \<and> q \<le> 100"
proof -
  have r: "0 \<le> rng (i + 1)" "rng (i + 1) < 1" using assms(1) by (simp_all add: unit_draws_def)
  have u: "5 \<le> uniform 5 100 (rng (i + 1))" "uniform 5 100 (rng (i + 1)) < 100"
    using uniform_bounds [of 5 100, OF _ r] by simp_all
  show ?thesis using assms(2,3) round2_bounds [OF u]
    by (auto simp: mock_action_def require_def Let_def bindr_Inr_iff split: if_splits)
qed

lemma confidence_bounds:
  assumes "unit_draws rng" and "confidence_range A = (a, b)" and "a \<le> b"
  shows "a \<le> fst (confidence A rng i)" and "fst (confidence A rng i) \<le> b"
  using uniform_bounds [OF assms(3), of "rng i"] assms(1,2)
  by (simp_all add: confidence_def unit_draws_def)

section \<open>Activities\<close>

definition classify_ticket :: "'s agent \<Rightarrow> 's \<Rightarrow> ticket \<Rightarrow> (exn + classification) \<times> 's" where
  "classify_ticket A s t = classify A s t"

definition draft_reply_activity ::
  "'s agent \<Rightarrow> 's \<Rightarrow> ticket \<Rightarrow> classification \<Rightarrow> (exn + draft_reply) \<times> 's" where
  "draft_reply_activity A s t c = draft_reply_of A s t c"

definition send_reply ::
  "timestamp \<Rightarrow> ticket \<Rightarrow> string \<Rightarrow> nat \<Rightarrow> ledger_store \<Rightarrow> bool \<times> ledger_store" where
  "send_reply now t txt attempt_no L =
     readmodel_record_sent_reply now (id' t) (customer_email t) txt attempt_no L"

definition execute_refund ::
  "timestamp \<Rightarrow> string \<Rightarrow> rat \<Rightarrow> nat \<Rightarrow> ledger_store \<Rightarrow> bool \<times> ledger_store" where
  "execute_refund now tid amount attempt_no L =
     readmodel_record_refund now tid amount attempt_no L"

definition refund_recorded_activity :: "string \<Rightarrow> ledger_store \<Rightarrow> bool" where
  "refund_recorded_activity tid L = readmodel_refund_recorded tid L"

definition record_result :: "ticket_result \<Rightarrow> ledger_store \<Rightarrow> ledger_store" where
  "record_result r L = save_result r L"

end
