(* ===== verification/Workers.thy ===== *)
theory Workers
  imports Agent GraphProps WorkflowRuns
begin

text \<open>
  The queue workers: \<^verbatim>\<open>process_one_task\<close>, the routers \<^verbatim>\<open>_run_activity\<close> and
  \<^verbatim>\<open>run_finalize\<close>, the token bucket and the drain loop of
  \<^verbatim>\<open>src/ticketflow/agent_worker.py\<close>, \<^verbatim>\<open>side_effect_worker.py\<close> and
  \<^verbatim>\<open>fallback_worker.py\<close>. A router works on a state of its own: the agents' generator, or
  the ledgers.
\<close>

section \<open>Results of activities\<close>

datatype model =
    MClassification classification
  | MDraft draft_reply
  | MResult ticket_result

fun model_dump :: "model \<Rightarrow> json" where
  "model_dump (MClassification c) = classification_dump c"
| "model_dump (MDraft d) = draft_dump d"
| "model_dump (MResult r) = result_dump r"

text \<open>\<^verbatim>\<open>str(exc)\<close>.\<close>

fun exn_str :: "exn \<Rightarrow> string" where
  "exn_str (ValueError m) = m"
| "exn_str (TypeError m) = m"
| "exn_str (KeyError k) = quoted k"
| "exn_str AssertionError = []"
| "exn_str (RuntimeError m) = m"
| "exn_str (ValidationError m) = m"
| "exn_str (AgentOverloadedError m) = m"
| "exn_str (AgentPermanentError m) = m"
| "exn_str (UniqueViolation m) = m"
| "exn_str (UndefinedObject m) = m"
| "exn_str TimeoutException = []"
| "exn_str (HTTPError m) = m"
| "exn_str (HTTPException n m) = show_int n @ '': '' @ m"
| "exn_str (BatchTimeoutError m) = m"
| "exn_str (AttributeError m) = m"

type_synonym 'a router = "task \<Rightarrow> 'a \<Rightarrow> (exn + model) \<times> 'a"

section \<open>Agent tasks\<close>

text \<open>\<^verbatim>\<open>X.model_validate(task.payload[key])\<close>.\<close>

definition payload_field :: "(json \<Rightarrow> exn + 'x) \<Rightarrow> string \<Rightarrow> task \<Rightarrow> exn + 'x" where
  "payload_field validate key task =
     (case jget (payload task) key of None \<Rightarrow> Inl (KeyError key) | Some j \<Rightarrow> validate j)"

definition run_activity :: "'k coercion_scheme \<Rightarrow> 's agent \<Rightarrow> 's router" where
  "run_activity K A task s =
     (if task_type task = ''classify''
      then (case payload_field ticket_validate ''ticket'' task of
              Inl e \<Rightarrow> (Inl e, s)
            | Inr t \<Rightarrow> (let (r, s') = classify_ticket A s t in (map_sum id MClassification r, s')))
      else if task_type task = ''draft''
      then (case bindr (payload_field ticket_validate ''ticket'' task) (\<lambda>t.
                 bindr (payload_field (classification_validate K) ''classification'' task) (\<lambda>c.
                 Inr (t, c))) of
              Inl e \<Rightarrow> (Inl e, s)
            | Inr (t, c) \<Rightarrow> (let (r, s') = draft_reply_activity A s t c
                            in (map_sum id MDraft r, s')))
      else (Inl (ValueError (''unexpected agent task_type '' @ quoted (task_type task))), s))"

section \<open>Finalizing\<close>

text \<open>
  \<^verbatim>\<open>run_finalize\<close>: each activity commits on its own, at \<^verbatim>\<open>now1\<close> and \<^verbatim>\<open>now2\<close>.
\<close>

definition pays :: "proposed_action \<Rightarrow> ticket_result \<Rightarrow> bool" where
  "pays a r = (r_status r = RESOLVED \<and> a_type a = REFUND)"

definition run_finalize ::
  "'k coercion_scheme \<Rightarrow> timestamp \<Rightarrow> timestamp \<Rightarrow> ledger_store router" where
  "run_finalize K now1 now2 task L =
     (if task_type task \<noteq> ''finalize_ticket''
      then (Inl (ValueError (''unexpected side-effect task_type '' @ quoted (task_type task))), L)
      else
        case bindr (payload_field ticket_validate ''ticket'' task) (\<lambda>t.
             bindr (payload_field (action_validate K) ''action'' task) (\<lambda>a.
             bindr (payload_field (result_validate K) ''result'' task) (\<lambda>r.
             Inr (t, a, r)))) of
          Inl e \<Rightarrow> (Inl e, L)
        | Inr (t, a, r) \<Rightarrow>
            (case (if pays a r
                   then (case refund_amount a of
                           None \<Rightarrow> Inl AssertionError
                         | Some amount \<Rightarrow>
                             (let L1 = snd (execute_refund now1 (id' t) amount (attempts task) L)
                              in Inr (refund_recorded_activity (id' t) L1, L1)))
                   else Inr (False, L)) of
               Inl e \<Rightarrow> (Inl e, L)
             | Inr (executed, L1) \<Rightarrow>
                 (let L2 = snd (send_reply now2 t (r_reply_text r) (attempts task) L1);
                      r' = r\<lparr> refund_executed := executed \<rparr>
                  in (Inr (MResult r'), record_result r' L2))))"

section \<open>One task\<close>

definition complete_task :: "int \<Rightarrow> json \<Rightarrow> task_table \<Rightarrow> task_status option \<times> task_table" where
  "complete_task i res q = complete i res q"

definition fail_task ::
  "timestamp \<Rightarrow> int \<Rightarrow> string \<Rightarrow> bool \<Rightarrow> task_table \<Rightarrow> task_status option \<times> task_table" where
  "fail_task now i err perm q = fail now i err perm q"

fun is_permanent :: "exn \<Rightarrow> bool" where
  "is_permanent (AgentPermanentError m) = True"
| "is_permanent _ = False"

text \<open>
  The two commits after the activity: the task is settled, and its run is woken when that
  settled it for good.
\<close>

definition settle_task ::
  "timestamp \<Rightarrow> task \<Rightarrow> exn + model \<Rightarrow> task_table \<Rightarrow> bool \<times> task_table" where
  "settle_task now task out q =
     (case out of
        Inl e \<Rightarrow> (let (status, q') = fail_task now (t_id task) (exn_str e) (is_permanent e) q
                 in (status = Some Failed, q'))
      | Inr m \<Rightarrow> (let (status, q') = complete_task (t_id task) (model_dump m) q
                 in (status = Some Done, q')))"

definition process_one_task ::
  "'a router \<Rightarrow> timestamp \<Rightarrow> timestamp \<Rightarrow> timestamp \<Rightarrow> int set \<Rightarrow> string \<Rightarrow> string
     \<Rightarrow> task_table \<times> run_store \<times> 'a \<Rightarrow> bool \<times> task_table \<times> run_store \<times> 'a" where
  "process_one_task run now1 now2 now3 locked qn w S =
     (case S of (q, rs, a) \<Rightarrow>
        (case dequeue now1 locked qn w q of
           (None, q1) \<Rightarrow> (False, q1, rs, a)
         | (Some task, q1) \<Rightarrow>
             (let (out, a1) = run task a;
                  (wake, q2) = settle_task now2 task out q1
              in (True, q2, if wake then wake_run now3 (t_workflow_id task) rs else rs, a1))))"

section \<open>What processing a task does to the tables\<close>

lemma other_task_kept:
  assumes "\<And>r. t_id (f r) = t_id r" and "\<And>r. P r \<Longrightarrow> t_id r = j" and "i \<noteq> j"
  shows "task_by_id i (q\<lparr> t_rows := update_where P f (t_rows q) \<rparr>) = task_by_id i q"
proof (cases "task_by_id i q")
  case (Some r)
  then show ?thesis using assms task_by_id_Some [OF Some] by (auto simp: task_by_id_update)
qed (simp add: task_by_id_update assms(1))

lemma complete_leased:
  assumes "wf_queue q" and "task_by_id i q = Some r" and "t_status r = Leased"
  shows "fst (complete i res q) = Some Done"
    and "task_by_id i (snd (complete i res q)) = Some (complete_row res r)"
    and "j \<noteq> i \<Longrightarrow> task_by_id j (snd (complete i res q)) = task_by_id j q"
proof -
  have "find (leased_with_id i) (t_rows q) = Some r" "leased_with_id i r"
    using find_leased [OF assms(1), of i] assms(2,3) task_by_id_Some [OF assms(2)]
    by (auto simp: leased_with_id_def)
  then show "fst (complete i res q) = Some Done"
    and "task_by_id i (snd (complete i res q)) = Some (complete_row res r)"
    using assms(2) by (simp_all add: complete_def complete_row_def task_by_id_update)
  show "j \<noteq> i \<Longrightarrow> task_by_id j (snd (complete i res q)) = task_by_id j q"
    by (simp add: complete_def, rule other_task_kept [where j = i])
       (simp_all add: complete_row_def leased_with_id_def)
qed

lemma fail_leased:
  assumes "wf_queue q" and "task_by_id i q = Some r" and "t_status r = Leased"
  shows "fst (fail now i err perm q) = Some (t_status (fail_row now err perm r))"
    and "task_by_id i (snd (fail now i err perm q)) = Some (fail_row now err perm r)"
    and "j \<noteq> i \<Longrightarrow> task_by_id j (snd (fail now i err perm q)) = task_by_id j q"
proof -
  have "find (leased_with_id i) (t_rows q) = Some r" "leased_with_id i r"
    using find_leased [OF assms(1), of i] assms(2,3) task_by_id_Some [OF assms(2)]
    by (auto simp: leased_with_id_def)
  then show "fst (fail now i err perm q) = Some (t_status (fail_row now err perm r))"
    and "task_by_id i (snd (fail now i err perm q)) = Some (fail_row now err perm r)"
    using assms(2) by (simp_all add: fail_def fail_row_def task_by_id_update)
  show "j \<noteq> i \<Longrightarrow> task_by_id j (snd (fail now i err perm q)) = task_by_id j q"
    by (simp add: fail_def, rule other_task_kept [where j = i])
       (simp_all add: fail_row_def leased_with_id_def)
qed

text \<open>The row a settled task leaves, and whether its run is woken.\<close>

definition settled_row :: "timestamp \<Rightarrow> exn + model \<Rightarrow> task \<Rightarrow> task" where
  "settled_row now out r =
     (case out of Inl e \<Rightarrow> fail_row now (exn_str e) (is_permanent e) r
      | Inr m \<Rightarrow> complete_row (model_dump m) r)"

lemma settle_leased:
  assumes "wf_queue q" and "task_by_id (t_id r) q = Some r" and "t_status r = Leased"
    and "settle_task now r out q = (wake, q')"
  shows "wake \<longleftrightarrow> settled (settled_row now out r)"
    and "task_by_id (t_id r) q' = Some (settled_row now out r)"
    and "j \<noteq> t_id r \<Longrightarrow> task_by_id j q' = task_by_id j q"
proof -
  have "(wake \<longleftrightarrow> settled (settled_row now out r)) \<and>
    task_by_id (t_id r) q' = Some (settled_row now out r) \<and>
    (j \<noteq> t_id r \<longrightarrow> task_by_id j q' = task_by_id j q)" for j
    using assms(4) complete_leased(1,2) [OF assms(1-3)] complete_leased(3) [OF assms(1-3), of j]
      fail_leased(1,2) [OF assms(1-3)] fail_leased(3) [OF assms(1-3), of j]
    by (cases out)
      (auto simp: settle_task_def settled_row_def complete_task_def fail_task_def settled_def
         complete_row_def fail_row_def split_beta)
  then show "wake \<longleftrightarrow> settled (settled_row now out r)"
    and "task_by_id (t_id r) q' = Some (settled_row now out r)"
    and "j \<noteq> t_id r \<Longrightarrow> task_by_id j q' = task_by_id j q" by blast+
qed

section \<open>Properties of the workers\<close>

text \<open>
  C10: one task through a worker: nothing happens when no task is due; otherwise one due task of
  the queue is leased, counted and run, and it is done with the model's JSON as its result, or
  pending again after the backoff with the error's text, or failed when the error is permanent
  or the attempts are used up; its run is woken exactly when it is done or failed, and no other
  task changes.
\<close>

theorem process_one_task_correct:
  assumes "wf_queue q"
    and "process_one_task run now1 now2 now3 locked qn w (q, rs, a) = (b, q', rs', a')"
  shows "if \<not> b then \<not> list_ex (due_in now1 qn locked) (t_rows q) \<and> (q', rs', a') = (q, rs, a)
    else \<exists>r \<in> set (t_rows q). \<exists>r'. due_in now1 qn locked r \<and>
      (let leased = lease_row now1 w r; out = fst (run leased a) in
       a' = snd (run leased a) \<and> task_by_id (t_id r) q' = Some r' \<and>
       attempts r' = attempts r + 1 \<and>
       (case out of
          Inr m \<Rightarrow> t_status r' = Done \<and> t_result r' = Some (model_dump m)
        | Inl e \<Rightarrow> t_error r' = Some (exn_str e) \<and>
            (if attempts r + 1 < max_attempts r \<and> \<not> is_permanent e
             then t_status r' = Pending \<and> available_at r' = now2 + seconds (2 ^ (attempts r + 1))
             else t_status r' = Failed)) \<and>
       rs' = (if t_status r' = Pending then rs else wake_run now3 (t_workflow_id r) rs) \<and>
       (\<forall>j. j \<noteq> t_id r \<longrightarrow> task_by_id j q' = task_by_id j q))"
proof (cases rule: dequeue_cases [of now1 locked qn w q])
  case none
  then show ?thesis using assms(2)
    by (auto simp: process_one_task_def list_ex_iff)
next
  case (some r)
  define leased where "leased = lease_row now1 w r"
  define q1 where "q1 = snd (dequeue now1 locked qn w q)"
  obtain out a1 where out: "run leased a = (out, a1)" by fastforce
  obtain wake q2 where settle: "settle_task now2 leased out q1 = (wake, q2)" by fastforce
  have wf1: "wf_queue q1" using assms(1) by (simp add: q1_def wf_dequeue)
  have q1: "q1 = q\<lparr> t_rows := update_where (\<lambda>x. t_id x = t_id r) (lease_row now1 w) (t_rows q) \<rparr>"
    using some by (simp add: q1_def)
  have at1: "task_by_id (t_id leased) q1 = Some leased"
    using task_by_id_row [OF assms(1) some(1)] by (simp add: q1 leased_def task_by_id_update)
  have other1: "j \<noteq> t_id r \<Longrightarrow> task_by_id j q1 = task_by_id j q" for j
    unfolding q1 by (rule other_task_kept [where j = "t_id r"]) simp_all
  have np: "\<not> permanent r"
    using assms(1) some by (auto simp: wf_queue_def wf_task_def due_in_def)
  note s = settle_leased [OF wf1 at1 _ settle]
  have res: "b" "q' = q2" "a' = a1"
    "rs' = (if wake then wake_run now3 (t_workflow_id leased) rs else rs)"
    using assms(2) some out settle
    by (auto simp: process_one_task_def q1_def leased_def split: if_splits)
  have "task_by_id (t_id r) q' = Some (settled_row now2 out leased)"
    "wake \<longleftrightarrow> settled (settled_row now2 out leased)"
    "j \<noteq> t_id r \<Longrightarrow> task_by_id j q' = task_by_id j q" for j
    using s other1 by (simp_all add: leased_def res)
  then have main: "due_in now1 qn locked r \<and>
      (let leased = lease_row now1 w r; out = fst (run leased a) in
       a' = snd (run leased a) \<and>
       task_by_id (t_id r) q' = Some (settled_row now2 out leased) \<and>
       attempts (settled_row now2 out leased) = attempts r + 1 \<and>
       (case out of
          Inr m \<Rightarrow> t_status (settled_row now2 out leased) = Done \<and>
            t_result (settled_row now2 out leased) = Some (model_dump m)
        | Inl e \<Rightarrow> t_error (settled_row now2 out leased) = Some (exn_str e) \<and>
            (if attempts r + 1 < max_attempts r \<and> \<not> is_permanent e
             then t_status (settled_row now2 out leased) = Pending \<and>
               available_at (settled_row now2 out leased) = now2 + seconds (2 ^ (attempts r + 1))
             else t_status (settled_row now2 out leased) = Failed)) \<and>
       rs' = (if t_status (settled_row now2 out leased) = Pending then rs
              else wake_run now3 (t_workflow_id r) rs) \<and>
       (\<forall>j. j \<noteq> t_id r \<longrightarrow> task_by_id j q' = task_by_id j q))"
    using res some out np
    by (cases out) (auto simp: Let_def leased_def settled_row_def settled_def complete_row_def
        fail_row_def retryable_def backoff_def)
  show ?thesis unfolding eqTrueI [OF res(1)] not_True_eq_False if_False Let_def
    by (rule bexI [OF _ some(1)], rule exI, rule main [unfolded Let_def])
qed

definition demo_queue :: task_table where
  "demo_queue = snd (enqueue 0 ''a'' ''classify'' ''t1'' (classify_payload
     \<lparr> id' = ''t1'', customer_email = ''a@b.c'', subject = ''Hi'', body = ''login'' \<rparr>)
     ''t1:classify'' 3 None empty_queue)"

lemma wf_demo_queue: "wf_queue demo_queue"
  unfolding demo_queue_def by (rule wf_enqueue [OF wf_queue_empty])

definition bad_router :: "nat router" where
  "bad_router task a = (Inl (AgentPermanentError ''bad''), a + 1)"

theorem process_one_task_correct_witness:
  "\<exists>q' rs'. process_one_task bad_router 0 1 2 {} ''a'' ''w'' (demo_queue, one_run CLASSIFYING None, 0)
     = (True, q', rs', 1) \<and> (\<exists>r'. task_by_id 1 q' = Some r' \<and> t_status r' = Failed \<and>
         t_error r' = Some ''bad'') \<and> rs' = wake_run 2 ''t1'' (one_run CLASSIFYING None)"
proof -
  obtain b q' rs' a' where P: "process_one_task bad_router 0 1 2 {} ''a'' ''w''
      (demo_queue, one_run CLASSIFYING None, 0) = (b, q', rs', a')" by (rule prod_cases4)
  have due: "t_rows demo_queue = [r] \<Longrightarrow> due_in 0 ''a'' {} r" for r
    by (auto simp: demo_queue_def enqueue_def empty_queue_def due_in_def)
  have one: "\<exists>r. t_rows demo_queue = [r] \<and> t_id r = 1 \<and> t_workflow_id r = ''t1''"
    by (simp add: demo_queue_def enqueue_def empty_queue_def)
  show ?thesis
    using process_one_task_correct [OF wf_demo_queue P] one due P
    by (auto simp: bad_router_def Let_def split: if_splits)
qed

section \<open>Finalizing a ticket\<close>

text \<open>
  The commits of \<^verbatim>\<open>run_finalize\<close> one by one: a crash of the worker leaves a prefix of them.
\<close>

definition finalize_ops ::
  "timestamp \<Rightarrow> timestamp \<Rightarrow> nat \<Rightarrow> ticket \<Rightarrow> proposed_action \<Rightarrow> ticket_result \<Rightarrow> ledger_op list" where
  "finalize_ops now1 now2 n t a r =
     (if pays a r then [RecordRefund now1 (id' t) (the (refund_amount a)) n] else []) @
     [RecordReply now2 (id' t) (customer_email t) (r_reply_text r) n,
      SaveResult (r\<lparr> refund_executed := pays a r \<rparr>)]"

definition finalize_task :: "task \<Rightarrow> ticket \<Rightarrow> proposed_action \<Rightarrow> ticket_result \<Rightarrow> bool" where
  "finalize_task task t a r =
     (task_type task = ''finalize_ticket'' \<and> payload task = finalize_payload t a r)"

lemma finalize_payload_fields [simp]:
  "jget (finalize_payload t a r) ''ticket'' = Some (ticket_dump t)"
  "jget (finalize_payload t a r) ''action'' = Some (action_dump a)"
  "jget (finalize_payload t a r) ''result'' = Some (result_dump r)"
  by (simp_all add: finalize_payload_def)

lemma refund_recorded_after:
  "refund_recorded t (snd (record_refund now t amount n L))"
  by (simp add: refund_recorded_iff refund_of_after)

lemma run_finalize_ops:
  assumes "finalize_task task t a r" and "valid_action a" and "good_coercion K"
  shows "run_finalize K now1 now2 task L =
    (Inr (MResult (r\<lparr> refund_executed := pays a r \<rparr>)),
     fold ledger_apply (finalize_ops now1 now2 (attempts task) t a r) L)"
proof -
  have fields: "payload_field ticket_validate ''ticket'' task = Inr t"
    "payload_field (action_validate K) ''action'' task = Inr a"
    "payload_field (result_validate K) ''result'' task = Inr r"
    using assms by (simp_all add: payload_field_def finalize_task_def)
  have "pays a r \<Longrightarrow> \<exists>q. refund_amount a = Some q"
    using assms(2) by (auto simp: pays_def valid_action_def)
  then show ?thesis using assms(1) fields
    by (cases "pays a r")
      (auto simp: run_finalize_def finalize_task_def finalize_ops_def execute_refund_def
         refund_recorded_activity_def readmodel_defs refund_recorded_after send_reply_def
         record_result_def Let_def)
qed

text \<open>What any number of broken attempts can leave.\<close>

definition finalize_progress ::
  "ticket \<Rightarrow> proposed_action \<Rightarrow> ticket_result \<Rightarrow> ledger_store \<Rightarrow> bool" where
  "finalize_progress t a r L =
     (refund_of L (id' t) \<in> {None, if pays a r then refund_amount a else None} \<and>
      reply_of L (id' t) \<in> {None, Some (customer_email t, r_reply_text r)})"

lemma finalize_progress_op:
  assumes "finalize_progress t a r L" and "op \<in> set (finalize_ops now1 now2 n t a r)"
    and "valid_action a"
  shows "finalize_progress t a r (ledger_apply op L)"
  using assms
  by (auto simp: finalize_progress_def finalize_ops_def refund_of_after reply_of_after
      valid_action_def pays_def split: if_splits option.splits)

lemma finalize_progress_prefix:
  assumes "finalize_progress t a r L" and "set ops \<subseteq> set (finalize_ops now1 now2 n t a r)"
    and "valid_action a"
  shows "finalize_progress t a r (fold ledger_apply ops L)"
  using assms by (induction ops arbitrary: L) (auto intro: finalize_progress_op)

definition broken_attempt ::
  "ticket \<Rightarrow> proposed_action \<Rightarrow> ticket_result \<Rightarrow> nat \<times> timestamp \<times> timestamp \<times> nat \<Rightarrow> ledger_store
     \<Rightarrow> ledger_store" where
  "broken_attempt t a r = (\<lambda>(k, now1, now2, n) L.
     fold ledger_apply (take k (finalize_ops now1 now2 n t a r)) L)"

lemma finalize_progress_broken:
  assumes "finalize_progress t a r L" and "valid_action a"
  shows "finalize_progress t a r (fold (broken_attempt t a r) bs L)"
  using assms
  by (induction bs arbitrary: L)
    (auto simp: broken_attempt_def intro: finalize_progress_prefix [OF _ set_take_subset])

lemma wf_broken: "wf_ledger L \<Longrightarrow> wf_ledger (fold (broken_attempt t a r) bs L)"
  by (induction bs arbitrary: L) (auto simp: broken_attempt_def wf_ledger_fold)

lemma count_key:
  "distinct (map key rows) \<Longrightarrow>
   length (filter (\<lambda>x. key x = k) rows) = (if find_by key k rows = None then 0 else 1)"
  by (induction rows) (auto simp: filter_empty_conv image_iff dest!: find_by_Some)

lemma refund_count:
  "wf_ledger L \<Longrightarrow> length (filter (\<lambda>x. rf_ticket_id x = t) (refunds L)) =
     (if refund_of L t = None then 0 else 1)"
  by (simp add: refund_of_def wf_ledger_def count_key)

lemma reply_count:
  "wf_ledger L \<Longrightarrow> length (filter (\<lambda>x. rp_ticket_id x = t) (sent_replies L)) =
     (if reply_of L t = None then 0 else 1)"
  by (simp add: reply_of_def wf_ledger_def count_key)

text \<open>
  C7: finalizing is safe under crashes and retries: however many attempts at a ticket's finalize
  task broke off after however many of their commits, the attempt that gets through reports the
  refund exactly when the resolved ticket asked for one, and leaves exactly one refund of the
  drafted amount in that case (none otherwise) and exactly one reply, with the outcome's text.
\<close>

theorem finalize_crash_safe:
  assumes "finalize_task task t a r" and "valid_action a" and "good_coercion K"
    and "wf_ledger L" and "refund_of L (id' t) = None" and "reply_of L (id' t) = None"
  shows "let (out, L') = run_finalize K now1 now2 task (fold (broken_attempt t a r) bs L)
    in out = Inr (MResult (r\<lparr> refund_executed := pays a r \<rparr>)) \<and>
       refund_of L' (id' t) = (if pays a r then refund_amount a else None) \<and>
       reply_of L' (id' t) = Some (customer_email t, r_reply_text r) \<and>
       length (filter (\<lambda>x. rf_ticket_id x = id' t) (refunds L')) = (if pays a r then 1 else 0) \<and>
       length (filter (\<lambda>x. rp_ticket_id x = id' t) (sent_replies L')) = 1"
proof -
  define L1 where "L1 = fold (broken_attempt t a r) bs L"
  define L2 where "L2 = fold ledger_apply (finalize_ops now1 now2 (attempts task) t a r) L1"
  have "finalize_progress t a r L" using assms(5,6) by (simp add: finalize_progress_def)
  then have "finalize_progress t a r L1"
    unfolding L1_def by (rule finalize_progress_broken [OF _ assms(2)])
  then have kept: "refund_of L2 (id' t) = (if pays a r then refund_amount a else None)"
    "reply_of L2 (id' t) = Some (customer_email t, r_reply_text r)"
    using assms(2) by (auto simp: L2_def finalize_progress_def finalize_ops_def refund_of_after
        reply_of_after pays_def valid_action_def)
  have "wf_ledger L2" unfolding L2_def L1_def by (intro wf_ledger_fold wf_broken assms(4))
  from refund_count [OF this] reply_count [OF this] kept assms(2) show ?thesis
    unfolding L1_def [symmetric] run_finalize_ops [OF assms(1-3)]
    by (auto simp: L2_def pays_def valid_action_def)
qed

definition demo_finalize :: task where
  "demo_finalize = \<lparr> t_id = 1, queue_name = ''ticketflow'', task_type = ''finalize_ticket'',
     t_workflow_id = ''t1'',
     payload = finalize_payload demo_ticket (action demo_refund) demo_result,
     idempotency_key = ''t1:finalize'', t_status = Leased, attempts = 2, max_attempts = 3,
     available_at = 0, enqueued_at = 0, t_lease_owner = Some ''w'',
     t_lease_expires_at = Some (seconds 30), t_result = None, t_error = None,
     permanent = False \<rparr>"

theorem finalize_crash_safe_witness:
  "let L = fold (broken_attempt demo_ticket (action demo_refund) demo_result)
             [(1, 5, 6, 1)] empty_ledger;
       (out, L') = run_finalize strict_coercion 7 8 demo_finalize L
   in out = Inr (MResult (demo_result\<lparr> refund_executed := True \<rparr>)) \<and>
      refund_of L' ''t1'' = Some 25 \<and> reply_of L' ''t1'' = Some (''a@b.c'', ''Refunded.'')"
proof -
  have "finalize_task demo_finalize demo_ticket (action demo_refund) demo_result"
    by (simp add: finalize_task_def demo_finalize_def)
  from finalize_crash_safe [OF this _ good_strict_coercion wf_ledger_empty, of 7 8 "[(1, 5, 6, 1)]"]
  show ?thesis
    by (simp add: split_beta Let_def demo_ticket_def demo_refund_def
        demo_result_def pays_def valid_action_def)
qed

section \<open>Which drafts reach a human\<close>

text \<open>\<^verbatim>\<open>MockAgent.fallback()\<close> and the primary worker's agent as the workers run them.\<close>

definition fallback_backend :: "draws \<Rightarrow> nat agent" where
  "fallback_backend rng = mock_backend fallback_agent rng"

definition primary_backend :: "rat \<Rightarrow> draws \<Rightarrow> nat agent" where
  "primary_backend latency_max rng = mock_backend (primary_agent latency_max) rng"

lemma fallback_draft:
  assumes "unit_draws rng"
  shows "\<exists>d j. draft_reply_of (fallback_backend rng) i t c = (Inr d, j) \<and>
    action d = \<lparr> a_type = REPLY_ONLY, refund_amount = None \<rparr> \<and> needs_human d \<and>
    d_model d = ''fallback''"
proof -
  have r: "\<not> rng k < 0" for k using assms by (simp add: unit_draws_def not_less)
  define q where "q = fst (confidence fallback_agent rng (Suc (Suc i)))"
  have q: "0 \<le> q" "q \<le> 6 / 10"
    using confidence_bounds [OF assms, of fallback_agent 0 "6 / 10"]
    by (simp_all add: q_def fallback_agent_def)
  then have "valid_confidence q" "q < CONFIDENCE_THRESHOLD"
    by (simp_all add: valid_confidence_def CONFIDENCE_THRESHOLD_def)
  then show ?thesis using r
    by (simp add: fallback_backend_def mock_backend_def mock_draft_eq mock_action_def
        maybe_sleep_def fallback_agent_def q_def needs_human_def)
qed

lemma primary_draft:
  assumes "unit_draws rng" and "draft_reply_of (primary_backend lat rng) i t c = (Inr d, j)"
  shows "(needs_human d \<longleftrightarrow> a_type (action d) = REFUND) \<and>
    (a_type (action d) = REFUND \<longrightarrow> (\<exists>q. refund_amount (action d) = Some q \<and> 5 \<le> q \<and> q \<le> 100))"
proof -
  define A where "A = primary_agent lat"
  define k where "k = snd (maybe_sleep A rng (i + 1))"
  obtain a l where al: "mock_action A rng k = (Inr a, l)" and a: "action d = a"
    and q: "d_confidence d = fst (confidence A rng l)"
    using assms(2) unfolding primary_backend_def mock_backend_def agent.select_convs mock_draft_eq
    by (auto simp: A_def k_def split: if_splits prod.splits sum.splits)
  have "8 / 10 \<le> d_confidence d"
    using confidence_bounds(1) [OF assms(1), of A "8 / 10" 1 l] q
    by (simp add: A_def primary_agent_def default_agent_def)
  then show ?thesis using mock_action_bounds [OF assms(1) al] a
    by (auto simp: needs_human_def CONFIDENCE_THRESHOLD_def)
qed

text \<open>
  C27: which drafts reach a human: the fallback agent never fails, never proposes a refund, and
  its confidence is always below the approval threshold, so every fallback draft needs a human;
  a draft of the primary agent needs one exactly when it proposes a refund, which lies between
  5 and 100.
\<close>

theorem agent_drafts_gated:
  assumes "unit_draws rng"
  shows "(\<exists>d j. draft_reply_of (fallback_backend rng) i t c = (Inr d, j) \<and>
      a_type (action d) \<noteq> REFUND \<and> needs_human d) \<and>
    (case fst (draft_reply_of (primary_backend lat rng) i t c) of
       Inl e \<Rightarrow> True
     | Inr d \<Rightarrow> (needs_human d \<longleftrightarrow> a_type (action d) = REFUND) \<and>
         (a_type (action d) = REFUND \<longrightarrow>
            (\<exists>q. refund_amount (action d) = Some q \<and> 5 \<le> q \<and> q \<le> 100)))"
  using fallback_draft [OF assms, of i t c] primary_draft [OF assms, of lat i t c]
  by (cases "draft_reply_of (primary_backend lat rng) i t c") (fastforce split: sum.splits)

theorem agent_drafts_gated_witness:
  "\<exists>d j. draft_reply_of (fallback_backend (\<lambda>_. 1 / 2)) 0 demo_ticket demo_class = (Inr d, j) \<and>
     a_type (action d) \<noteq> REFUND \<and> needs_human d"
proof -
  have "unit_draws (\<lambda>_. 1 / 2)" by (simp add: unit_draws_def)
  from agent_drafts_gated [OF this] show ?thesis by blast
qed

end
