(* ===== verification/System.thy ===== *)
theory System
  imports Api Workers
begin

text \<open>
  The whole system as interleaved commits of its processes: the API, any number of runners with
  their janitor and retention sweep, and any number of queue workers, on the shared state and the
  ledgers. A process's crash is the absence of its next commit, so every commit is a step of its
  own and values a process has read may be stale when it uses them. The relation allows more than
  the processes do (any claim, save or wake of a run, any agent result), so what holds of every
  reachable state holds of the program's runs.
\<close>

section \<open>The system\<close>

text \<open>
  \<^verbatim>\<open>in_hand\<close> and \<^verbatim>\<open>leased\<close>: the resume values runners have read and the tasks workers
  have leased. Three fields are history: the ticket ids drawn so far (\<^verbatim>\<open>uuid4\<close> never draws
  one twice), the decisions the API has accepted, and the drafts a checkpoint has put before a
  human.
\<close>

record system =
  core :: shared
  money :: ledger_store
  in_hand :: "(string \<times> resume_value) set"
  leased :: "task set"
  drawn :: "string set"
  decisions :: "(string \<times> approval_decision) set"
  asked :: "(string \<times> draft_reply) set"

definition system_start :: system where
  "system_start = \<lparr> core = \<lparr> sq = empty_queue, sr = empty_runs, threads = [] \<rparr>,
     money = empty_ledger, in_hand = {}, leased = {}, drawn = {}, decisions = {}, asked = {} \<rparr>"

definition asks :: "string \<Rightarrow> thread \<Rightarrow> (string \<times> draft_reply) set" where
  "asks t th =
     (case (th_next th, s_draft (th_values th)) of (Some Await_approval, Some d) \<Rightarrow> {(t, d)} | _ \<Rightarrow> {})"

text \<open>
  The commits on the queue and on the runs that need nothing from the processes' memories; a
  decision reaches the signals through the API only, a task the queue through the graph only,
  and a result through a worker.
\<close>

definition free_queue_op :: "queue_op \<Rightarrow> bool" where
  "free_queue_op op = (case op of Enqueue _ _ _ _ _ _ _ _ \<Rightarrow> False | Complete _ _ \<Rightarrow> False | _ \<Rightarrow> True)"

definition free_run_op :: "run_op \<Rightarrow> bool" where
  "free_run_op op = (case op of AddSignal _ _ _ _ _ \<Rightarrow> False | _ \<Rightarrow> True)"

definition decode_finalize ::
  "'k coercion_scheme \<Rightarrow> task \<Rightarrow> exn + ticket \<times> proposed_action \<times> ticket_result" where
  "decode_finalize K task =
     bindr (payload_field ticket_validate ''ticket'' task) (\<lambda>t.
     bindr (payload_field (action_validate K) ''action'' task) (\<lambda>a.
     bindr (payload_field (result_validate K) ''result'' task) (\<lambda>r.
     Inr (t, a, r))))"

inductive sys_step :: "engine \<Rightarrow> 'e env_scheme \<Rightarrow> system \<Rightarrow> system \<Rightarrow> bool" for G E where
  create: "uuid \<notin> drawn s \<Longrightarrow>
    create_ticket G E clk now uuid req (core s) = (out, c) \<Longrightarrow>
    sys_step G E s (s\<lparr> core := c, drawn := insert uuid (drawn s) \<rparr>)"
| create_crash_early: "uuid \<notin> drawn s \<Longrightarrow>
    invoke_new G E True clk (initial_state (new_ticket uuid req)) (sq (core s)) = (res, th, q) \<Longrightarrow>
    sys_step G E s (s\<lparr> core := (core s)\<lparr> sq := q \<rparr>, drawn := insert uuid (drawn s) \<rparr>)"
| create_crash_late: "uuid \<notin> drawn s \<Longrightarrow>
    invoke_new G E True clk (initial_state (new_ticket uuid req)) (sq (core s)) = (res, th, q) \<Longrightarrow>
    sys_step G E s (s\<lparr> core := (core s)\<lparr> sq := q, threads := put_thread uuid th (threads (core s)) \<rparr>,
      drawn := insert uuid (drawn s) \<rparr>)"
| decide: "submit_approval now t dec (core s) = (out, c) \<Longrightarrow>
    sys_step G E s (s\<lparr> core := c,
      decisions := (if out = Inr AWAITING_APPROVAL then insert (t, dec) (decisions s)
                    else decisions s) \<rparr>)"
| run_commit: "free_run_op op \<Longrightarrow>
    sys_step G E s (s\<lparr> core := (core s)\<lparr> sr := run_apply op (sr (core s)) \<rparr> \<rparr>)"
| queue_commit: "free_queue_op op \<Longrightarrow>
    sys_step G E s (s\<lparr> core := (core s)\<lparr> sq := queue_apply op (sq (core s)) \<rparr> \<rparr>)"
| runner_read: "pending_envelope (thread_of t (core s)) = Some env \<Longrightarrow>
    resume_for_run (sq (core s)) (sr (core s)) env wk = Some rv \<Longrightarrow>
    sys_step G E s (s\<lparr> in_hand := insert (t, rv) (in_hand s) \<rparr>)"
| runner_invoke: "(t, rv) \<in> in_hand s \<Longrightarrow> thread_of t (core s) = Some th \<Longrightarrow> th_next th = Some n \<Longrightarrow>
    invoke_resume G E ua clk th n (rv_payload rv) (sq (core s)) = (res, th', q) \<Longrightarrow>
    sys_step G E s (s\<lparr> core := (core s)\<lparr> sq := q, threads := put_thread t th' (threads (core s)) \<rparr>,
      asked := asked s \<union> asks t th' \<rparr>)"
| runner_crash: "(t, rv) \<in> in_hand s \<Longrightarrow> thread_of t (core s) = Some th \<Longrightarrow> th_next th = Some n \<Longrightarrow>
    invoke_resume G E ua clk th n (rv_payload rv) (sq (core s)) = (res, th', q) \<Longrightarrow>
    sys_step G E s (s\<lparr> core := (core s)\<lparr> sq := q \<rparr> \<rparr>)"
| retention_delete: "sys_step G E s (s\<lparr> core := delete_thread t (core s) \<rparr>)"
| worker_lease: "dequeue now locked qn w (sq (core s)) = (Some task, q) \<Longrightarrow>
    sys_step G E s (s\<lparr> core := (core s)\<lparr> sq := q \<rparr>, leased := insert task (leased s) \<rparr>)"
| worker_finalize: "task \<in> leased s \<Longrightarrow> run_finalize E now1 now2 task (money s) = (out, L) \<Longrightarrow>
    sys_step G E s (s\<lparr> money := L \<rparr>)"
| worker_crash: "task \<in> leased s \<Longrightarrow> task_type task = ''finalize_ticket'' \<Longrightarrow>
    decode_finalize E task = Inr (t, a, r) \<Longrightarrow>
    sys_step G E s (s\<lparr> money :=
      fold ledger_apply (take k (finalize_ops now1 now2 (attempts task) t a r)) (money s) \<rparr>)"
| worker_complete: "task \<in> leased s \<Longrightarrow>
    sys_step G E s (s\<lparr> core := (core s)\<lparr>
      sq := snd (complete (t_id task) (model_dump m) (sq (core s))) \<rparr> \<rparr>)"

inductive reachable :: "engine \<Rightarrow> 'e env_scheme \<Rightarrow> system \<Rightarrow> bool" for G E where
  start: "reachable G E system_start"
| next_step: "reachable G E s \<Longrightarrow> sys_step G E s s' \<Longrightarrow> reachable G E s'"

section \<open>The invariant\<close>

text \<open>
  A resume value that claims to be a decision is one the API accepted for the ticket, and so is
  the decision of a checkpoint.
\<close>

type_synonym decision_log = "(string \<times> approval_decision) set"
type_synonym draft_log = "(string \<times> draft_reply) set"

definition clean :: "string \<Rightarrow> decision_log \<Rightarrow> json \<Rightarrow> bool" where
  "clean t lg v = (kind_is ''decision'' v \<longrightarrow> (\<exists>dec. v = decision_envelope dec \<and> (t, dec) \<in> lg))"

definition decision_logged :: "string \<Rightarrow> decision_log \<Rightarrow> ticket_state \<Rightarrow> bool" where
  "decision_logged t lg st = (\<forall>dec. s_decision st = Some dec \<longrightarrow> (t, dec) \<in> lg)"

text \<open>
  Where the draft of a state has been put before a human: at the gate once it is resumed, and
  after a decision; before, there is no decision.
\<close>

definition draft_asked :: "string \<Rightarrow> draft_log \<Rightarrow> node \<Rightarrow> bool \<Rightarrow> ticket_state \<Rightarrow> bool" where
  "draft_asked t ask n resumed st =
     (if n = Await_approval \<and> resumed \<or> n = Execute \<and> s_decision st \<noteq> None
      then \<forall>d. s_draft st = Some d \<longrightarrow> (t, d) \<in> ask
      else n = Await_approval \<or> s_decision st = None)"

text \<open>A finalize task that pays is one for a draft that a human approved; a result is no decision.\<close>

definition may_pay :: "decision_log \<Rightarrow> draft_log \<Rightarrow> string \<Rightarrow> proposed_action \<Rightarrow> bool" where
  "may_pay lg ask t a =
     (\<exists>dec d. (t, dec) \<in> lg \<and> approved dec \<and> (t, d) \<in> ask \<and> action d = a \<and> a_type a = REFUND)"

definition fin_ok :: "decision_log \<Rightarrow> draft_log \<Rightarrow> task \<Rightarrow> bool" where
  "fin_ok lg ask r = (task_type r = ''finalize_ticket'' \<longrightarrow>
     (\<exists>t a res. payload r = finalize_payload t a res \<and> (pays a res \<longrightarrow> may_pay lg ask (id' t) a)))"

definition result_ok_row :: "task \<Rightarrow> bool" where
  "result_ok_row r = (\<forall>j. t_result r = Some j \<longrightarrow> \<not> kind_is ''decision'' j)"

definition queue_ok :: "decision_log \<Rightarrow> draft_log \<Rightarrow> task_table \<Rightarrow> bool" where
  "queue_ok lg ask q = (\<forall>r \<in> set (t_rows q). fin_ok lg ask r \<and> result_ok_row r)"

definition signal_ok :: "decision_log \<Rightarrow> pending_signal \<Rightarrow> bool" where
  "signal_ok lg g = (sig_kind g = APPROVAL_DECISION_SIGNAL \<longrightarrow>
     (\<exists>dec. sig_payload g = decision_dump dec \<and> (sig_workflow_id g, dec) \<in> lg))"

definition env_ok :: "string \<Rightarrow> json \<Rightarrow> bool" where
  "env_ok t env = (kind_is ''approval_required'' env \<longrightarrow>
     jget env ''ticket_id'' = Some (JStr t) \<and> jget env ''workflow_id'' = None)"

definition thread_safe :: "string \<Rightarrow> decision_log \<Rightarrow> draft_log \<Rightarrow> thread \<Rightarrow> bool" where
  "thread_safe t lg ask th =
     ((\<exists>tk. id' tk = t \<and> thread_ok tk th) \<and> decision_logged t lg (th_values th) \<and>
      (\<forall>n. th_next th = Some n \<longrightarrow> draft_asked t ask n True (th_values th)) \<and>
      (\<forall>env. th_interrupt th = Some env \<longrightarrow> env_ok t env))"

text \<open>A ticket is asked about one draft: past the gate its checkpoint keeps the draft.\<close>

definition past_gate :: "draft_reply \<Rightarrow> thread \<Rightarrow> bool" where
  "past_gate d th = (s_draft (th_values th) = Some d \<and>
     (th_next th = None \<or> th_next th = Some Await_approval \<or> th_next th = Some Execute))"

definition asked_once :: "system \<Rightarrow> bool" where
  "asked_once s =
     ((\<forall>t th. thread_of t (core s) = Some th \<longrightarrow> t \<in> drawn s) \<and>
      (\<forall>t d. (t, d) \<in> asked s \<longrightarrow> t \<in> drawn s \<and>
         (\<forall>th. thread_of t (core s) = Some th \<longrightarrow> past_gate d th) \<and>
         (\<forall>d'. (t, d') \<in> asked s \<longrightarrow> d' = d)))"

definition paid_ok :: "decision_log \<Rightarrow> draft_log \<Rightarrow> refund_row \<Rightarrow> bool" where
  "paid_ok lg ask x = (\<exists>a. may_pay lg ask (rf_ticket_id x) a \<and> refund_amount a = Some (rf_amount x))"

definition sys_inv :: "system \<Rightarrow> bool" where
  "sys_inv s =
     ((\<forall>t th. thread_of t (core s) = Some th \<longrightarrow> thread_safe t (decisions s) (asked s) th) \<and>
      queue_ok (decisions s) (asked s) (sq (core s)) \<and>
      (\<forall>g \<in> set (signals (sr (core s))). signal_ok (decisions s) g) \<and>
      (\<forall>(t, rv) \<in> in_hand s. clean t (decisions s) (rv_payload rv)) \<and>
      (\<forall>task \<in> leased s. fin_ok (decisions s) (asked s) task) \<and>
      (\<forall>x \<in> set (refunds (money s)). paid_ok (decisions s) (asked s) x) \<and>
      wf_ledger (money s) \<and> asked_once s)"

section \<open>The graph keeps the queue safe\<close>

lemma pays_needs_human: "pays (action d) (expected_result t c d status) \<Longrightarrow>
   needs_human d \<and> status \<noteq> Some ESCALATED \<and> status \<noteq> Some REJECTED"
  by (auto simp: pays_def expected_result_def terminal_outcome_def needs_human_def split: if_splits)

lemma queue_ok_put:
  assumes "queue_ok lg ask q"
    and "ty = ''finalize_ticket'' \<Longrightarrow> \<exists>t a res. pl = finalize_payload t a res \<and> (pays a res \<longrightarrow> may_pay lg ask (id' t) a)"
  shows "queue_ok lg ask (put_task now qn ty wid pl key q)"
  using assms by (auto simp: queue_ok_def put_task_def enqueue_def fin_ok_def result_ok_row_def)

lemma queue_ok_update:
  assumes "queue_ok lg ask q"
    and "\<And>r. task_type (f r) = task_type r" and "\<And>r. payload (f r) = payload r"
    and "\<And>r. t_result (f r) = t_result r \<or> (\<exists>j. t_result (f r) = Some j \<and> \<not> kind_is ''decision'' j)"
  shows "queue_ok lg ask (q\<lparr> t_rows := update_where P f (t_rows q) \<rparr>)"
proof -
  have "fin_ok lg ask (f r) \<and> result_ok_row (f r)" if "fin_ok lg ask r \<and> result_ok_row r" for r
    using that assms(2-4) [of r] by (auto simp: fin_ok_def result_ok_row_def)
  then show ?thesis using assms(1) by (auto simp: queue_ok_def set_update_where)
qed

lemma queue_ok_cancel: "queue_ok lg ask q \<Longrightarrow> queue_ok lg ask (snd (cancel_pending key reason q))"
  unfolding cancel_pending_def Let_def snd_conv by (rule queue_ok_update) simp_all

lemma queue_ok_redispatch:
  assumes "queue_ok lg ask q" and "ty \<noteq> ''finalize_ticket''"
  shows "queue_ok lg ask (snd (redispatch_agent_task E ua now key ty wid pl q))"
  using queue_ok_cancel [OF assms(1), of key "''redispatched to fallback''"] assms(2)
  by (auto simp: redispatch_eq Let_def split: prod.splits intro: queue_ok_put)

lemma queue_ok_await:
  assumes "queue_ok lg ask q" and "ty \<noteq> ''finalize_ticket''"
  shows "queue_ok lg ask (snd (await_agent_task E ua now ty wid pl wk rs q))"
  using assms queue_ok_redispatch [OF assms, of E ua now "task_key wid ty" wid pl]
  by (auto simp: await_agent_task_def Let_def split: list.splits prod.splits)

lemma queue_ok_free: "queue_ok lg ask q \<Longrightarrow> free_queue_op op \<Longrightarrow> queue_ok lg ask (queue_apply op q)"
proof (cases op)
  case (Dequeue now locked qn w)
  assume "queue_ok lg ask q"
  then show ?thesis using Dequeue
    by (cases rule: dequeue_cases [of now locked qn w q]) (auto intro!: queue_ok_update)
next
  case (Fail now i err perm)
  assume "queue_ok lg ask q"
  then show ?thesis using Fail
    by (simp add: fail_def) (rule queue_ok_update, simp_all add: fail_row_def)
next
  case (Prune now age)
  assume "queue_ok lg ask q"
  then show ?thesis using Prune by (auto simp: queue_ok_def prune_settled_def Let_def)
next
  case (ReclaimTasks now)
  assume "queue_ok lg ask q"
  then show ?thesis using ReclaimTasks
    by (simp add: reclaim_expired_def) (rule queue_ok_update, simp_all)
qed (simp_all add: free_queue_op_def queue_ok_cancel)

text \<open>What holds where a node starts, beside \<^verbatim>\<open>point_ok\<close>.\<close>

definition start_ok ::
  "decision_log \<Rightarrow> draft_log \<Rightarrow> ticket \<Rightarrow> node \<Rightarrow> ticket_state \<Rightarrow> json list \<Rightarrow> task_table \<Rightarrow> bool" where
  "start_ok lg ask t n st rs q =
     (point_ok t n st \<and> decision_logged (id' t) lg st \<and> draft_asked (id' t) ask n (rs \<noteq> []) st \<and>
      queue_ok lg ask q \<and> (n = Await_approval \<longrightarrow> (\<forall>v \<in> set rs. clean (id' t) lg v)))"

definition end_ok ::
  "decision_log \<Rightarrow> draft_log \<Rightarrow> ticket \<Rightarrow> node \<Rightarrow> outcome \<Rightarrow> task_table \<Rightarrow> bool" where
  "end_ok lg ask t n out q' =
     (queue_ok lg ask q' \<and>
      (case out of
         Return st' \<Rightarrow> decision_logged (id' t) lg st' \<and>
           (\<forall>m. next_node n st' = Some m \<longrightarrow> draft_asked (id' t) ask m False st')
       | Interrupt env \<Rightarrow> env_ok (id' t) env
       | Raise e \<Rightarrow> True))"

lemma decision_of_clean:
  assumes "clean t lg v" and "kind_is ''decision'' v" and "good_coercion E"
    and "decision_validate E (case jget v ''decision'' of Some j \<Rightarrow> j | None \<Rightarrow> JNull) = Inr dec"
  shows "(t, dec) \<in> lg"
  using assms by (auto simp: clean_def decision_envelope_def)

lemma await_approval_end:
  assumes "start_ok lg ask t Await_approval st rs q" and "good_coercion E"
  shows "end_ok lg ask t Await_approval (await_approval E st rs) q"
  using assms decision_of_clean [OF _ _ assms(2)]
  by (auto simp: start_ok_def end_ok_def await_approval_def decision_logged_def env_ok_def
      draft_asked_def point_ok_def kind_is_def split: option.splits list.splits sum.splits)

lemma execute_end:
  assumes "start_ok lg ask t Execute st rs q"
  shows "end_ok lg ask t Execute (fst (execute E ua now st rs q)) (snd (execute E ua now st rs q))"
proof -
  obtain d c where st: "s_ticket st = Some t" "s_draft st = Some d" "s_classification st = Some c"
    using assms by (auto simp: start_ok_def point_ok_def drafted_def)
  have "pays (action d) (expected_result t c d (s_status st)) \<Longrightarrow> may_pay lg ask (id' t) (action d)"
    using pays_needs_human [of d t c "s_status st"] assms st(2)
    by (force simp: start_ok_def point_ok_def gate_ok_def decision_logged_def draft_asked_def
        may_pay_def pays_def)
  then have "queue_ok lg ask (put_task now (TASK_QUEUE E) ''finalize_ticket'' (id' t)
      (finalize_payload t (action d) (expected_result t c d (s_status st)))
      (task_key (id' t) ''finalize'') q)"
    using assms by (intro queue_ok_put) (auto simp: start_ok_def)
  then show ?thesis using st assms
    by (auto simp: end_ok_def execute_def env_ok_def kind_is_def Let_def start_ok_def
        decision_logged_def split: list.splits sum.splits)
qed

lemma await_env_no_kind:
  "await_agent_task E ua now ty wid pl wk rs q = (Suspended env, q') \<Longrightarrow> env_ok t env"
  by (auto simp: await_agent_task_def await_envelope_def env_ok_def kind_is_def Let_def
      split: list.splits if_splits prod.splits)

lemma await_agent_queue:
  "await_agent_task E ua now ty wid pl wk rs q = (a, q') \<Longrightarrow> queue_ok lg ask q \<Longrightarrow>
   ty \<noteq> ''finalize_ticket'' \<Longrightarrow> queue_ok lg ask q'"
  using queue_ok_await [of lg ask q ty E ua now wid pl wk rs] by simp

lemma node_end:
  assumes "start_ok lg ask t n st rs q" and "good_coercion E"
    and "body_of E ua clk n st rs q = (out, q')"
  shows "end_ok lg ask t n out q'"
proof (cases n)
  case Await_classify
  then show ?thesis using assms
    by (auto simp: body_of_def await_classify_def start_ok_def end_ok_def decision_logged_def
        draft_asked_def dest: await_env_no_kind await_agent_queue [where lg = lg]
        split: option.splits prod.splits awaited.splits if_splits sum.splits)
next
  case Await_draft
  then show ?thesis using assms
    by (auto simp: body_of_def await_draft_def start_ok_def end_ok_def decision_logged_def
        draft_asked_def dest: await_env_no_kind await_agent_queue [where lg = lg]
        split: option.splits prod.splits awaited.splits if_splits sum.splits)
next
  case Await_approval
  then show ?thesis using assms await_approval_end [of lg ask t st rs q E] by (auto simp: body_of_def)
next
  case Execute
  then show ?thesis using assms execute_end [of lg ask t st rs q E ua "clk Execute"]
    by (auto simp: body_of_def)
qed (use assms in \<open>auto simp: body_of_def dispatch_classify_def dispatch_draft_def
       decide_approval_def prepare_approval_def start_ok_def end_ok_def decision_logged_def
       draft_asked_def split: option.splits intro!: queue_ok_put\<close>)

definition result_safe :: "decision_log \<Rightarrow> draft_log \<Rightarrow> ticket \<Rightarrow> drive_result \<Rightarrow> bool" where
  "result_safe lg ask t res =
     (case res of
        Parked n st rs env \<Rightarrow> decision_logged (id' t) lg st \<and> env_ok (id' t) env \<and>
          draft_asked (id' t) ask n (rs \<noteq> []) st
      | Finished st \<Rightarrow> decision_logged (id' t) lg st
      | Crashed e n st \<Rightarrow> True)"

lemma thread_safe_mono:
  "thread_safe t lg ask th \<Longrightarrow> lg \<subseteq> lg' \<Longrightarrow> ask \<subseteq> ask' \<Longrightarrow> thread_safe t lg' ask' th"
  by (auto simp: thread_safe_def decision_logged_def draft_asked_def split: if_splits)

context langgraph
begin

lemma drive_safe:
  assumes "start_ok lg ask t n st rs q" and "good_coercion E"
    and "drive G (body_of E ua clk) n st rs q = (res, q')"
  shows "result_safe lg ask t res \<and> queue_ok lg ask q'"
proof -
  have "case drive G (body_of E ua clk) n st rs q of
      (Parked n' st' rs' env, q') \<Rightarrow> decision_logged (id' t) lg st' \<and> env_ok (id' t) env \<and>
        draft_asked (id' t) ask n' (rs' \<noteq> []) st' \<and> queue_ok lg ask q'
    | (Finished st', q') \<Rightarrow> decision_logged (id' t) lg st' \<and> queue_ok lg ask q'
    | (Crashed e n' st', q') \<Rightarrow> queue_ok lg ask q'"
  proof (rule drive_inv [where I = "start_ok lg ask t"
        and P = "\<lambda>n st rs env q. decision_logged (id' t) lg st \<and> env_ok (id' t) env \<and>
          draft_asked (id' t) ask n (rs \<noteq> []) st \<and> queue_ok lg ask q"
        and F = "\<lambda>st q. decision_logged (id' t) lg st \<and> queue_ok lg ask q"
        and C = "\<lambda>e n st q. queue_ok lg ask q"])
    fix n st rs q
    assume pre: "start_ok lg ask t n st rs q"
    obtain out q' where b: "body_of E ua clk n st rs q = (out, q')" by fastforce
    have "point_ok t n st" using pre by (simp add: start_ok_def)
    from node_step [OF this, where E = E and ua = ua and clk = clk and rs = rs and q = q]
      node_end [OF pre assms(2) b] pre b
    show "case body_of E ua clk n st rs q of
        (Return st', q') \<Rightarrow> (case next_node n st' of
            None \<Rightarrow> decision_logged (id' t) lg st' \<and> queue_ok lg ask q'
          | Some m \<Rightarrow> start_ok lg ask t m st' [] q')
      | (Interrupt env, q') \<Rightarrow> decision_logged (id' t) lg st \<and> env_ok (id' t) env \<and>
          draft_asked (id' t) ask n (rs \<noteq> []) st \<and> queue_ok lg ask q'
      | (Raise e, q') \<Rightarrow> queue_ok lg ask q'"
      by (auto simp: step_ok_def end_ok_def start_ok_def split: outcome.splits option.splits)
  qed (fact assms(1))
  then show ?thesis using assms(3) by (auto simp: result_safe_def split: drive_result.splits)
qed

lemma persist_safe:
  assumes "result_safe lg ask t res" and "result_ok t res" and "\<not> (\<exists>e n st. res = Crashed e n st)"
    and "th = persist G old res"
  shows "thread_safe (id' t) lg (ask \<union> asks (id' t) th) th"
proof (cases res)
  case (Parked n st rs env)
  then show ?thesis using assms
    by (auto simp: thread_safe_def persist_parked result_safe_def draft_asked_def asks_def
        thread_ok_def result_ok_def decision_logged_def split: if_splits)
next
  case (Finished st)
  then show ?thesis using assms
    by (auto simp: thread_safe_def persist_finished result_safe_def thread_ok_def result_ok_def)
qed (use assms(3) in blast)

lemma invoke_new_safe:
  assumes "invoke_new G E ua clk (initial_state t) q = (res, th, q')"
    and "queue_ok lg ask q" and "good_coercion E"
  shows "thread_safe (id' t) lg ask th \<and> queue_ok lg ask q'"
proof -
  have "start_ok lg ask t start_node (initial_state t) [] q"
    using assms(2) by (simp add: start_ok_def point_ok_def start_node_def initial_state_def
        decision_logged_def draft_asked_def)
  from drive_safe [OF this assms(3), of ua clk] have d: "result_safe lg ask t res \<and> queue_ok lg ask q'"
    using assms(1) by (auto simp: invoke_new_def split: prod.splits)
  obtain n st env where p: "res = Parked n st [] env" "th = parked_thread n st env" "n = Await_classify"
    using start_ticket [of E ua clk t q] assms(1) by (auto simp: Let_def)
  have "th = persist G None res" using assms(1) by (auto simp: invoke_new_def split: prod.splits)
  from persist_safe [OF _ _ _ this] d invoke_new_ok [OF assms(1)] p show ?thesis
    by (auto simp: asks_def parked_thread_def)
qed

lemma invoke_resume_safe:
  assumes "invoke_resume G E ua clk th n v q = (res, th', q')" and "th_next th = Some n"
    and "thread_safe t lg ask th" and "queue_ok lg ask q" and "clean t lg v" and "good_coercion E"
  shows "thread_safe t lg (ask \<union> asks t th') th' \<and> queue_ok lg ask q'"
proof -
  obtain tk where tk: "id' tk = t" "thread_ok tk th" using assms(3) by (auto simp: thread_safe_def)
  have ok: "point_ok tk n (th_values th)" "rs_ok n (th_resumes th)"
    using tk(2) assms(2) by (simp_all add: thread_ok_def)
  have st: "start_ok lg ask tk n (th_values th) (th_resumes th @ [v]) q"
    using ok assms(2-5) tk(1) by (auto simp: start_ok_def thread_safe_def rs_ok_def)
  have d: "drive G (body_of E ua clk) n (th_values th) (th_resumes th @ [v]) q = (res, q')"
    and th': "th' = persist G (Some th) res"
    using assms(1) by (auto simp: invoke_resume_def split: prod.splits)
  note safe = drive_safe [OF st assms(6) d]
  show ?thesis
  proof (cases "\<exists>e m st. res = Crashed e m st")
    case True
    then obtain e m st where "res = Crashed e m st" by blast
    moreover from this have "m = n" using drive_crash [OF ok(1)] d by blast
    ultimately have "th' = th" using th' persist_crashed_same [OF assms(2)] by simp
    then show ?thesis using safe thread_safe_mono [OF assms(3)] by simp
  next
    case False
    from persist_safe [OF _ _ this th'] safe invoke_resume_ok [OF tk(2) assms(2,1)] tk(1)
    show ?thesis by auto
  qed
qed

text \<open>Past the gate, the draft stays.\<close>

lemma invoke_past_gate:
  assumes "invoke_resume G E ua clk th n v q = (res, th', q')" and "th_next th = Some n"
    and "past_gate d th"
  shows "past_gate d th'"
proof -
  define held where "held = (\<lambda>m (st :: ticket_state).
    (m = Await_approval \<or> m = Execute) \<and> s_draft st = Some d)"
  have "case drive G (body_of E ua clk) n (th_values th) (th_resumes th @ [v]) q of
      (Parked n' st' rs' env, q') \<Rightarrow> held n' st'
    | (Finished st', q') \<Rightarrow> s_draft st' = Some d
    | (Crashed e n' st', q') \<Rightarrow> held n' st'"
  proof (rule drive_inv [where I = "\<lambda>m st rs q. held m st" and P = "\<lambda>m st rs env q. held m st"
        and F = "\<lambda>st q. s_draft st = Some d" and C = "\<lambda>e m st q. held m st"])
    fix m st rs q
    assume "held m st"
    then show "case body_of E ua clk m st rs q of
        (Return st', q') \<Rightarrow> (case next_node m st' of None \<Rightarrow> s_draft st' = Some d | Some m' \<Rightarrow> held m' st')
      | (Interrupt env, q') \<Rightarrow> held m st
      | (Raise e, q') \<Rightarrow> held m st"
      by (auto simp: held_def body_of_def await_approval_def execute_def Let_def
          split: option.splits list.splits sum.splits if_splits)
  qed (use assms(2,3) in \<open>auto simp: held_def past_gate_def\<close>)
  then have res: "case res of Parked n' st' rs' env \<Rightarrow> held n' st' | Finished st' \<Rightarrow> s_draft st' = Some d
      | Crashed e n' st' \<Rightarrow> held n' st'" and th': "th' = persist G (Some th) res"
    using assms(1) by (auto simp: invoke_resume_def split: prod.splits drive_result.splits)
  show ?thesis
  proof (cases res)
    case (Crashed e m st)
    then show ?thesis
      using res th' assms(3)
      by (cases "th_next th = Some m")
        (auto simp: past_gate_def held_def persist_crashed_same persist_crashed_later)
  qed (use res th' in \<open>auto simp: past_gate_def held_def persist_parked persist_finished\<close>)
qed

end

section \<open>The other commits\<close>

lemma clean_mono: "clean t lg v \<Longrightarrow> lg \<subseteq> lg' \<Longrightarrow> clean t lg' v"
  by (auto simp: clean_def)

lemma may_pay_mono: "may_pay lg ask t a \<Longrightarrow> lg \<subseteq> lg' \<Longrightarrow> ask \<subseteq> ask' \<Longrightarrow> may_pay lg' ask' t a"
  by (auto simp: may_pay_def)

lemma fin_ok_mono: "fin_ok lg ask r \<Longrightarrow> lg \<subseteq> lg' \<Longrightarrow> ask \<subseteq> ask' \<Longrightarrow> fin_ok lg' ask' r"
  by (fastforce simp: fin_ok_def intro: may_pay_mono)

lemma queue_ok_mono: "queue_ok lg ask q \<Longrightarrow> lg \<subseteq> lg' \<Longrightarrow> ask \<subseteq> ask' \<Longrightarrow> queue_ok lg' ask' q"
  by (auto simp: queue_ok_def intro: fin_ok_mono)

lemma signal_ok_mono: "signal_ok lg g \<Longrightarrow> lg \<subseteq> lg' \<Longrightarrow> signal_ok lg' g"
  by (fastforce simp: signal_ok_def)

lemma paid_ok_mono: "paid_ok lg ask x \<Longrightarrow> lg \<subseteq> lg' \<Longrightarrow> ask \<subseteq> ask' \<Longrightarrow> paid_ok lg' ask' x"
  by (auto simp: paid_ok_def intro: may_pay_mono)

lemma clean_resume:
  assumes "resume_for_run q rs env wk = Some rv" and "env_ok t env"
    and "queue_ok lg ask q" and "\<forall>g \<in> set (signals rs). signal_ok lg g"
  shows "clean t lg (rv_payload rv)"
proof (cases "approval_resume_value rs env")
  case (Some rv')
  then have rv: "rv = rv'" using assms(1) by (simp add: resume_for_run_def resume_value_of_def)
  have k: "kind_is ''approval_required'' env"
    using Some by (simp add: approval_resume_value_def split: if_splits)
  then have tid: "jget env ''ticket_id'' = Some (JStr t)" using assms(2) by (simp add: env_ok_def)
  show ?thesis
  proof (cases "t = []")
    case False
    then obtain g where g: "first_by (\<lambda>g. (sig_created_at g, sig_id g))
        (filter (waiting_decision t) (signals rs)) = Some g"
      and p: "rv_payload rv = JObj [(''kind'', JStr ''decision''), (''decision'', sig_payload g)]"
      using Some k tid by (auto simp: approval_resume_value_def py_or_def rv)
    have "g \<in> set (signals rs)" "waiting_decision t g" using first_by_Some(1) [OF g] by auto
    then obtain dec where "sig_payload g = decision_dump dec" "(t, dec) \<in> lg"
      using assms(4) by (auto simp: signal_ok_def waiting_decision_def)
    then show ?thesis by (auto simp: p clean_def decision_envelope_def)
  next
    case True
    then have False using Some k tid assms(2)
      by (simp add: approval_resume_value_def py_or_def env_ok_def)
    then show ?thesis ..
  qed
next
  case None
  show ?thesis using assms(1,3) None
    by (auto simp: resume_for_run_def resume_value_of_def clean_def kind_is_def failed_payload_def
        timeout_envelope_def find_Some_iff queue_ok_def result_ok_row_def all_set_conv_all_nth
        split: option.splits json.splits if_splits)
qed

lemma signals_free_op:
  assumes "free_run_op op" and "\<forall>g \<in> set (signals s). signal_ok lg g"
  shows "\<forall>g \<in> set (signals (run_apply op s)). signal_ok lg g"
proof (cases op)
  case (ClaimRun now locked w)
  then show ?thesis using assms(2)
    by (cases rule: claim_run_cases [of now locked w s]) auto
next
  case (SaveRun now t st wk c)
  then show ?thesis using assms(2)
    by (cases c) (auto simp: save_run_def Let_def set_update_where signal_ok_def)
qed (use assms in \<open>auto simp: free_run_op_def reclaim_expired_runs_def archive_terminal_runs_def
      prune_consumed_signals_def create_run_def wake_run_def Let_def\<close>)

lemma model_no_decision: "\<not> kind_is ''decision'' (model_dump m)"
  by (cases m) (simp_all add: kind_is_def classification_dump_def draft_dump_def result_dump_def)

lemma queue_ok_complete:
  "queue_ok lg ask q \<Longrightarrow> queue_ok lg ask (snd (complete i (model_dump m) q))"
  unfolding complete_def snd_conv
  by (rule queue_ok_update) (simp_all add: complete_row_def model_no_decision)

lemma submit_safe:
  assumes "submit_approval now t dec c = (out, c')"
    and "\<forall>g \<in> set (signals (sr c)). signal_ok lg g"
    and "lg' = (if out = Inr AWAITING_APPROVAL then insert (t, dec) lg else lg)"
  shows "sq c' = sq c" and "threads c' = threads c"
    and "\<forall>g \<in> set (signals (sr c')). signal_ok lg' g"
proof -
  show "sq c' = sq c" "threads c' = threads c"
    using assms(1) by (auto simp: submit_approval_def split: prod.splits option.splits)
  have mono: "\<forall>g \<in> set (signals (sr c)). signal_ok lg' g"
    using assms(2) signal_ok_mono [of lg _ lg'] by (metis assms(3) subset_insertI subset_refl)
  show "\<forall>g \<in> set (signals (sr c')). signal_ok lg' g"
  proof -
    have "signals (sr c') = signals (sr c) \<or> (out = Inr AWAITING_APPROVAL \<and>
        (\<exists>g. signals (sr c') = signals (sr c) @ [g] \<and> sig_payload g = decision_dump dec \<and>
           sig_workflow_id g = t))"
      using assms(1) by (auto simp: submit_approval_def add_pending_signal_if_waiting_def
          split: prod.splits option.splits if_splits)
    then show ?thesis
    proof (elim disjE exE conjE)
      fix g assume g: "out = Inr AWAITING_APPROVAL" "signals (sr c') = signals (sr c) @ [g]"
        "sig_payload g = decision_dump dec" "sig_workflow_id g = t"
      then have "signal_ok lg' g" using assms(3) by (auto simp: signal_ok_def)
      then show ?thesis using mono g(2) by simp
    qed (use mono in simp)
  qed
qed

lemma leased_fin_ok:
  assumes "queue_ok lg ask q" and "dequeue now locked qn w q = (Some task, q')"
  shows "fin_ok lg ask task" and "queue_ok lg ask q'"
proof -
  show "queue_ok lg ask q'"
    using queue_ok_free [OF assms(1), of "Dequeue now locked qn w"] assms(2)
    by (simp add: free_queue_op_def)
  show "fin_ok lg ask task" using assms
    by (cases rule: dequeue_cases [of now locked qn w q]) (auto simp: queue_ok_def fin_ok_def)
qed

lemma decoded_payload:
  assumes "decode_finalize K task = Inr (t, a, r)" and "payload task = finalize_payload t0 a0 r0"
    and "good_coercion K"
  shows "t = t0" and "a = a0" and "r = r0"
proof -
  have "x = a0" if "action_validate K (action_dump a0) = Inr x" for x
    using that assms(3)
    by (cases "refund_amount a0")
      (auto simp: action_validate_def bindr_Inr_iff field_Inr field_default_Inr action_dump_def
        good_coercion_def split: if_splits)
  then show "t = t0" and "a = a0" and "r = r0"
    using assms by (auto simp: decode_finalize_def payload_field_def bindr_Inr_iff)
qed

lemma finalize_ops_safe:
  assumes "\<forall>x \<in> set (refunds L). paid_ok lg ask x" and "wf_ledger L"
    and "pays a r \<longrightarrow> may_pay lg ask (id' t) a \<and> refund_amount a \<noteq> None"
  shows "(\<forall>x \<in> set (refunds (fold ledger_apply (take k (finalize_ops now1 now2 n t a r)) L)).
      paid_ok lg ask x) \<and>
    wf_ledger (fold ledger_apply (take k (finalize_ops now1 now2 n t a r)) L)"
proof -
  have op: "\<forall>x \<in> set (refunds (ledger_apply op L)). paid_ok lg ask x"
    if "op \<in> set (finalize_ops now1 now2 n t a r)" "\<forall>x \<in> set (refunds L). paid_ok lg ask x" for op L
    using that assms(3)
    by (auto simp: finalize_ops_def record_refund_def record_sent_reply_def save_result_def Let_def
        paid_ok_def split: if_splits) blast
  have "\<forall>x \<in> set (refunds (fold ledger_apply ops L)). paid_ok lg ask x"
    if "set ops \<subseteq> set (finalize_ops now1 now2 n t a r)" "\<forall>x \<in> set (refunds L). paid_ok lg ask x"
    for ops L
    using that by (induction ops arbitrary: L) (auto dest: op)
  from this [OF set_take_subset assms(1)] show ?thesis by (simp add: wf_ledger_fold assms(2))
qed

lemma acreate_signals [simp]: "signals (acreate_run now t st wk s) = signals s"
  by simp

lemma create_ticket_parts:
  assumes "create_ticket G E clk now uuid req S = (out, c)"
    and "invoke_new G E True clk (initial_state (new_ticket uuid req)) (sq S) = (res, th, q)"
  shows "sq c = q" and "threads c = put_thread uuid th (threads S)"
    and "signals (sr c) = signals (sr S)"
  using assms by (auto simp: create_ticket_def new_ticket_def [symmetric] Let_def
      split: drive_result.splits option.splits)

section \<open>Every step keeps the invariant\<close>

lemma sys_inv_parts:
  assumes "sys_inv s"
  shows "thread_of t (core s) = Some th \<Longrightarrow> thread_safe t (decisions s) (asked s) th"
    and "queue_ok (decisions s) (asked s) (sq (core s))"
    and "\<forall>g \<in> set (signals (sr (core s))). signal_ok (decisions s) g"
  using assms by (auto simp: sys_inv_def)

text \<open>The histories grow; what they vouch for is vouched for still.\<close>

lemma sys_inv_grow:
  assumes "sys_inv s" and "decisions s \<subseteq> lg" and "asked s \<subseteq> ask"
  shows "(\<forall>t th. thread_of t (core s) = Some th \<longrightarrow> thread_safe t lg ask th) \<and>
    queue_ok lg ask (sq (core s)) \<and> (\<forall>g \<in> set (signals (sr (core s))). signal_ok lg g) \<and>
    (\<forall>(t, rv) \<in> in_hand s. clean t lg (rv_payload rv)) \<and>
    (\<forall>task \<in> leased s. fin_ok lg ask task) \<and> (\<forall>x \<in> set (refunds (money s)). paid_ok lg ask x) \<and>
    wf_ledger (money s)"
  using assms(1) thread_safe_mono [OF _ assms(2,3)] queue_ok_mono [OF _ assms(2,3)]
    signal_ok_mono [OF _ assms(2)] clean_mono [OF _ assms(2)] fin_ok_mono [OF _ assms(2,3)]
    paid_ok_mono [OF _ assms(2,3)]
  by (fastforce simp: sys_inv_def)

lemma sys_inv_core:
  assumes "sys_inv s" and "threads c = threads (core s)"
    and "queue_ok (decisions s) (asked s) (sq c)"
    and "\<forall>g \<in> set (signals (sr c)). signal_ok (decisions s) g"
  shows "sys_inv (s\<lparr> core := c \<rparr>)"
  using assms by (simp add: sys_inv_def asked_once_def thread_of_def)

lemma sys_inv_queue:
  assumes "sys_inv s" and "queue_ok (decisions s) (asked s) q"
  shows "sys_inv (s\<lparr> core := (core s)\<lparr> sq := q \<rparr> \<rparr>)"
  by (rule sys_inv_core [OF assms(1)]) (use sys_inv_parts [OF assms(1)] assms(2) in simp_all)

lemma sys_inv_drawn: "sys_inv s \<Longrightarrow> sys_inv (s\<lparr> drawn := insert u (drawn s) \<rparr>)"
  by (auto simp: sys_inv_def asked_once_def)

text \<open>A thread under a new id, and one that went on.\<close>

lemma sys_inv_new_thread:
  assumes "sys_inv s" and "u \<notin> drawn s" and "threads c = put_thread u th (threads (core s))"
    and "thread_safe u (decisions s) (asked s) th" and "queue_ok (decisions s) (asked s) (sq c)"
    and "\<forall>g \<in> set (signals (sr c)). signal_ok (decisions s) g"
  shows "sys_inv (s\<lparr> core := c, drawn := insert u (drawn s) \<rparr>)"
  using assms by (auto simp: sys_inv_def asked_once_def thread_of_def)

lemma sys_inv_went_on:
  assumes "sys_inv s" and "thread_of u (core s) = Some th0"
    and "thread_safe u (decisions s) (asked s \<union> asks u th) th"
    and "queue_ok (decisions s) (asked s) q" and "\<And>d. past_gate d th0 \<Longrightarrow> past_gate d th"
  shows "sys_inv (s\<lparr> core := (core s)\<lparr> sq := q, threads := put_thread u th (threads (core s)) \<rparr>,
    asked := asked s \<union> asks u th \<rparr>)"
proof -
  let ?ask = "asked s \<union> asks u th"
  have once: "asked_once s" using assms(1) by (simp add: sys_inv_def)
  have asks: "asks u th = {} \<or> (\<exists>d. asks u th = {(u, d)} \<and> past_gate d th)"
    by (auto simp: asks_def past_gate_def split: option.splits node.splits)
  have "asked_once (s\<lparr> core := (core s)\<lparr> sq := q, threads := put_thread u th (threads (core s)) \<rparr>,
      asked := ?ask \<rparr>)"
    using once asks assms(2,5) by (auto simp: asked_once_def thread_of_def past_gate_def split: if_splits)
  moreover have "queue_ok (decisions s) ?ask q" by (rule queue_ok_mono [OF assms(4)]) auto
  moreover note sys_inv_grow [OF assms(1) subset_refl, of ?ask]
  ultimately show ?thesis using assms(3) by (auto simp: sys_inv_def thread_of_def split: if_splits)
qed

context langgraph
begin

lemma sys_inv_new:
  assumes "sys_inv s" and "good_coercion E"
    and "invoke_new G E True clk (initial_state (new_ticket uuid req)) (sq (core s)) = (res, th, q)"
  shows "thread_safe uuid (decisions s) (asked s) th" and "queue_ok (decisions s) (asked s) q"
  using invoke_new_safe [OF assms(3) _ assms(2), of "decisions s" "asked s"] assms(1)
  by (auto simp: sys_inv_def new_ticket_def)

lemma sys_inv_resumed:
  assumes "sys_inv s" and "good_coercion E" and "(t, rv) \<in> in_hand s"
    and "thread_of t (core s) = Some th" and "th_next th = Some n"
    and "invoke_resume G E ua clk th n (rv_payload rv) (sq (core s)) = (res, th', q)"
  shows "thread_safe t (decisions s) (asked s \<union> asks t th') th'"
    and "queue_ok (decisions s) (asked s) q"
proof -
  have "thread_safe t (decisions s) (asked s) th" "queue_ok (decisions s) (asked s) (sq (core s))"
    "clean t (decisions s) (rv_payload rv)"
    using assms(1,3,4) by (auto simp: sys_inv_def)
  from invoke_resume_safe [OF assms(6,5) this assms(2)]
  show "thread_safe t (decisions s) (asked s \<union> asks t th') th'"
    "queue_ok (decisions s) (asked s) q" by blast+
qed

end

lemma sys_inv_money:
  assumes "sys_inv s" and "\<forall>x \<in> set (refunds L). paid_ok (decisions s) (asked s) x" and "wf_ledger L"
  shows "sys_inv (s\<lparr> money := L \<rparr>)"
  using assms by (simp add: sys_inv_def asked_once_def)

lemma map_of_without:
  "map_of (filter (\<lambda>p. fst p \<noteq> t) ps) u = (if u = t then None else map_of ps u)"
  by (induction ps) auto

lemma run_finalize_decode:
  assumes "run_finalize K now1 now2 task L = (out, L')"
  shows "L' = L \<or> (\<exists>t a r. task_type task = ''finalize_ticket'' \<and>
    decode_finalize K task = Inr (t, a, r) \<and>
    L' = fold ledger_apply (finalize_ops now1 now2 (attempts task) t a r) L)"
proof (cases "task_type task = ''finalize_ticket''")
  case True
  note ft = this
  show ?thesis
  proof (cases "decode_finalize K task")
    case (Inl e)
    then show ?thesis using assms ft by (simp add: run_finalize_def decode_finalize_def [symmetric])
  next
    case (Inr tar)
    obtain t a r where tar: "tar = (t, a, r)" by (rule prod_cases3)
    have "L' = L \<or> L' = fold ledger_apply (finalize_ops now1 now2 (attempts task) t a r) L"
      using assms ft Inr tar
      by (cases "pays a r"; cases "refund_amount a")
        (simp_all add: run_finalize_def decode_finalize_def [symmetric] finalize_ops_def
          execute_refund_def send_reply_def record_result_def readmodel_defs
          refund_recorded_activity_def refund_recorded_after Let_def)
    then show ?thesis using ft Inr tar by blast
  qed
qed (use assms in \<open>simp add: run_finalize_def\<close>)

text \<open>What a leased finalize task may do to the ledger.\<close>

lemma decoded_may_pay:
  assumes "fin_ok lg ask task" and "task_type task = ''finalize_ticket''"
    and "decode_finalize K task = Inr (t, a, r)" and "good_coercion K"
  shows "pays a r \<longrightarrow> may_pay lg ask (id' t) a \<and> refund_amount a \<noteq> None"
proof -
  obtain t0 a0 r0 where p: "payload task = finalize_payload t0 a0 r0"
    "pays a0 r0 \<longrightarrow> may_pay lg ask (id' t0) a0" using assms(1,2) by (auto simp: fin_ok_def)
  obtain j where "action_validate K j = Inr a"
    using assms(3) by (auto simp: decode_finalize_def payload_field_def bindr_Inr_iff
        split: option.splits)
  then have "a_type a = REFUND \<Longrightarrow> refund_amount a \<noteq> None"
    by (auto simp: action_validate_def bindr_Inr_iff split: if_splits)
  then show ?thesis using p(2) decoded_payload [OF assms(3) p(1) assms(4)] by (simp add: pays_def)
qed

lemma sys_inv_finalize:
  assumes "sys_inv s" and "task \<in> leased s" and "task_type task = ''finalize_ticket''"
    and "decode_finalize K task = Inr (t, a, r)" and "good_coercion K"
  shows "sys_inv (s\<lparr> money :=
    fold ledger_apply (take k (finalize_ops now1 now2 n t a r)) (money s) \<rparr>)"
proof -
  have "fin_ok (decisions s) (asked s) task" using assms(1,2) by (auto simp: sys_inv_def)
  from finalize_ops_safe [OF _ _ decoded_may_pay [OF this assms(3-5)], of "money s" k now1 now2 n]
    assms(1) show ?thesis
    by (intro sys_inv_money [OF assms(1)]) (auto simp: sys_inv_def)
qed

lemma sys_inv_step:
  assumes "langgraph G" and "good_coercion E" and "sys_step G E s s'" and "sys_inv s"
  shows "sys_inv s'"
proof -
  note sys_inv_new = langgraph.sys_inv_new [OF assms(1,4,2)]
    and sys_inv_resumed = langgraph.sys_inv_resumed [OF assms(1,4,2)]
  note parts = sys_inv_parts [OF assms(4)]
  from assms(3,4) show ?thesis
  proof (cases rule: sys_step.cases)
    case (create uuid clk now req out c)
    obtain res th q where new: "invoke_new G E True clk (initial_state (new_ticket uuid req))
        (sq (core s)) = (res, th, q)" by (rule prod_cases3)
    note c = create_ticket_parts [OF create(3) new]
    show ?thesis unfolding create(1)
      by (rule sys_inv_new_thread [OF assms(4) create(2) c(2)])
        (use sys_inv_new [OF new] parts(3) c in simp_all)
  next
    case (create_crash_early uuid clk req res th q)
    from sys_inv_drawn [OF sys_inv_queue [OF assms(4) sys_inv_new(2) [OF create_crash_early(3)]], of uuid]
    show ?thesis by (simp add: create_crash_early(1))
  next
    case (create_crash_late uuid clk req res th q)
    show ?thesis unfolding create_crash_late(1)
      by (rule sys_inv_new_thread [OF assms(4) create_crash_late(2)])
        (use sys_inv_new [OF create_crash_late(3)] parts(3) in simp_all)
  next
    case (decide now t dec out c)
    define lg' where "lg' = (if out = Inr AWAITING_APPROVAL then insert (t, dec) (decisions s)
      else decisions s)"
    have sub: "decisions s \<subseteq> lg'" by (auto simp: lg'_def)
    note sub_ok = submit_safe [OF decide(2) parts(3) lg'_def]
    show ?thesis unfolding decide(1) lg'_def [symmetric]
      using sys_inv_grow [OF assms(4) sub subset_refl] sub_ok assms(4)
      by (auto simp: sys_inv_def asked_once_def thread_of_def)
  next
    case (run_commit op)
    show ?thesis unfolding run_commit(1)
      by (rule sys_inv_core [OF assms(4)])
        (use parts signals_free_op [OF run_commit(2) parts(3)] in simp_all)
  next
    case (queue_commit op)
    show ?thesis unfolding queue_commit(1)
      by (rule sys_inv_queue [OF assms(4) queue_ok_free [OF parts(2) queue_commit(2)]])
  next
    case (runner_read t env wk rv)
    from pending_Some [OF runner_read(2)] parts(1) have "env_ok t env"
      by (fastforce simp: thread_safe_def)
    from clean_resume [OF runner_read(3) this parts(2,3)] show ?thesis
      using assms(4) by (auto simp: runner_read(1) sys_inv_def asked_once_def)
  next
    case (runner_invoke t rv th n ua clk res th' q)
    show ?thesis unfolding runner_invoke(1)
      by (rule sys_inv_went_on [OF assms(4) runner_invoke(3) sys_inv_resumed [OF runner_invoke(2-5)]
            langgraph.invoke_past_gate [OF assms(1) runner_invoke(5,4)]])
  next
    case (runner_crash t rv th n ua clk res th' q)
    show ?thesis unfolding runner_crash(1)
      by (rule sys_inv_queue [OF assms(4) sys_inv_resumed(2) [OF runner_crash(2-5)]])
  next
    case (retention_delete t)
    have "thread_of u (delete_thread t (core s)) = Some th \<Longrightarrow> thread_of u (core s) = Some th" for u th
      by (simp add: thread_of_def delete_thread_def map_of_without split: if_splits)
    then show ?thesis using assms(4)
      by (auto simp: retention_delete(1) sys_inv_def asked_once_def)
        (auto simp: delete_thread_def)
  next
    case (worker_lease now locked qn w task q)
    from leased_fin_ok [OF parts(2) worker_lease(2)] show ?thesis
      using assms(4) by (auto simp: worker_lease(1) sys_inv_def asked_once_def thread_of_def)
  next
    case (worker_finalize task now1 now2 out L)
    from run_finalize_decode [OF worker_finalize(3)] show ?thesis
    proof (elim disjE exE conjE)
      assume "L = money s"
      then show ?thesis using assms(4) by (simp add: worker_finalize(1))
    next
      fix t a r
      assume d: "task_type task = ''finalize_ticket''" "decode_finalize E task = Inr (t, a, r)"
        and L: "L = fold ledger_apply (finalize_ops now1 now2 (attempts task) t a r) (money s)"
      from sys_inv_finalize [OF assms(4) worker_finalize(2) d assms(2), of
          "length (finalize_ops now1 now2 (attempts task) t a r)" now1 now2 "attempts task"]
      show ?thesis by (simp add: worker_finalize(1) L)
    qed
  next
    case (worker_crash task t a r k now1 now2)
    show ?thesis unfolding worker_crash(1)
      by (rule sys_inv_finalize [OF assms(4) worker_crash(2-4) assms(2)])
  next
    case (worker_complete task m)
    show ?thesis unfolding worker_complete(1)
      by (rule sys_inv_queue [OF assms(4) queue_ok_complete [OF parts(2)]])
  qed
qed

lemma sys_inv_start: "sys_inv system_start"
  by (simp add: sys_inv_def system_start_def thread_of_def queue_ok_def empty_queue_def
      empty_runs_def empty_ledger_def wf_ledger_def asked_once_def)

lemma reachable_inv:
  assumes "langgraph G" and "good_coercion E" and "reachable G E s"
  shows "sys_inv s"
  using assms(3) by (induction rule: reachable.induct) (auto intro: sys_inv_start sys_inv_step [OF assms(1,2)])

text \<open>
  C1: money moves only as a human approved it, and at most once: in every state the processes
  can reach, whatever they interleave and wherever they crash, every refund in the ledger belongs
  to a ticket for which the API has accepted an approving decision, its amount is that of the
  refund proposed by the draft the ticket's checkpoint put before the human, which is the only
  draft that was ever put there for this ticket, and no ticket has two refunds.
\<close>

theorem refund_only_if_approved:
  assumes "langgraph G" and "good_coercion E" and "reachable G E s"
    and "x \<in> set (refunds (money s))"
  shows "(\<exists>dec. (rf_ticket_id x, dec) \<in> decisions s \<and> approved dec) \<and>
    (\<exists>d. {d. (rf_ticket_id x, d) \<in> asked s} = {d} \<and> a_type (action d) = REFUND \<and>
       refund_amount (action d) = Some (rf_amount x)) \<and>
    length (filter (\<lambda>y. rf_ticket_id y = rf_ticket_id x) (refunds (money s))) = 1"
proof -
  have inv: "sys_inv s" by (rule reachable_inv [OF assms(1-3)])
  then have wf: "wf_ledger (money s)" and once: "asked_once s"
    and "paid_ok (decisions s) (asked s) x" using assms(4) by (auto simp: sys_inv_def)
  then obtain dec d where d: "(rf_ticket_id x, dec) \<in> decisions s" "approved dec"
    "(rf_ticket_id x, d) \<in> asked s" "a_type (action d) = REFUND"
    "refund_amount (action d) = Some (rf_amount x)" by (auto simp: paid_ok_def may_pay_def)
  then have "{d. (rf_ticket_id x, d) \<in> asked s} = {d}" using once by (auto simp: asked_once_def)
  moreover have "refund_of (money s) (rf_ticket_id x) \<noteq> None"
    using assms(4) by (auto simp: refund_of_def find_by_None)
  ultimately show ?thesis using refund_count [OF wf, of "rf_ticket_id x"] d by auto
qed

section \<open>A run of the system\<close>

text \<open>
  A concrete run: a billing ticket is created, classified and drafted with a refund, approved,
  and finalized. Its states have one thread; \<^verbatim>\<open>demo_row\<close> is a task of its queue.
\<close>

definition demo_row ::
  "int \<Rightarrow> string \<Rightarrow> string \<Rightarrow> json \<Rightarrow> string \<Rightarrow> task" where
  "demo_row i qn ty pl key = \<lparr> t_id = i, queue_name = qn, task_type = ty, t_workflow_id = ''t1'',
     payload = pl, idempotency_key = key, t_status = Pending, attempts = 0, max_attempts = 3,
     available_at = 0, enqueued_at = 0, t_lease_owner = None, t_lease_expires_at = None,
     t_result = None, t_error = None, permanent = False \<rparr>"

definition demo_done :: "task \<Rightarrow> json \<Rightarrow> task" where
  "demo_done r res = complete_row res (lease_row 0 ''w'' r)"

definition row_classify :: task where
  "row_classify = demo_row 1 ''ticketflow-agent'' ''classify'' (classify_payload demo_ticket)
     ''t1:classify''"

definition row_draft :: task where
  "row_draft = demo_row 2 ''ticketflow-agent'' ''draft'' (draft_payload demo_ticket demo_class)
     ''t1:draft''"

definition row_finalize :: task where
  "row_finalize = demo_row 3 ''ticketflow'' ''finalize_ticket''
     (finalize_payload demo_ticket (action demo_refund)
        (expected_result demo_ticket demo_class demo_refund (Some AWAITING_APPROVAL)))
     ''t1:finalize''"

definition done_classify :: task where
  "done_classify = demo_done row_classify (classification_dump demo_class)"

definition done_draft :: task where
  "done_draft = demo_done row_draft (draft_dump demo_refund)"

lemma demo_row_simps [simp]:
  "t_id (demo_row i qn ty pl key) = i" "queue_name (demo_row i qn ty pl key) = qn"
  "task_type (demo_row i qn ty pl key) = ty" "payload (demo_row i qn ty pl key) = pl"
  "idempotency_key (demo_row i qn ty pl key) = key" "t_status (demo_row i qn ty pl key) = Pending"
  "available_at (demo_row i qn ty pl key) = 0" "attempts (demo_row i qn ty pl key) = 0"
  "t_result (demo_row i qn ty pl key) = None"
  by (simp_all add: demo_row_def)

lemma demo_done_simps [simp]:
  "t_id (demo_done r res) = t_id r" "queue_name (demo_done r res) = queue_name r"
  "idempotency_key (demo_done r res) = idempotency_key r" "t_status (demo_done r res) = Done"
  "t_result (demo_done r res) = Some res"
  by (simp_all add: demo_done_def complete_row_def)

definition rows :: "task list \<Rightarrow> task_table" where
  "rows rs = \<lparr> t_rows = rs, t_seq = int (length rs) + 1 \<rparr>"

definition demo_state ::
  "task list \<Rightarrow> run_store \<Rightarrow> thread \<Rightarrow> ledger_store \<Rightarrow> (string \<times> resume_value) set \<Rightarrow> task set
     \<Rightarrow> decision_log \<Rightarrow> draft_log \<Rightarrow> system" where
  "demo_state rs R th M H L A Q = \<lparr> core = \<lparr> sq = rows rs, sr = R, threads = [(''t1'', th)] \<rparr>,
     money = M, in_hand = H, leased = L,
     drawn = {''t1''}, decisions = A, asked = Q \<rparr>"

abbreviation demo_reach :: "system \<Rightarrow> bool" where
  "demo_reach \<equiv> reachable ref_engine default_env"

lemma demo_put:
  "put_task 0 qn ty ''t1'' pl key (rows rs) =
    (if key \<in> idempotency_key ` set rs then (rows rs)\<lparr> t_seq := int (length rs) + 2 \<rparr>
     else rows (rs @ [demo_row (int (length rs) + 1) qn ty pl key]))"
  by (auto simp: put_task_def enqueue_def rows_def list_ex_iff demo_row_def default_max_attempts_def)

lemma demo_lease:
  assumes "demo_reach (demo_state rs R th M H L A Q)"
    and "filter (due_in 0 qn {}) rs = [r]" and "distinct (map t_id rs)"
  shows "demo_reach (demo_state (map (\<lambda>x. if t_id x = t_id r then lease_row 0 ''w'' x else x) rs) R th M H
    (insert (lease_row 0 ''w'' r) L) A Q)"
proof -
  have "dequeue 0 {} qn ''w'' (rows rs) = (Some (lease_row 0 ''w'' r),
      rows (map (\<lambda>x. if t_id x = t_id r then lease_row 0 ''w'' x else x) rs))"
    using assms(2) by (simp add: dequeue_def rows_def update_where_def)
  from next_step [OF assms(1) worker_lease] this show ?thesis
    by (fastforce simp: demo_state_def)
qed

lemma demo_complete:
  assumes "demo_reach (demo_state rs R th M H L A Q)" and "r \<in> L"
  shows "demo_reach (demo_state (map (\<lambda>x. if leased_with_id (t_id r) x
    then complete_row (model_dump m) x else x) rs) R th M H L A Q)"
  using next_step [OF assms(1) worker_complete [of r]] assms(2)
  by (simp add: demo_state_def rows_def complete_def update_where_def)

lemma demo_read:
  assumes "demo_reach (demo_state rs R th M H L A Q)" and "pending_envelope (Some th) = Some env"
    and "resume_for_run (rows rs) R env None = Some rv"
  shows "demo_reach (demo_state rs R th M (insert (''t1'', rv) H) L A Q)"
  using next_step [OF assms(1) runner_read [of "''t1''"]] assms(2,3)
  by (fastforce simp: demo_state_def thread_of_def)

lemma demo_invoke:
  assumes "demo_reach (demo_state rs R th M H L A Q)" and "(''t1'', rv) \<in> H" and "th_next th = Some n"
    and "invoke_resume ref_engine default_env True demo_clock th n (rv_payload rv) (rows rs)
      = (res, th', rows rs')"
  shows "demo_reach (demo_state rs' R th' M H L A (Q \<union> asks ''t1'' th'))"
proof -
  let ?s = "demo_state rs R th M H L A Q"
  have "sys_step ref_engine default_env ?s
      (?s\<lparr> core := (core ?s)\<lparr> sq := rows rs', threads := put_thread ''t1'' th' (threads (core ?s)) \<rparr>,
        asked := asked ?s \<union> asks ''t1'' th' \<rparr>)"
    by (rule runner_invoke [where rv = rv and th = th and n = n and ua = True and clk = demo_clock
          and res = res]) (use assms in \<open>simp_all add: demo_state_def thread_of_def\<close>)
  from next_step [OF assms(1) this] show ?thesis by (simp add: demo_state_def)
qed

lemma demo_created:
  "\<exists>R. demo_reach (demo_state [row_classify] R demo_classifying empty_ledger {} {} {} {}) \<and>
     (\<exists>r. runs R = [r] \<and> ticket_id r = ''t1'') \<and> signals R = [] \<and> sig_seq R = 1"
proof -
  let ?req = "\<lparr> req_customer_email = ''a@b.c'', req_subject = ''Charged twice'',
    req_body = ''Please refund me'' \<rparr>"
  have new: "\<lparr> id' = ''t1'', customer_email = ''a@b.c'', subject = ''Charged twice'',
      body = ''Please refund me'' \<rparr> = demo_ticket" by (simp add: demo_ticket_def)
  have t1: "id' demo_ticket = ''t1''" by (simp add: demo_ticket_def)
  have key: "task_key ''t1'' ''classify'' = ''t1:classify''" by (simp add: task_key_def)
  have q: "put_task 0 ''ticketflow-agent'' ''classify'' ''t1'' (classify_payload demo_ticket)
      ''t1:classify'' empty_queue = rows [row_classify]"
    using demo_put [of "''ticketflow-agent''" "''classify''" "classify_payload demo_ticket" "''t1:classify''" "[]"]
    by (simp add: rows_def empty_queue_def row_classify_def)
  obtain out c where ct: "create_ticket ref_engine default_env demo_clock 0 ''t1'' ?req
      (core system_start) = (out, c)" by fastforce
  have c: "sq c = rows [row_classify]" "threads c = [(''t1'', demo_classifying)]"
    "sr c = create_run 0 ''t1'' CLASSIFYING (s_wakeup_at (classifying default_env demo_clock demo_ticket))
       empty_runs"
    using ct ref_graph.start_ticket [of default_env True demo_clock demo_ticket empty_queue] q
    by (auto simp: create_ticket_def new Let_def system_start_def t1 key
        demo_classifying_def classifying_def demo_clock_def)
  have "demo_reach (system_start\<lparr> core := c, drawn := {''t1''} \<rparr>)"
    using next_step [OF start create [OF _ ct]] by (simp add: system_start_def)
  moreover have "system_start\<lparr> core := c, drawn := {''t1''} \<rparr> =
      demo_state [row_classify] (sr c) demo_classifying empty_ledger {} {} {} {}"
    using c by (cases c) (simp add: system_start_def demo_state_def)
  moreover have "(\<exists>r. runs (sr c) = [r] \<and> ticket_id r = ''t1'') \<and> signals (sr c) = [] \<and> sig_seq (sr c) = 1"
    by (simp add: c(3) create_run_def empty_runs_def)
  ultimately show ?thesis by metis
qed

definition with_payload :: "json \<Rightarrow> resume_value" where
  "with_payload j = \<lparr> rv_payload = j, consumed_signal_id = None \<rparr>"

lemma demo_keys:
  "id' demo_ticket = ''t1''" "task_key ''t1'' ''classify'' = ''t1:classify''"
  "task_key ''t1'' ''draft'' = ''t1:draft''" "task_key ''t1'' ''finalize'' = ''t1:finalize''"
  by (simp_all add: demo_ticket_def task_key_def)

lemma demo_drafted:
  "\<exists>R H L. demo_reach (demo_state [done_classify, row_draft] R demo_drafting empty_ledger H L {} {}) \<and>
     (\<exists>r. runs R = [r] \<and> ticket_id r = ''t1'') \<and> signals R = [] \<and> sig_seq R = 1"
proof -
  obtain R where R: "(\<exists>r. runs R = [r] \<and> ticket_id r = ''t1'') \<and> signals R = [] \<and> sig_seq R = 1"
    and 0: "demo_reach (demo_state [row_classify] R demo_classifying empty_ledger {} {} {} {})"
    using demo_created by blast
  let ?l = "lease_row 0 ''w'' row_classify"
  have 1: "demo_reach (demo_state [?l] R demo_classifying empty_ledger {} {?l} {} {})"
    using demo_lease [OF 0, of "''ticketflow-agent''" row_classify]
    by (simp add: due_in_def row_classify_def)
  have 2: "demo_reach (demo_state [done_classify] R demo_classifying empty_ledger {} {?l} {} {})"
    using demo_complete [OF 1, of ?l "MClassification demo_class"]
    by (simp add: done_classify_def demo_done_def leased_with_id_def)
  have env: "pending_envelope (Some demo_classifying) = Some (agent_envelope default_env ''t1''
      ''classify'' (s_wakeup_at (classifying default_env demo_clock demo_ticket)))"
    by (simp add: pending_envelope_def snapshot_interrupts_def demo_classifying_def parked_thread_def
        agent_envelope_def await_envelope_def demo_keys)
  have rv: "resume_for_run (rows [done_classify]) R (agent_envelope default_env ''t1''
      ''classify'' (s_wakeup_at (classifying default_env demo_clock demo_ticket))) None =
      Some (with_payload (classification_dump demo_class))"
    by (simp add: resume_for_run_def resume_value_of_def approval_resume_value_def kind_is_def
        agent_envelope_def await_envelope_def demo_keys rows_def task_ready_def done_classify_def
        row_classify_def with_payload_def)
  have 3: "demo_reach (demo_state [done_classify] R demo_classifying empty_ledger
      {(''t1'', with_payload (classification_dump demo_class))} {?l} {} {})"
    using demo_read [OF 2 env rv] by simp
  have put: "put_task 0 ''ticketflow-agent'' ''draft'' ''t1'' (draft_payload demo_ticket demo_class)
      ''t1:draft'' (rows [done_classify]) = rows [done_classify, row_draft]"
    unfolding demo_put by (simp add: done_classify_def row_classify_def row_draft_def)
  have inv: "\<exists>res. invoke_resume ref_engine default_env True demo_clock demo_classifying Await_classify
      (rv_payload (with_payload (classification_dump demo_class))) (rows [done_classify]) =
      (res, demo_drafting, rows [done_classify, row_draft])"
    using ref_graph.resume_classified [of default_env demo_class
        "classifying default_env demo_clock demo_ticket" demo_ticket demo_clock True demo_clock _
        "rows [done_classify]"] put
    by (simp add: Let_def demo_classifying_def demo_drafting_def classifying_def initial_state_def
        with_payload_def demo_keys demo_clock_def)
  then obtain res where inv: "invoke_resume ref_engine default_env True demo_clock demo_classifying
      Await_classify (rv_payload (with_payload (classification_dump demo_class))) (rows [done_classify]) =
      (res, demo_drafting, rows [done_classify, row_draft])" by blast
  have next_: "th_next demo_classifying = Some Await_classify"
    by (simp add: demo_classifying_def parked_thread_def)
  from demo_invoke [OF 3 _ next_ inv] R show ?thesis
    by (auto simp: asks_def demo_drafting_def parked_thread_def)
qed

lemma demo_waiting:
  "\<exists>R H L. demo_reach (demo_state [done_classify, done_draft] R demo_gated empty_ledger H L {}
     {(''t1'', demo_refund)}) \<and>
     (\<exists>r. runs R = [r] \<and> ticket_id r = ''t1'') \<and> signals R = [] \<and> sig_seq R = 1"
proof -
  obtain R H L where R: "(\<exists>r. runs R = [r] \<and> ticket_id r = ''t1'') \<and> signals R = [] \<and> sig_seq R = 1"
    and 0: "demo_reach (demo_state [done_classify, row_draft] R demo_drafting empty_ledger H L {} {})"
    using demo_drafted by blast
  let ?l = "lease_row 0 ''w'' row_draft"
  have 1: "demo_reach (demo_state [done_classify, ?l] R demo_drafting empty_ledger H (insert ?l L) {} {})"
    using demo_lease [OF 0, of "''ticketflow-agent''" row_draft]
    by (simp add: due_in_def row_draft_def done_classify_def row_classify_def)
  have 2: "demo_reach (demo_state [done_classify, done_draft] R demo_drafting empty_ledger H (insert ?l L) {} {})"
    using demo_complete [OF 1, of ?l "MDraft demo_refund"]
    by (simp add: done_draft_def demo_done_def leased_with_id_def done_classify_def row_classify_def
        row_draft_def) (simp add: complete_row_def)
  have env: "pending_envelope (Some demo_drafting) = Some (agent_envelope default_env ''t1''
      ''draft'' (s_wakeup_at (drafting default_env demo_clock demo_ticket demo_class)))"
    by (simp add: pending_envelope_def snapshot_interrupts_def demo_drafting_def parked_thread_def
        agent_envelope_def await_envelope_def demo_keys)
  have rv: "resume_for_run (rows [done_classify, done_draft]) R (agent_envelope default_env ''t1''
      ''draft'' (s_wakeup_at (drafting default_env demo_clock demo_ticket demo_class))) None =
      Some (with_payload (draft_dump demo_refund))"
    by (simp add: resume_for_run_def resume_value_of_def approval_resume_value_def kind_is_def
        agent_envelope_def await_envelope_def demo_keys rows_def task_ready_def done_classify_def
        row_classify_def done_draft_def row_draft_def with_payload_def)
  note 3 = demo_read [OF 2 env rv]
  have inv: "\<exists>res. invoke_resume ref_engine default_env True demo_clock demo_drafting Await_draft
      (rv_payload (with_payload (draft_dump demo_refund))) (rows [done_classify, done_draft]) =
      (res, demo_gated, rows [done_classify, done_draft])"
    using ref_graph.resume_drafted_gate [of default_env demo_refund True demo_clock demo_clock
        demo_ticket demo_class _ "rows [done_classify, done_draft]"]
    by (simp add: Let_def demo_drafting_def demo_gated_def with_payload_def)
  then obtain res where inv: "invoke_resume ref_engine default_env True demo_clock demo_drafting
      Await_draft (rv_payload (with_payload (draft_dump demo_refund))) (rows [done_classify, done_draft]) =
      (res, demo_gated, rows [done_classify, done_draft])" by blast
  have next_: "th_next demo_drafting = Some Await_draft"
    by (simp add: demo_drafting_def parked_thread_def)
  have "asks ''t1'' demo_gated = {(''t1'', demo_refund)}"
    by (simp add: asks_def demo_gated_def parked_thread_def gated_def decided_def)
  with demo_invoke [OF 3 _ next_ inv] R show ?thesis by auto
qed

text \<open>The decision arrives, and the runner that reads it queues the finalize task.\<close>

lemma demo_signalled:
  "\<exists>R H L. demo_reach (demo_state [done_classify, done_draft] R demo_gated empty_ledger H L
     {(''t1'', demo_yes)} {(''t1'', demo_refund)}) \<and>
     signals R = [\<lparr> sig_id = 1, sig_workflow_id = ''t1'', sig_kind = APPROVAL_DECISION_SIGNAL,
       sig_payload = decision_dump demo_yes, consumed = False, sig_created_at = 0,
       consumed_at = None \<rparr>]"
proof -
  obtain R H L r where R: "runs R = [r]" "ticket_id r = ''t1''" "signals R = []" "sig_seq R = 1"
    and 0: "demo_reach (demo_state [done_classify, done_draft] R demo_gated empty_ledger H L {}
     {(''t1'', demo_refund)})"
    using demo_waiting by blast
  define R1 where "R1 = save_run 0 ''t1'' AWAITING_APPROVAL None None R"
  have 1: "demo_reach (demo_state [done_classify, done_draft] R1 demo_gated empty_ledger H L {}
     {(''t1'', demo_refund)})"
    using next_step [OF 0 run_commit [of "SaveRun 0 ''t1'' AWAITING_APPROVAL None None"]]
    by (simp add: free_run_op_def demo_state_def R1_def)
  obtain i R2 where add: "add_pending_signal_if_waiting 0 ''t1'' APPROVAL_DECISION_SIGNAL
      (decision_dump demo_yes) AWAITING_APPROVAL R1 = (Some i, R2)"
    and sig: "signals R2 = [\<lparr> sig_id = 1, sig_workflow_id = ''t1'',
       sig_kind = APPROVAL_DECISION_SIGNAL, sig_payload = decision_dump demo_yes, consumed = False,
       sig_created_at = 0, consumed_at = None \<rparr>]"
    using R by (simp add: add_pending_signal_if_waiting_def R1_def save_run_def update_where_def
        unconsumed_signal_def)
  have "submit_approval 0 ''t1'' demo_yes
      (core (demo_state [done_classify, done_draft] R1 demo_gated empty_ledger H L {}
     {(''t1'', demo_refund)})) =
      (Inr AWAITING_APPROVAL,
       core (demo_state [done_classify, done_draft] R2 demo_gated empty_ledger H L {}
     {(''t1'', demo_refund)}))"
    using add by (simp add: submit_approval_def demo_state_def)
  from next_step [OF 1 decide [OF this]] sig show ?thesis
    by (fastforce simp: demo_state_def demo_yes_def)
qed

lemma demo_finalizing:
  "\<exists>R H L. demo_reach (demo_state [done_classify, done_draft, row_finalize] R demo_approved
     empty_ledger H L {(''t1'', demo_yes)} {(''t1'', demo_refund)})"
proof -
  let ?rv = "\<lparr> rv_payload = decision_envelope demo_yes, consumed_signal_id = Some 1 \<rparr>"
  obtain R H L where sig: "signals R = [\<lparr> sig_id = 1, sig_workflow_id = ''t1'',
      sig_kind = APPROVAL_DECISION_SIGNAL, sig_payload = decision_dump demo_yes, consumed = False,
      sig_created_at = 0, consumed_at = None \<rparr>]"
    and 0: "demo_reach (demo_state [done_classify, done_draft] R demo_gated empty_ledger H L
     {(''t1'', demo_yes)} {(''t1'', demo_refund)})"
    using demo_signalled by blast
  have env: "pending_envelope (Some demo_gated) = Some (approval_envelope default_env demo_ticket
      demo_refund (demo_clock Prepare_approval + APPROVAL_TIMEOUT))"
    by (simp add: pending_envelope_def snapshot_interrupts_def demo_gated_def parked_thread_def
        approval_envelope_def)
  have "resume_for_run (rows [done_classify, done_draft]) R (approval_envelope default_env demo_ticket
      demo_refund (demo_clock Prepare_approval + APPROVAL_TIMEOUT)) None = Some ?rv"
    by (simp add: resume_for_run_def resume_value_of_def approval_resume_value_def kind_is_def
        approval_envelope_def py_or_def demo_keys sig waiting_decision_def first_by_def
        decision_envelope_def)
  note 1 = demo_read [OF 0 env this]
  have put: "put_task 0 ''ticketflow'' ''finalize_ticket'' ''t1''
      (finalize_payload demo_ticket (action demo_refund)
        (expected_result demo_ticket demo_class demo_refund (Some AWAITING_APPROVAL)))
      ''t1:finalize'' (rows [done_classify, done_draft]) =
      rows [done_classify, done_draft, row_finalize]"
    unfolding demo_put
    by (simp add: done_classify_def row_classify_def done_draft_def row_draft_def row_finalize_def)
  have "\<exists>res. invoke_resume ref_engine default_env True demo_clock demo_gated Await_approval
      (rv_payload ?rv) (rows [done_classify, done_draft]) =
      (res, demo_approved, rows [done_classify, done_draft, row_finalize])"
    using ref_graph.resume_gate [of default_env "decision_envelope demo_yes" demo_yes
        demo_approved_state demo_clock demo_ticket demo_class demo_refund True demo_clock _
        "rows [done_classify, done_draft]"] put
    by (simp add: Let_def demo_gated_def demo_approved_def demo_approved_state_def
        decision_envelope_def demo_yes_def demo_keys demo_clock_def put_finalize_def)
  then obtain res where inv: "invoke_resume ref_engine default_env True demo_clock demo_gated
      Await_approval (rv_payload ?rv) (rows [done_classify, done_draft]) =
      (res, demo_approved, rows [done_classify, done_draft, row_finalize])" by blast
  have "th_next demo_gated = Some Await_approval"
    by (simp add: demo_gated_def parked_thread_def)
  moreover have "asks ''t1'' demo_approved = {}"
    by (simp add: asks_def demo_approved_def parked_thread_def)
  ultimately show ?thesis using demo_invoke [OF 1 _ _ inv] by auto
qed

lemma demo_paying:
  "\<exists>s s'. demo_reach s \<and> sys_step ref_engine default_env s s' \<and> refund_of (money s) ''t1'' = None \<and>
     refund_of (money s') ''t1'' = Some 25"
proof -
  obtain R H L where 0: "demo_reach (demo_state [done_classify, done_draft, row_finalize] R
      demo_approved empty_ledger H L {(''t1'', demo_yes)} {(''t1'', demo_refund)})"
    using demo_finalizing by blast
  let ?l = "lease_row 0 ''w'' row_finalize"
  let ?r = "expected_result demo_ticket demo_class demo_refund (Some AWAITING_APPROVAL)"
  let ?s = "demo_state [done_classify, done_draft, ?l] R demo_approved empty_ledger H (insert ?l L)
    {(''t1'', demo_yes)} {(''t1'', demo_refund)}"
  have 1: "demo_reach ?s"
    using demo_lease [OF 0, of "''ticketflow''" row_finalize]
    by (simp add: due_in_def row_draft_def done_draft_def done_classify_def row_classify_def
        row_finalize_def)
  have fin: "finalize_task ?l demo_ticket (action demo_refund) ?r"
    by (simp add: finalize_task_def row_finalize_def)
  obtain out L' where run: "run_finalize default_env 0 0 ?l empty_ledger = (out, L')" by fastforce
  have "valid_action (action demo_refund)" "pays (action demo_refund) ?r"
    by (simp_all add: demo_refund_def valid_action_def pays_def expected_result_def
        terminal_outcome_def)
  then have "refund_of L' ''t1'' = Some 25"
    using run_finalize_ops [OF fin, of default_env 0 0 empty_ledger] run
    by (auto simp: finalize_ops_def demo_keys demo_refund_def refund_of_after)
  moreover have "sys_step ref_engine default_env ?s (?s\<lparr> money := L' \<rparr>)"
    by (rule worker_finalize [of ?l _ _ 0 0 out]) (simp_all add: demo_state_def run)
  moreover have "refund_of (money ?s) ''t1'' = None"
    by (simp add: demo_state_def refund_of_def empty_ledger_def find_by_def)
  ultimately show ?thesis using 1 by (intro exI [of _ ?s] exI [of _ "?s\<lparr> money := L' \<rparr>"]) simp
qed

lemma demo_refunded:
  "\<exists>s x. demo_reach s \<and> x \<in> set (refunds (money s)) \<and> rf_ticket_id x = ''t1'' \<and> rf_amount x = 25"
proof -
  obtain s s' where "demo_reach s" "sys_step ref_engine default_env s s'"
    "refund_of (money s') ''t1'' = Some 25" using demo_paying by blast
  then show ?thesis using next_step by (fastforce simp: refund_of_def dest!: find_by_Some)
qed

theorem refund_only_if_approved_witness:
  "\<exists>s x dec d. reachable ref_engine default_env s \<and> x \<in> set (refunds (money s)) \<and> rf_amount x = 25 \<and>
     (''t1'', dec) \<in> decisions s \<and> approved dec \<and> (''t1'', d) \<in> asked s \<and>
     refund_amount (action d) = Some 25 \<and>
     length (filter (\<lambda>y. rf_ticket_id y = ''t1'') (refunds (money s))) = 1"
proof -
  obtain s x where s: "reachable ref_engine default_env s" "x \<in> set (refunds (money s))"
    "rf_ticket_id x = ''t1''" "rf_amount x = 25" using demo_refunded by blast
  from refund_only_if_approved [OF ref_graph.langgraph_axioms demo_valid(4) s(1,2)] s(3,4)
  obtain dec d where d: "(''t1'', dec) \<in> decisions s" "approved dec"
    "{d. (''t1'', d) \<in> asked s} = {d}" "refund_amount (action d) = Some 25"
    "length (filter (\<lambda>y. rf_ticket_id y = ''t1'') (refunds (money s))) = 1" by auto
  from d(3) have "(''t1'', d) \<in> asked s" by blast
  with s d show ?thesis by blast
qed

end
