(* ===== verification/Refinement.thy ===== *)
theory Refinement
  imports System
begin

text \<open>
  What the processes are for, without queues, leases, checkpoints or crashes: a support desk
  where every ticket moves through a few phases, humans rule on the drafts put up to them, and a
  refund is paid at most once, for a draft a human approved. \<^verbatim>\<open>desk_of\<close> forgets everything
  else of a system state; every commit of every process is then one step of the desk, or none.
\<close>

section \<open>The desk\<close>

datatype phase =
    Classifying
  | Drafting classification
  | Deciding classification draft_reply
  | Finishing classification draft_reply ticket_status
  | Ended ticket_result

text \<open>
  How a ticket moves on. \<^verbatim>\<open>ruled\<close> are the decisions made on it; the agents' answers, their
  failures and the passing of the approval's time are not the desk's to choose.
\<close>

inductive phase_move :: "approval_decision set \<Rightarrow> string \<Rightarrow> phase \<Rightarrow> phase \<Rightarrow> bool" for ruled t where
  classified: "phase_move ruled t Classifying (Drafting c)"
| classify_failed: "phase_move ruled t Classifying
    (Finishing failure_classification failure_draft ESCALATED)"
| drafted_safe: "\<not> needs_human d \<Longrightarrow> phase_move ruled t (Drafting c) (Finishing c d RESOLVED)"
| drafted_risky: "needs_human d \<Longrightarrow> phase_move ruled t (Drafting c) (Deciding c d)"
| draft_failed: "phase_move ruled t (Drafting c) (Finishing c failure_draft ESCALATED)"
| approved_draft: "dec \<in> ruled \<Longrightarrow> approved dec \<Longrightarrow>
    phase_move ruled t (Deciding c d) (Finishing c d RESOLVED)"
| refused_draft: "dec \<in> ruled \<Longrightarrow> \<not> approved dec \<Longrightarrow>
    phase_move ruled t (Deciding c d) (Finishing c d REJECTED)"
| unanswered: "phase_move ruled t (Deciding c d) (Finishing c d ESCALATED)"
| finished: "r_ticket_id r = t \<Longrightarrow> phase_move ruled t (Finishing c d outcome) (Ended r)"

fun puts_up :: "string \<Rightarrow> phase \<Rightarrow> draft_log" where
  "puts_up t (Deciding c d) = {(t, d)}"
| "puts_up t _ = {}"

record desk =
  phases :: "string \<Rightarrow> phase option"
  put_up :: draft_log
  rulings :: decision_log
  paid :: "string \<Rightarrow> rat option"

definition empty_desk :: desk where
  "empty_desk = \<lparr> phases = (\<lambda>_. None), put_up = {}, rulings = {}, paid = (\<lambda>_. None) \<rparr>"

inductive desk_step :: "desk \<Rightarrow> desk \<Rightarrow> bool" where
  opened: "phases D t = None \<Longrightarrow> desk_step D (D\<lparr> phases := (phases D)(t \<mapsto> Classifying) \<rparr>)"
| moved: "phases D t = Some p \<Longrightarrow> phase_move {dec. (t, dec) \<in> rulings D} t p p' \<Longrightarrow>
    desk_step D (D\<lparr> phases := (phases D)(t \<mapsto> p'), put_up := put_up D \<union> puts_up t p' \<rparr>)"
| ruled_on: "desk_step D (D\<lparr> rulings := insert (t, dec) (rulings D) \<rparr>)"
| paid_out: "paid D t = None \<Longrightarrow> (t, dec) \<in> rulings D \<Longrightarrow> approved dec \<Longrightarrow> (t, d) \<in> put_up D \<Longrightarrow>
    a_type (action d) = REFUND \<Longrightarrow> refund_amount (action d) = Some q \<Longrightarrow>
    desk_step D (D\<lparr> paid := (paid D)(t \<mapsto> q) \<rparr>)"
| forgotten: "desk_step D (D\<lparr> phases := (phases D)(t := None) \<rparr>)"

section \<open>The desk of a system state\<close>

definition phase_of :: "thread \<Rightarrow> phase" where
  "phase_of th =
     (let st = th_values th; c = the (s_classification st); d = the (s_draft st)
      in case th_next th of
           None \<Rightarrow> Ended (the (s_result st))
         | Some Dispatch_classify \<Rightarrow> Classifying
         | Some Await_classify \<Rightarrow> Classifying
         | Some Dispatch_draft \<Rightarrow> Drafting c
         | Some Await_draft \<Rightarrow> Drafting c
         | Some Decide_approval \<Rightarrow> Drafting c
         | Some Prepare_approval \<Rightarrow> Drafting c
         | Some Await_approval \<Rightarrow> Deciding c d
         | Some Execute \<Rightarrow> Finishing c d (fst (terminal_outcome (s_status st) d)))"

definition desk_of :: "system \<Rightarrow> desk" where
  "desk_of s = \<lparr> phases = (\<lambda>t. map_option phase_of (thread_of t (core s))), put_up = asked s,
     rulings = decisions s, paid = refund_of (money s) \<rparr>"

text \<open>Between invocations a thread waits or has ended.\<close>

definition resting :: "thread \<Rightarrow> bool" where
  "resting th = (\<forall>n. th_next th = Some n \<longrightarrow> waits n)"

lemma outcome_simps [simp]:
  "fst (terminal_outcome (Some ESCALATED) d) = ESCALATED"
  "fst (terminal_outcome (Some REJECTED) d) = REJECTED"
  "fst (terminal_outcome (Some DRAFTING) d) = RESOLVED"
  "fst (terminal_outcome (Some AWAITING_APPROVAL) d) = RESOLVED"
  by (simp_all add: terminal_outcome_def)

section \<open>One invocation is at most one move\<close>

lemmas phase_moves = phase_move.intros

context langgraph
begin

text \<open>Runs of the engine to the next wait.\<close>

lemma drive_execute:
  assumes "s_ticket st = Some t" and "s_draft st = Some d" and "s_classification st = Some c"
  shows "\<exists>env q'. drive G (body_of E ua clk) Execute st [] q = (Parked Execute st [] env, q')"
  using assms by (simp add: drive_unfold [where n = Execute] body_of_def execute_parks)

lemma drive_to_draft:
  assumes "s_ticket st = Some t" and "s_classification st = Some c"
  shows "\<exists>st' env q'. drive G (body_of E ua clk) Dispatch_draft st [] q = (Parked Await_draft st' [] env, q') \<and>
    s_classification st' = Some c"
  using assms
  by (simp add: drive_unfold [where n = Dispatch_draft] drive_unfold [where n = Await_draft]
      body_of_def dispatch_draft_def await_draft_def await_agent_task_def)

lemma drive_to_decision:
  assumes "s_ticket st = Some t" and "s_classification st = Some c" and "s_draft st = Some d"
    and "s_status st = Some DRAFTING"
  shows "\<exists>st' env q'. drive G (body_of E ua clk) Decide_approval st [] q =
      (Parked (if needs_human d then Await_approval else Execute) st' [] env, q') \<and>
    s_classification st' = Some c \<and> s_draft st' = Some d \<and>
    (\<not> needs_human d \<longrightarrow> s_status st' = Some DRAFTING)"
  using assms
  by (cases "needs_human d")
    (simp_all add: drive_unfold [where n = Decide_approval] drive_unfold [where n = Prepare_approval]
      drive_unfold [where n = Await_approval] drive_unfold [where n = Execute] body_of_def
      decide_approval_def route_after_decide_def prepare_approval_def await_approval_def execute_parks)

lemma moves_classify:
  assumes "point_ok tk Await_classify (th_values th)" and "th_next th = Some Await_classify"
    and "drive G (body_of E ua clk) Await_classify (th_values th) rs q = (res, q')"
    and "th' = persist G (Some th) res"
  shows "phase_of th' = phase_of th \<or> phase_move ruled t (phase_of th) (phase_of th')"
proof -
  let ?st = "th_values th"
  have tk: "s_ticket ?st = Some tk" using assms(1) by (simp add: point_ok_def)
  have at: "phase_of th = Classifying" by (simp add: phase_of_def assms(2))
  obtain a q1 where a: "await_agent_task E ua (clk Await_classify) ''classify'' (id' tk)
      (classify_payload tk) (s_wakeup_at ?st) rs q = (a, q1)" by fastforce
  note run = drive_unfold [where n = Await_classify] body_of_def await_classify_def
  show ?thesis
  proof (cases a)
    case (Suspended env)
    then have "res = Parked Await_classify ?st rs env" using assms(3) a tk by (simp add: run)
    then show ?thesis by (simp add: at assms(4) persist_parked) (simp add: phase_of_def)
  next
    case (Resumed j)
    consider (failed) "is_task_failed j" | (bad) e where "\<not> is_task_failed j" "classification_validate E j = Inl e"
      | (good) c where "\<not> is_task_failed j" "classification_validate E j = Inr c"
      by (cases "classification_validate E j") auto
    then show ?thesis
    proof cases
      case failed
      define st' where "st' = ?st\<lparr> s_classification := Some failure_classification,
          s_draft := Some failure_draft, s_needs_approval := Some False, s_status := Some ESCALATED,
          s_wakeup_at := None \<rparr>"
      have "drive G (body_of E ua clk) Execute st' [] q1 = (res, q')"
        using assms(3) a tk failed Resumed
        by (simp add: run route_after_classify_def st'_def cong: option.case_cong)
      moreover have st': "s_ticket st' = Some tk" "s_draft st' = Some failure_draft"
        "s_classification st' = Some failure_classification" "s_status st' = Some ESCALATED"
        using tk by (simp_all add: st'_def)
      ultimately obtain env where "res = Parked Execute st' [] env"
        using drive_execute [OF st'(1-3), of E ua clk q1] by auto
      then show ?thesis using st' classify_failed [of ruled t]
        by (simp add: at assms(4) persist_parked) (simp add: phase_of_def)
    next
      case bad
      then have "res = Crashed e Await_classify ?st" using assms(3) a tk Resumed by (simp add: run)
      then show ?thesis by (simp add: at assms(2,4) persist_crashed_same)
    next
      case good
      define st' where "st' = ?st\<lparr> s_classification := Some c, s_status := Some CLASSIFYING,
          s_wakeup_at := None \<rparr>"
      have "drive G (body_of E ua clk) Dispatch_draft st' [] q1 = (res, q')"
        using assms(3) a tk good Resumed by (simp add: run route_after_classify_def st'_def)
      moreover have st': "s_ticket st' = Some tk" "s_classification st' = Some c"
        using tk by (simp_all add: st'_def)
      ultimately obtain st'' env where "res = Parked Await_draft st'' [] env"
        "s_classification st'' = Some c"
        using drive_to_draft [OF st', of E ua clk q1] by auto
      then show ?thesis using classified [of ruled t c]
        by (simp add: at assms(4) persist_parked) (simp add: phase_of_def)
    qed
  qed
qed

lemma moves_draft:
  assumes "point_ok tk Await_draft (th_values th)" and "th_next th = Some Await_draft"
    and "drive G (body_of E ua clk) Await_draft (th_values th) rs q = (res, q')"
    and "th' = persist G (Some th) res"
  shows "phase_of th' = phase_of th \<or> phase_move ruled t (phase_of th) (phase_of th')"
proof -
  let ?st = "th_values th"
  obtain c where tk: "s_ticket ?st = Some tk" "s_classification ?st = Some c"
    using assms(1) by (auto simp: point_ok_def)
  have at: "phase_of th = Drafting c" by (simp add: phase_of_def assms(2) tk)
  obtain a q1 where a: "await_agent_task E ua (clk Await_draft) ''draft'' (id' tk)
      (draft_payload tk c) (s_wakeup_at ?st) rs q = (a, q1)" by fastforce
  note run = drive_unfold [where n = Await_draft] body_of_def await_draft_def
  show ?thesis
  proof (cases a)
    case (Suspended env)
    then have "res = Parked Await_draft ?st rs env" using assms(3) a tk by (simp add: run)
    then show ?thesis by (simp add: at assms(4) persist_parked) (simp add: phase_of_def tk)
  next
    case (Resumed j)
    consider (failed) "is_task_failed j" | (bad) e where "\<not> is_task_failed j" "draft_validate E j = Inl e"
      | (good) d where "\<not> is_task_failed j" "draft_validate E j = Inr d"
      by (cases "draft_validate E j") auto
    then show ?thesis
    proof cases
      case failed
      define st' where "st' = ?st\<lparr> s_draft := Some failure_draft, s_needs_approval := Some False,
          s_status := Some ESCALATED, s_wakeup_at := None \<rparr>"
      have "drive G (body_of E ua clk) Execute st' [] q1 = (res, q')"
        using assms(3) a tk failed Resumed by (simp add: run route_after_draft_def st'_def)
      moreover have st': "s_ticket st' = Some tk" "s_draft st' = Some failure_draft"
        "s_classification st' = Some c" "s_status st' = Some ESCALATED"
        using tk by (simp_all add: st'_def)
      ultimately obtain env where "res = Parked Execute st' [] env"
        using drive_execute [OF st'(1-3), of E ua clk q1] by auto
      then show ?thesis using st' draft_failed [of ruled t c]
        by (simp add: at assms(4) persist_parked) (simp add: phase_of_def)
    next
      case bad
      then have "res = Crashed e Await_draft ?st" using assms(3) a tk Resumed by (simp add: run)
      then show ?thesis by (simp add: at assms(2,4) persist_crashed_same)
    next
      case good
      define st' where "st' = ?st\<lparr> s_draft := Some d, s_status := Some DRAFTING,
          s_wakeup_at := None \<rparr>"
      have "drive G (body_of E ua clk) Decide_approval st' [] q1 = (res, q')"
        using assms(3) a tk good Resumed by (simp add: run route_after_draft_def st'_def)
      moreover have st': "s_ticket st' = Some tk" "s_classification st' = Some c"
        "s_draft st' = Some d" "s_status st' = Some DRAFTING"
        using tk by (simp_all add: st'_def)
      ultimately obtain st'' env where "res = Parked (if needs_human d then Await_approval else Execute) st'' [] env"
        "s_classification st'' = Some c" "s_draft st'' = Some d"
        "\<not> needs_human d \<longrightarrow> s_status st'' = Some DRAFTING"
        using drive_to_decision [OF st', of E ua clk q1] by auto
      then show ?thesis using drafted_safe [of d ruled t c] drafted_risky [of d ruled t c]
        by (simp add: at assms(4) persist_parked) (simp add: phase_of_def)
    qed
  qed
qed

lemma moves_approval:
  assumes "point_ok tk Await_approval (th_values th)" and "th_next th = Some Await_approval"
    and "th_resumes th = []" and "clean t lg v" and "good_coercion E"
    and "invoke_resume G E ua clk th Await_approval v q = (res, th', q')"
  shows "phase_of th' = phase_of th \<or>
    phase_move {dec. (t, dec) \<in> lg} t (phase_of th) (phase_of th')"
proof -
  obtain st i where th: "th = \<lparr> th_values = st, th_next = Some Await_approval, th_resumes = [],
      th_interrupt = i \<rparr>" using assms(2,3) by (cases th) simp
  obtain d c wk where st: "s_ticket st = Some tk" "s_draft st = Some d"
    "s_classification st = Some c" "s_wakeup_at st = Some wk" "s_status st = Some AWAITING_APPROVAL"
    using assms(1) th by (auto simp: point_ok_def drafted_def)
  show ?thesis using assms(6) st decision_of_clean [OF assms(4) _ assms(5)]
    by (auto simp: th invoke_resume_def drive_nodes body_of_def await_approval_def persist_simps
        phase_of_def execute_parks Let_def intro: phase_moves split: if_splits sum.splits)
qed

lemma moves_execute:
  assumes "point_ok tk Execute (th_values th)" and "th_next th = Some Execute"
    and "th_resumes th = []" and "id' tk = t"
    and "invoke_resume G E ua clk th Execute v q = (res, th', q')"
  shows "phase_of th' = phase_of th \<or> phase_move ruled t (phase_of th) (phase_of th')"
proof -
  obtain st i where th: "th = \<lparr> th_values = st, th_next = Some Execute, th_resumes = [],
      th_interrupt = i \<rparr>" using assms(2,3) by (cases th) simp
  obtain d c where st: "s_ticket st = Some tk" "s_draft st = Some d" "s_classification st = Some c"
    using assms(1) th by (auto simp: point_ok_def drafted_def)
  show ?thesis using assms(4,5) st
    by (auto simp: th invoke_resume_def drive_nodes body_of_def execute_def persist_simps
        phase_of_def Let_def intro: phase_moves split: if_splits sum.splits)
qed

lemma invoke_moves:
  assumes "invoke_resume G E ua clk th n v q = (res, th', q')" and "th_next th = Some n"
    and "resting th" and "thread_safe t lg ask th" and "clean t lg v" and "good_coercion E"
  shows "phase_of th' = phase_of th \<or>
    phase_move {dec. (t, dec) \<in> lg} t (phase_of th) (phase_of th')"
proof -
  obtain tk where tk: "id' tk = t" "point_ok tk n (th_values th)" "rs_ok n (th_resumes th)"
    using assms(2,4) by (auto simp: thread_safe_def thread_ok_def)
  have d: "drive G (body_of E ua clk) n (th_values th) (th_resumes th @ [v]) q = (res, q')"
    "th' = persist G (Some th) res"
    using assms(1) by (auto simp: invoke_resume_def split: prod.splits)
  have "n = Await_approval \<or> n = Execute \<Longrightarrow> th_resumes th = []"
    using tk(3) by (auto simp: rs_ok_def)
  moreover have "waits n" using assms(2,3) by (simp add: resting_def)
  ultimately show ?thesis
    using moves_classify [of tk th E ua clk "th_resumes th @ [v]" q res q' th']
      moves_draft [of tk th E ua clk "th_resumes th @ [v]" q res q' th'] d
      moves_approval [of tk th t lg v E ua clk q res th' q'] moves_execute [of tk th t E ua clk v q res th' q']
      assms tk by (cases n) auto
qed

lemma invoke_resting:
  assumes "invoke_resume G E ua clk th n v q = (res, th', q')" and "th_next th = Some n"
    and "resting th" and "thread_ok tk th"
  shows "resting th'"
proof -
  have d: "drive G (body_of E ua clk) n (th_values th) (th_resumes th @ [v]) q = (res, q')"
    and th': "th' = persist G (Some th) res"
    using assms(1) by (auto simp: invoke_resume_def split: prod.splits)
  have "point_ok tk n (th_values th)" using assms(2,4) by (simp add: thread_ok_def)
  note crash = drive_crash [OF this]
  show ?thesis
  proof (cases res)
    case (Crashed e m st)
    then have "m = n" using crash d by blast
    then have "th' = th" using Crashed th' persist_crashed_same [OF assms(2)] by simp
    then show ?thesis using assms(3) by simp
  qed (use th' invoke_resume_ok [OF assms(4,2,1)] in
    \<open>auto simp: resting_def persist_parked persist_finished result_ok_def\<close>)
qed

end

section \<open>Every commit is at most one step of the desk\<close>

lemma desk_of_money [simp]: "desk_of (s\<lparr> money := L \<rparr>) = (desk_of s)\<lparr> paid := refund_of L \<rparr>"
  by (simp add: desk_of_def)

lemma desk_of_quiet:
  assumes "threads c = threads (core s)"
  shows "desk_of (s\<lparr> core := c \<rparr>) = desk_of s"
  using assms by (simp add: desk_of_def thread_of_def)

lemma desk_of_put:
  assumes "threads c = put_thread t th (threads (core s))"
  shows "desk_of (s\<lparr> core := c \<rparr>) =
    (desk_of s)\<lparr> phases := (phases (desk_of s))(t \<mapsto> phase_of th) \<rparr>"
  using assms by (auto simp: desk_of_def thread_of_def)

lemma asks_put_up: "asks t th = (if th_next th = None then {} else puts_up t (phase_of th))
    \<or> s_draft (th_values th) = None"
  by (auto simp: asks_def phase_of_def Let_def split: option.splits node.splits)

text \<open>The ledger commits of a finalize task pay once at most.\<close>

lemma finalize_pays:
  "refund_of (fold ledger_apply (take k (finalize_ops now1 now2 n t a r)) L) = refund_of L \<or>
   (pays a r \<and> refund_of L (id' t) = None \<and>
    refund_of (fold ledger_apply (take k (finalize_ops now1 now2 n t a r)) L) =
      (refund_of L)(id' t \<mapsto> the (refund_amount a)))"
proof -
  have rest: "refund_of (fold ledger_apply (take k [RecordReply now2 i e x n, SaveResult r']) L) =
      refund_of L" for k i e x r' L
    by (cases k; cases "k - 1") simp_all
  show ?thesis
  proof (cases "pays a r")
    case True
    then show ?thesis
      by (cases k) (auto simp: finalize_ops_def rest refund_of_after fun_eq_iff)
  qed (simp add: finalize_ops_def rest)
qed

lemma finalize_desk_step:
  assumes "fin_ok (decisions s) (asked s) task" and "task_type task = ''finalize_ticket''"
    and "decode_finalize K task = Inr (t, a, r)" and "good_coercion K"
    and "L = fold ledger_apply (take k (finalize_ops now1 now2 n t a r)) (money s)"
  shows "desk_of (s\<lparr> money := L \<rparr>) = desk_of s \<or> desk_step (desk_of s) (desk_of (s\<lparr> money := L \<rparr>))"
proof -
  note may = decoded_may_pay [OF assms(1-4)]
  show ?thesis
  proof (cases "refund_of L = refund_of (money s)")
    case False
    then have p: "pays a r" "refund_of (money s) (id' t) = None"
      "refund_of L = (refund_of (money s))(id' t \<mapsto> the (refund_amount a))"
      using finalize_pays [of k now1 now2 n t a r "money s"] assms(5) by auto
    then obtain dec d where "(id' t, dec) \<in> decisions s" "approved dec" "(id' t, d) \<in> asked s"
      "action d = a" "a_type a = REFUND" "refund_amount a \<noteq> None" using may by (auto simp: may_pay_def)
    then have "desk_step (desk_of s) ((desk_of s)\<lparr> paid := (paid (desk_of s))(id' t \<mapsto> the (refund_amount a)) \<rparr>)"
      using p by (intro paid_out [where dec = dec and d = d]) (auto simp: desk_of_def)
    then show ?thesis by (simp add: p(3)) (simp add: desk_of_def)
  qed (simp add: desk_of_def)
qed

lemma resting_step:
  assumes "langgraph G" and "sys_step G E s s'" and "sys_inv s"
    and "\<forall>t th. thread_of t (core s) = Some th \<longrightarrow> resting th"
  shows "\<forall>t th. thread_of t (core s') = Some th \<longrightarrow> resting th"
proof -
  have new: "resting th" if "invoke_new G E ua clk (initial_state t) q = (res, th, q')"
    for ua clk t q res th q'
    using langgraph.start_ticket [OF assms(1), of E ua clk t q] that
    by (auto simp: Let_def resting_def parked_thread_def)
  show ?thesis using assms(2)
  proof (cases rule: sys_step.cases)
    case (create uuid clk now req out c)
    obtain res th q where i: "invoke_new G E True clk (initial_state (new_ticket uuid req))
        (sq (core s)) = (res, th, q)" by (rule prod_cases3)
    then show ?thesis using create_ticket_parts(2) [OF create(3) i] new [OF i] assms(4)
      by (auto simp: create(1) thread_of_def)
  next
    case (create_crash_late uuid clk req res th q)
    then show ?thesis using new assms(4) by (auto simp: thread_of_def)
  next
    case (decide now t dec out c)
    then show ?thesis using assms(4) submit_safe(2) [OF decide(2) _ refl] sys_inv_parts(3) [OF assms(3)]
      by (auto simp: thread_of_def)
  next
    case (runner_invoke t rv th n ua clk res th' q)
    obtain tk where "thread_ok tk th"
      using sys_inv_parts(1) [OF assms(3) runner_invoke(3)] by (auto simp: thread_safe_def)
    from langgraph.invoke_resting [OF assms(1) runner_invoke(5,4) _ this] assms(4) runner_invoke
    show ?thesis by (auto simp: thread_of_def)
  next
    case (retention_delete t)
    then show ?thesis using assms(4)
      by (auto simp: thread_of_def delete_thread_def map_of_without split: if_splits)
  qed (use assms(4) in \<open>auto simp: thread_of_def\<close>)
qed

lemma reachable_resting:
  assumes "langgraph G" and "good_coercion E" and "reachable G E s"
  shows "\<forall>t th. thread_of t (core s) = Some th \<longrightarrow> resting th"
  using assms(3)
proof (induction rule: reachable.induct)
  case start
  then show ?case by (simp add: system_start_def thread_of_def)
next
  case (next_step s s')
  then show ?case
    using resting_step [OF assms(1)] reachable_inv [OF assms(1,2)] by blast
qed

lemma invoke_desk_step:
  assumes "langgraph G" and "good_coercion E" and "sys_inv s" and "(t, rv) \<in> in_hand s"
    and "thread_of t (core s) = Some th" and "th_next th = Some n" and "resting th"
    and "invoke_resume G E ua clk th n (rv_payload rv) (sq (core s)) = (res, th', q)"
    and "s' = s\<lparr> core := (core s)\<lparr> sq := q, threads := put_thread t th' (threads (core s)) \<rparr>,
      asked := asked s \<union> asks t th' \<rparr>"
  shows "desk_of s' = desk_of s \<or> desk_step (desk_of s) (desk_of s')"
proof -
  have safe: "thread_safe t (decisions s) (asked s) th" "clean t (decisions s) (rv_payload rv)"
    using assms(3-5) by (auto simp: sys_inv_def)
  have safe': "thread_safe t (decisions s) (asked s \<union> asks t th') th'"
    by (rule langgraph.sys_inv_resumed(1) [OF assms(1,3,2,4-6,8)])
  have asks: "asks t th' = puts_up t (phase_of th')"
    using safe' by (auto simp: thread_safe_def thread_ok_def point_ok_def drafted_def asks_def
        phase_of_def Let_def split: option.splits node.splits)
  have D: "desk_of s' = (desk_of s)\<lparr> phases := (phases (desk_of s))(t \<mapsto> phase_of th'),
      put_up := put_up (desk_of s) \<union> puts_up t (phase_of th') \<rparr>"
    by (auto simp: assms(9) asks desk_of_def thread_of_def)
  have at: "phases (desk_of s) t = Some (phase_of th)" using assms(5) by (simp add: desk_of_def)
  from langgraph.invoke_moves [OF assms(1,8,6,7) safe assms(2)] show ?thesis
  proof
    assume same: "phase_of th' = phase_of th"
    have "puts_up t (phase_of th) \<subseteq> asked s"
      using safe(1) assms(6) by (auto simp: thread_safe_def thread_ok_def point_ok_def drafted_def
          draft_asked_def phase_of_def Let_def split: node.splits)
    then have "desk_of s' = desk_of s" unfolding D same using at
      by (simp add: fun_upd_idem Un_absorb2 desk_of_def)
    then show ?thesis ..
  next
    assume "phase_move {dec. (t, dec) \<in> decisions s} t (phase_of th) (phase_of th')"
    then have "phase_move {dec. (t, dec) \<in> rulings (desk_of s)} t (phase_of th) (phase_of th')"
      by (simp add: desk_of_def)
    from moved [OF at this] show ?thesis unfolding D ..
  qed
qed

lemma commit_desk_step:
  assumes "langgraph G" and "good_coercion E" and "reachable G E s" and "sys_step G E s s'"
  shows "desk_of s' = desk_of s \<or> desk_step (desk_of s) (desk_of s')"
proof -
  note inv = reachable_inv [OF assms(1-3)] and rest = reachable_resting [OF assms(1-3)]
  have fresh: "thread_of u (core s) = None" if "u \<notin> drawn s" for u
    using inv that by (cases "thread_of u (core s)") (auto simp: sys_inv_def asked_once_def)
  have new: "phase_of th = Classifying"
    if "invoke_new G E True clk (initial_state t) q = (res, th, q')" for clk t q res th q'
    using langgraph.start_ticket [OF assms(1), of E True clk t q] that
    by (auto simp: Let_def phase_of_def parked_thread_def)
  have fresh_ticket: "desk_step (desk_of s) (desk_of (s\<lparr> core := c, drawn := insert u (drawn s) \<rparr>))"
    if "u \<notin> drawn s" "threads c = put_thread u th (threads (core s))" "phase_of th = Classifying"
    for c u th
  proof -
    have "desk_of (s\<lparr> core := c, drawn := insert u (drawn s) \<rparr>) =
        (desk_of s)\<lparr> phases := (phases (desk_of s))(u \<mapsto> Classifying) \<rparr>"
      using desk_of_put [OF that(2)] that(3) by (simp add: desk_of_def)
    then show ?thesis using opened [of "desk_of s" u] fresh [OF that(1)] by (simp add: desk_of_def)
  qed
  have fin: "fin_ok (decisions s) (asked s) task" if "task \<in> leased s" for task
    using inv that by (auto simp: sys_inv_def)
  from assms(4) show ?thesis
  proof (cases rule: sys_step.cases)
    case (create uuid clk now req out c)
    obtain res th q where i: "invoke_new G E True clk (initial_state (new_ticket uuid req))
        (sq (core s)) = (res, th, q)" by (rule prod_cases3)
    show ?thesis unfolding create(1)
      using fresh_ticket [OF create(2) create_ticket_parts(2) [OF create(3) i] new [OF i]] ..
  next
    case (create_crash_late uuid clk req res th q)
    show ?thesis unfolding create_crash_late(1)
      using fresh_ticket [OF create_crash_late(2) _ new [OF create_crash_late(3)],
          of "(core s)\<lparr> sq := q, threads := put_thread uuid th (threads (core s)) \<rparr>"] by simp
  next
    case (decide now t dec out c)
    have "threads c = threads (core s)"
      by (rule submit_safe(2) [OF decide(2) sys_inv_parts(3) [OF inv] refl])
    then show ?thesis using ruled_on [of "desk_of s" t dec]
      by (auto simp: decide(1) desk_of_def thread_of_def)
  next
    case (runner_invoke t rv th n ua clk res th' q)
    show ?thesis
      by (rule invoke_desk_step [OF assms(1,2) inv runner_invoke(2-4) _ runner_invoke(5,1)])
        (use rest runner_invoke(3) in blast)
  next
    case (retention_delete t)
    have "desk_of s' = (desk_of s)\<lparr> phases := (phases (desk_of s))(t := None) \<rparr>"
      by (auto simp: retention_delete desk_of_def thread_of_def delete_thread_def map_of_without)
    then show ?thesis using forgotten [of "desk_of s" t] by simp
  next
    case (worker_finalize task now1 now2 out L)
    from run_finalize_decode [OF worker_finalize(3)] show ?thesis
    proof (elim disjE exE conjE)
      assume "L = money s"
      then show ?thesis by (simp add: worker_finalize(1))
    next
      fix t a r
      assume d: "task_type task = ''finalize_ticket''" "decode_finalize E task = Inr (t, a, r)"
        and L: "L = fold ledger_apply (finalize_ops now1 now2 (attempts task) t a r) (money s)"
      have L: "L = fold ledger_apply (take (length (finalize_ops now1 now2 (attempts task) t a r))
          (finalize_ops now1 now2 (attempts task) t a r)) (money s)" by (simp add: L)
      show ?thesis unfolding worker_finalize(1)
        by (rule finalize_desk_step [OF fin [OF worker_finalize(2)] d assms(2) L])
    qed
  next
    case (worker_crash task t a r k now1 now2)
    show ?thesis unfolding worker_crash(1)
      by (rule finalize_desk_step [OF fin [OF worker_crash(2)] worker_crash(3,4) assms(2) refl])
  qed (auto simp: desk_of_def thread_of_def)
qed

lemma desk_of_start: "desk_of system_start = empty_desk"
  by (simp add: desk_of_def system_start_def empty_desk_def thread_of_def refund_of_def
      empty_ledger_def find_by_def fun_eq_iff)



section \<open>What the desk promises\<close>

text \<open>Proved of the desk alone: its steps ask for it.\<close>

definition authorised :: "decision_log \<Rightarrow> draft_log \<Rightarrow> string \<Rightarrow> draft_reply \<Rightarrow> ticket_status \<Rightarrow> bool" where
  "authorised lg ask t d outcome =
     (case outcome of
        RESOLVED \<Rightarrow> needs_human d \<longrightarrow> (t, d) \<in> ask \<and> (\<exists>dec. (t, dec) \<in> lg \<and> approved dec)
      | REJECTED \<Rightarrow> (t, d) \<in> ask \<and> (\<exists>dec. (t, dec) \<in> lg \<and> \<not> approved dec)
      | ESCALATED \<Rightarrow> d = failure_draft \<or> (t, d) \<in> ask
      | _ \<Rightarrow> False)"

fun phase_ok :: "desk \<Rightarrow> string \<Rightarrow> phase \<Rightarrow> bool" where
  "phase_ok D t (Deciding c d) = ((t, d) \<in> put_up D)"
| "phase_ok D t (Finishing c d outcome) = authorised (rulings D) (put_up D) t d outcome"
| "phase_ok D t (Ended r) = (r_ticket_id r = t)"
| "phase_ok D t _ = True"

definition desk_ok :: "desk \<Rightarrow> bool" where
  "desk_ok D = (\<forall>t p. phases D t = Some p \<longrightarrow> phase_ok D t p)"

lemma phase_ok_grow:
  "phase_ok D t p \<Longrightarrow> put_up D \<subseteq> put_up D' \<Longrightarrow> rulings D \<subseteq> rulings D' \<Longrightarrow> phase_ok D' t p"
  by (cases p) (auto simp: authorised_def split: ticket_status.splits)

lemma moved_ok:
  assumes "phase_move {dec. (t, dec) \<in> rulings D} t p p'" and "phase_ok D t p"
    and "put_up D' = put_up D \<union> puts_up t p'" and "rulings D' = rulings D"
  shows "phase_ok D' t p'"
  using assms by (cases rule: phase_move.cases) (auto simp: authorised_def)

lemma desk_ok_step:
  assumes "desk_step D D'" and "desk_ok D"
  shows "desk_ok D'"
  using assms(1)
proof (cases rule: desk_step.cases)
  case (moved t p p')
  have "phase_ok D t p" using assms(2) moved(2) by (simp add: desk_ok_def)
  from moved_ok [OF moved(3) this, of D'] have "phase_ok D' t p'" by (simp add: moved(1))
  then show ?thesis using assms(2) phase_ok_grow [of D _ _ D'] by (auto simp: desk_ok_def moved(1))
next
  case (ruled_on t dec)
  then show ?thesis using assms(2) phase_ok_grow [of D _ _ D'] by (auto simp: desk_ok_def)
next
  case (paid_out t dec d q)
  then show ?thesis using assms(2) phase_ok_grow [of D _ _ D'] by (auto simp: desk_ok_def)
qed (use assms(2) phase_ok_grow [of D _ _ D'] in \<open>auto simp: desk_ok_def\<close>)

lemma reachable_desk_ok:
  assumes "langgraph G" and "good_coercion E" and "reachable G E s"
  shows "desk_ok (desk_of s)"
  using assms(3)
proof (induction rule: reachable.induct)
  case start
  then show ?case by (simp add: desk_of_start desk_ok_def empty_desk_def)
next
  case (next_step s s')
  with commit_desk_step [OF assms(1,2) next_step(1,2)] desk_ok_step show ?case by auto
qed

text \<open>
  C3: outcomes are authorised: in every reachable state, a ticket that stands at its finalize
  task is about to be rejected only if the API accepted a refusal for it, resolved with a draft
  that needs a human only if it accepted an approval, and escalated only with the text for a
  failed agent or a draft that was put before a human; and no other outcome occurs.
\<close>

theorem outcomes_authorised:
  assumes "langgraph G" and "good_coercion E" and "reachable G E s"
    and "thread_of t (core s) = Some th" and "th_next th = Some Execute"
    and "s_draft (th_values th) = Some d"
  shows "case fst (terminal_outcome (s_status (th_values th)) d) of
      RESOLVED \<Rightarrow> needs_human d \<longrightarrow> (t, d) \<in> asked s \<and> (\<exists>dec. (t, dec) \<in> decisions s \<and> approved dec)
    | REJECTED \<Rightarrow> (t, d) \<in> asked s \<and> (\<exists>dec. (t, dec) \<in> decisions s \<and> \<not> approved dec)
    | ESCALATED \<Rightarrow> d = failure_draft \<or> (t, d) \<in> asked s
    | _ \<Rightarrow> False"
proof -
  have "phases (desk_of s) t = Some (phase_of th)" using assms(4) by (simp add: desk_of_def)
  then have "phase_ok (desk_of s) t (phase_of th)"
    using reachable_desk_ok [OF assms(1-3)] by (simp add: desk_ok_def)
  then show ?thesis using assms(5,6)
    by (simp add: phase_of_def authorised_def desk_of_def Let_def)
qed

theorem outcomes_authorised_witness:
  "\<exists>s. reachable ref_engine default_env s \<and> thread_of ''t1'' (core s) = Some demo_approved \<and>
     (''t1'', demo_refund) \<in> asked s \<and> (\<exists>dec. (''t1'', dec) \<in> decisions s \<and> approved dec)"
proof -
  obtain s where s: "reachable ref_engine default_env s"
    "thread_of ''t1'' (core s) = Some demo_approved"
    using demo_finalizing by (force simp: demo_state_def thread_of_def)
  have th: "th_next demo_approved = Some Execute" "s_draft (th_values demo_approved) = Some demo_refund"
    "s_status (th_values demo_approved) = Some AWAITING_APPROVAL"
    by (simp_all add: demo_approved_def demo_approved_state_def parked_thread_def gated_def decided_def)
  from outcomes_authorised [OF ref_graph.langgraph_axioms demo_valid(4) s th(1,2)] s th(3)
  show ?thesis by auto
qed

end
