(* ===== verification/Schedule.thy ===== *)
theory Schedule
  imports Api Workers
begin

text \<open>
  Schedules for one ticket: the API creates it, workers and runners take turns, a human decides
  or does not when the draft needs one, and the side-effect worker carries the outcome out. The
  stages compose the model's own operations of the API, the workers and the runner, on an empty
  database, at times \<^verbatim>\<open>T 0\<close>, \<^verbatim>\<open>T 1\<close>, ... An agent's task is taken by the primary
  worker, or not before its timer is due, and then by the fallback worker. The lemmas give the
  state a worker's and a runner's turn leave, and the state after an agent's stage.
\<close>

section \<open>The schedule\<close>

definition empty_shared :: shared where
  "empty_shared = \<lparr> sq = empty_queue, sr = empty_runs, threads = [] \<rparr>"

definition work :: "'a router \<Rightarrow> timestamp \<Rightarrow> string \<Rightarrow> shared \<Rightarrow> 'a \<Rightarrow> shared \<times> 'a" where
  "work run now qn S a =
     (let (_, q, rs, a') = process_one_task run now now now {} qn ''w'' (sq S, sr S, a)
      in (S\<lparr> sq := q, sr := rs \<rparr>, a'))"

definition advance :: "engine \<Rightarrow> 'e env_scheme \<Rightarrow> timestamp \<Rightarrow> shared \<Rightarrow> shared" where
  "advance G E now S = snd (step G E True (\<lambda>_. now) now now {} ''r'' S)"

text \<open>
  A stage of the agents: the primary worker takes the task, or (\<^verbatim>\<open>late\<close>) a runner finds its
  timer due first and the fallback worker takes the task it moved; then a runner goes on.
\<close>

definition agent_stage ::
  "engine \<Rightarrow> 'e env_scheme \<Rightarrow> 's agent \<Rightarrow> 's agent \<Rightarrow> bool \<Rightarrow> (nat \<Rightarrow> timestamp) \<Rightarrow> nat \<Rightarrow> shared \<Rightarrow> 's \<times> 's
     \<Rightarrow> shared \<times> 's \<times> 's" where
  "agent_stage G E A F late T k S = (\<lambda>(a, f).
     if late
     then let (S', f') = work (run_activity E F) (T (k + 1)) (FALLBACK_TASK_QUEUE E)
                           (advance G E (T k) S) f
          in (advance G E (T (k + 2)) S', a, f')
     else let (S', a') = work (run_activity E A) (T (k + 1)) (AGENT_TASK_QUEUE E) S a
          in (advance G E (T (k + 2)) S', a', f))"

definition approval_stage ::
  "engine \<Rightarrow> 'e env_scheme \<Rightarrow> (nat \<Rightarrow> timestamp) \<Rightarrow> string \<Rightarrow> approval_decision option \<Rightarrow> shared \<Rightarrow> shared"
  where
  "approval_stage G E T uuid answer S =
     (case answer of
        None \<Rightarrow> advance G E (T 8) S
      | Some dec \<Rightarrow> advance G E (T 8) (snd (submit_approval (T 7) uuid dec S)))"

definition finish_stage ::
  "engine \<Rightarrow> 'e env_scheme \<Rightarrow> (nat \<Rightarrow> timestamp) \<Rightarrow> shared \<Rightarrow> shared \<times> ledger_store" where
  "finish_stage G E T S =
     (let (S1, L) = work (run_finalize E (T 9) (T 9)) (T 9) (TASK_QUEUE E) S empty_ledger
      in (advance G E (T 10) S1, L))"

definition waits_at :: "node \<Rightarrow> string \<Rightarrow> shared \<Rightarrow> bool" where
  "waits_at n uuid S = (Option.bind (thread_of uuid S) th_next = Some n)"

text \<open>
  What happens to the ticket: which agents' tasks are late, and what the human answers, if
  anything. Stages the ticket does not come to are passed over.
\<close>

record circumstances =
  late_classify :: bool
  late_draft :: bool
  answer :: "approval_decision option"

definition serve ::
  "engine \<Rightarrow> 'e env_scheme \<Rightarrow> 's agent \<Rightarrow> 's agent \<Rightarrow> (nat \<Rightarrow> timestamp) \<Rightarrow> string \<Rightarrow> create_ticket_request
     \<Rightarrow> 's \<Rightarrow> 's \<Rightarrow> circumstances \<Rightarrow> shared \<times> ledger_store" where
  "serve G E A F T uuid req a f C =
     (let S0 = snd (create_ticket G E (\<lambda>_. T 0) (T 0) uuid req empty_shared);
          (S1, a1, f1) = agent_stage G E A F (late_classify C) T 1 S0 (a, f);
          S2 = (if waits_at Await_draft uuid S1
                then fst (agent_stage G E A F (late_draft C) T 4 S1 (a1, f1)) else S1);
          S3 = (if waits_at Await_approval uuid S2 then approval_stage G E T uuid (answer C) S2
                else S2)
      in finish_stage G E T S3)"

section \<open>Databases with one ticket\<close>

definition one_ticket ::
  "string \<Rightarrow> timestamp \<Rightarrow> task list \<Rightarrow> ticket_status \<Rightarrow> timestamp option \<Rightarrow> timestamp
     \<Rightarrow> pending_signal list \<Rightarrow> int \<Rightarrow> thread \<Rightarrow> shared" where
  "one_ticket uuid t0 rows st wk upd sg n th =
     \<lparr> sq = \<lparr> t_rows = rows, t_seq = int (length rows) + 1 \<rparr>,
       sr = \<lparr> runs = [\<lparr> ticket_id = uuid, run_status = st, wakeup_at = wk, lease_owner = None,
                lease_expires_at = None, created_at = t0, updated_at = upd \<rparr>],
              archive = [], signals = sg, sig_seq = n \<rparr>,
       threads = [(uuid, th)] \<rparr>"

lemma one_ticket_queue [simp]:
  "(one_ticket uuid t0 rows st wk upd sg n th)\<lparr> sq := \<lparr> t_rows = rows', t_seq = int (length rows') + 1 \<rparr> \<rparr>
    = one_ticket uuid t0 rows' st wk upd sg n th"
  by (simp add: one_ticket_def)

lemma waits_at_one [simp]: "waits_at n uuid (one_ticket uuid t0 rows st wk upd sg k th) \<longleftrightarrow> th_next th = Some n"
  by (simp add: waits_at_def one_ticket_def thread_of_def)

text \<open>A task as the graph enqueues it, and as a worker that has taken it leaves it.\<close>

definition fresh_row ::
  "int \<Rightarrow> timestamp \<Rightarrow> string \<Rightarrow> string \<Rightarrow> string \<Rightarrow> json \<Rightarrow> string \<Rightarrow> task" where
  "fresh_row i now qn ty wid pl key = \<lparr> t_id = i, queue_name = qn, task_type = ty,
     t_workflow_id = wid, payload = pl, idempotency_key = key, t_status = Pending, attempts = 0,
     max_attempts = default_max_attempts, available_at = now, enqueued_at = now,
     t_lease_owner = None, t_lease_expires_at = None, t_result = None, t_error = None,
     permanent = False \<rparr>"

definition answered :: "timestamp \<Rightarrow> exn + model \<Rightarrow> task \<Rightarrow> task" where
  "answered now out r = settled_row now out (lease_row now ''w'' r)"

text \<open>An answer that settles its task: a model, or an error that no retry can mend.\<close>

definition conclusive :: "exn + 'm \<Rightarrow> bool" where
  "conclusive out = (case out of Inl e \<Rightarrow> is_permanent e | Inr m \<Rightarrow> True)"

lemma fresh_row_simps [simp]:
  "t_id (fresh_row i now qn ty wid pl key) = i" "queue_name (fresh_row i now qn ty wid pl key) = qn"
  "task_type (fresh_row i now qn ty wid pl key) = ty"
  "t_workflow_id (fresh_row i now qn ty wid pl key) = wid"
  "payload (fresh_row i now qn ty wid pl key) = pl"
  "idempotency_key (fresh_row i now qn ty wid pl key) = key"
  "t_status (fresh_row i now qn ty wid pl key) = Pending"
  "available_at (fresh_row i now qn ty wid pl key) = now"
  "attempts (fresh_row i now qn ty wid pl key) = 0"
  "t_result (fresh_row i now qn ty wid pl key) = None"
  "permanent (fresh_row i now qn ty wid pl key) = False"
  by (simp_all add: fresh_row_def)

lemma answered_simps [simp]:
  "t_id (answered now out r) = t_id r" "idempotency_key (answered now out r) = idempotency_key r"
  "t_status (answered now (Inr m) r) = Done" "t_result (answered now (Inr m) r) = Some (model_dump m)"
  by (simp_all add: answered_def settled_row_def complete_row_def fail_row_def split: sum.splits)

lemma answered_settled: "conclusive out \<Longrightarrow> settled (answered now out r)"
  by (auto simp: conclusive_def answered_def settled_row_def settled_def complete_row_def
      fail_row_def retryable_def split: sum.splits)

lemma answered_failed: "is_permanent e \<Longrightarrow> t_status (answered now (Inl e) r) = Failed"
  by (simp add: answered_def settled_row_def fail_row_def retryable_def)

lemma update_where_append: "update_where P f (xs @ ys) = update_where P f xs @ update_where P f ys"
  by (simp add: update_where_def)

lemma put_fresh:
  assumes "key \<notin> idempotency_key ` set rows" and "n = int (length rows) + 1"
  shows "put_task now qn ty wid pl key \<lparr> t_rows = rows, t_seq = n \<rparr> =
    \<lparr> t_rows = rows @ [fresh_row n now qn ty wid pl key],
      t_seq = int (length (rows @ [fresh_row n now qn ty wid pl key])) + 1 \<rparr>"
  using assms by (auto simp: put_task_def enqueue_def list_ex_iff fresh_row_def)

text \<open>Tasks that are over: their keys are those of earlier stages.\<close>

definition stage_keys :: "string \<Rightarrow> string set \<Rightarrow> string set" where
  "stage_keys uuid tys = (\<Union>ty \<in> tys. {task_key uuid ty, task_key uuid ty @ '':fallback''})"

definition past_rows :: "string \<Rightarrow> string set \<Rightarrow> task list \<Rightarrow> bool" where
  "past_rows uuid tys rows =
     (map t_id rows = map (\<lambda>i. int i + 1) [0..<length rows] \<and>
      (\<forall>r \<in> set rows. settled r \<and> idempotency_key r \<in> stage_keys uuid tys))"

lemma past_rows_Nil [simp]: "past_rows uuid tys []"
  by (simp add: past_rows_def)

lemma past_rows_snoc:
  assumes "past_rows uuid tys rows" and "tys \<subseteq> tys'" and "t_id r = int (length rows) + 1"
    and "settled r" and "idempotency_key r \<in> stage_keys uuid tys'"
  shows "past_rows uuid tys' (rows @ [r])"
  using assms by (fastforce simp: past_rows_def stage_keys_def)

lemma past_rows_old:
  assumes "past_rows uuid tys rows"
  shows "filter (due_in now qn locked) rows = []" and "distinct (map t_id rows)"
    and "\<And>r. r \<in> set rows \<Longrightarrow> t_id r \<le> int (length rows)"
    and "\<And>k. k \<notin> stage_keys uuid tys \<Longrightarrow> k \<notin> idempotency_key ` set rows"
proof -
  have ids: "map t_id rows = map (\<lambda>i. int i + 1) [0..<length rows]"
    and r: "\<forall>r \<in> set rows. settled r \<and> idempotency_key r \<in> stage_keys uuid tys"
    using assms by (auto simp: past_rows_def)
  show "filter (due_in now qn locked) rows = []"
    using r by (auto simp: filter_empty_conv due_in_def settled_def)
  show "distinct (map t_id rows)" unfolding ids by (simp add: distinct_map inj_on_def)
  have "t_id ` set rows = (\<lambda>i. int i + 1) ` {0..<length rows}"
    using arg_cong [OF ids, of set] by simp
  then show "t_id r \<le> int (length rows)" if "r \<in> set rows" for r
    using that imageI [of r "set rows" t_id] by auto
  show "k \<notin> idempotency_key ` set rows" if "k \<notin> stage_keys uuid tys" for k using r that by auto
qed

section \<open>A worker's and a runner's turn\<close>

text \<open>The only due task is the last one; the worker settles it and wakes the run.\<close>

lemma work_last:
  assumes "past_rows uuid tys old" and "t_id r = int (length old) + 1" and "due_in now qn {} r"
    and "t_workflow_id r = uuid" and "run (lease_row now ''w'' r) a = (out, a')"
    and "conclusive out"
  shows "work run now qn (one_ticket uuid t0 (old @ [r]) st wk upd sg n th) a =
    (one_ticket uuid t0 (old @ [answered now out r]) st (Some now) now sg n th, a')"
proof -
  note old = past_rows_old [OF assms(1)]
  have ids: "t_id x \<noteq> t_id r" if "x \<in> set old" for x using old(3) [OF that] assms(2) by auto
  let ?q = "\<lparr> t_rows = old @ [lease_row now ''w'' r], t_seq = int (length (old @ [r])) + 1 \<rparr>"
  have keep: "update_where P f (old @ [x]) = old @ [if P x then f x else x]"
    if "\<And>x. x \<in> set old \<Longrightarrow> \<not> P x" for P f x
    using that by (simp add: update_where_def map_idI)
  have deq: "dequeue now {} qn ''w'' \<lparr> t_rows = old @ [r], t_seq = int (length (old @ [r])) + 1 \<rparr> =
      (Some (lease_row now ''w'' r), ?q)"
    using old(1) [of now qn "{}"] assms(3) ids by (simp add: dequeue_def keep)
  have unleased: "\<not> leased_with_id (t_id r) x" if "x \<in> set old" for x
    using ids [OF that] by (simp add: leased_with_id_def)
  then have "find (leased_with_id (t_id r)) (old @ [lease_row now ''w'' r]) = Some (lease_row now ''w'' r)"
    by (induction old) (auto simp: leased_with_id_def)
  moreover have "update_where (leased_with_id (t_id r)) f (old @ [lease_row now ''w'' r]) =
      old @ [f (lease_row now ''w'' r)]" for f
    using keep [of "leased_with_id (t_id r)"] unleased by (simp add: leased_with_id_def)
  ultimately have "settle_task now (lease_row now ''w'' r) out ?q =
      (True, \<lparr> t_rows = old @ [answered now out r], t_seq = int (length (old @ [r])) + 1 \<rparr>)"
    using assms(6) by (cases out) (simp_all add: settle_task_def complete_task_def fail_task_def
        complete_def fail_def answered_def settled_row_def conclusive_def fail_row_def retryable_def
        complete_row_def)
  then show ?thesis using deq assms(4,5)
    by (simp add: work_def process_one_task_def one_ticket_def wake_run_def wake_row_def)
qed

definition waiting_thread :: "node \<Rightarrow> ticket_state \<Rightarrow> json list \<Rightarrow> json \<Rightarrow> thread" where
  "waiting_thread n st rs env =
     \<lparr> th_values = st, th_next = Some n, th_resumes = rs, th_interrupt = Some env \<rparr>"

lemma parked_waiting: "parked_thread n st env = waiting_thread n st [] env"
  by (simp add: parked_thread_def waiting_thread_def)

text \<open>A runner that finds a value for the wait goes on to the next.\<close>

lemma advance_one:
  assumes "wk = Some k" and "k \<le> now" and "pending_envelope (Some th) = Some env"
    and "th_next th = Some m"
    and "resume_for_run \<lparr> t_rows = rows, t_seq = int (length rows) + 1 \<rparr>
      \<lparr> runs = [], archive = [], signals = sg, sig_seq = n \<rparr> env wk = Some rv"
    and "invoke_resume G E True (\<lambda>_. now) th m (rv_payload rv)
      \<lparr> t_rows = rows, t_seq = int (length rows) + 1 \<rparr> = (res, th', q')"
    and "res = Parked m' st' rs' env' \<and> interrupts = Some env' \<or> res = Finished st' \<and> interrupts = None"
    and "s_status st' = Some status" and "next_wakeup_at E st' interrupts = Inr wk'"
  shows "advance G E now (one_ticket uuid t0 rows st wk upd sg n th) =
    (one_ticket uuid t0 rows status wk' now
      (case consumed_signal_id rv of None \<Rightarrow> sg
       | Some i \<Rightarrow> update_where (\<lambda>g. sig_id g = i)
           (\<lambda>g. g\<lparr> consumed := True, consumed_at := Some now \<rparr>) sg) n th')\<lparr> sq := q' \<rparr>"
proof -
  let ?S = "one_ticket uuid t0 rows st wk upd sg n th"
  define run where "run = claim_row now ''r'' \<lparr> ticket_id = uuid, run_status = st, wakeup_at = wk,
    lease_owner = None, lease_expires_at = None, created_at = t0, updated_at = upd \<rparr>"
  define rs where "rs = \<lparr> runs = [run], archive = [], signals = sg, sig_seq = n \<rparr>"
  have claim: "claim_run now {} ''r'' (sr ?S) = (Some run, rs)"
    using assms(1,2) by (simp add: claim_run_def one_ticket_def claimable_def run_def rs_def)
  have signals: "resume_for_run q rs e w = resume_for_run q \<lparr> runs = [], archive = [], signals = sg,
      sig_seq = n \<rparr> e w" for q e w
    unfolding resume_for_run_def resume_value_of_def approval_resume_value_def rs_def
      run_store.select_convs ..
  have "step G E True (\<lambda>_. now) now now {} ''r'' ?S =
      advance_run G E True (\<lambda>_. now) now uuid th m rv (?S\<lparr> sr := rs \<rparr>)"
    using claim assms(3,4,5) signals
    by (simp add: step_def Let_def thread_of_def one_ticket_def resume_for_run_from_pool_def
        run_def)
  then show ?thesis using assms(6-9)
    by (auto simp: advance_def advance_run_def save_advanced_def one_ticket_def rs_def run_def
        save_run_def split: option.splits)
qed

definition awaits :: "json \<Rightarrow> string \<Rightarrow> bool" where
  "awaits env key =
     (jget env ''idempotency_key'' = Some (JStr key) \<and> \<not> kind_is ''approval_required'' env)"

lemma awaits_envelopes [simp]:
  "awaits (agent_envelope E wid ty wk) (task_key wid ty)"
  "awaits (terminal_envelope E t r) (task_key (id' t) ''finalize'')"
  "awaits (await_envelope key ty wid qn []) key"
  by (simp_all add: awaits_def kind_is_def agent_envelope_def await_envelope_def
      terminal_envelope_def)

lemma pending_waiting [simp]:
  "awaits env key \<Longrightarrow> pending_envelope (Some (waiting_thread m st rs env)) = Some env"
  by (cases env) (simp_all add: awaits_def pending_envelope_def snapshot_interrupts_def
      waiting_thread_def)

lemma next_waiting [simp]: "th_next (waiting_thread m st rs env) = Some m"
  by (simp add: waiting_thread_def)

text \<open>What the runner finds for a settled task, and for a task that is not.\<close>

definition answer_json :: "timestamp \<Rightarrow> exn + model \<Rightarrow> task \<Rightarrow> json" where
  "answer_json now out r =
     (case out of Inr m \<Rightarrow> model_dump m | Inl e \<Rightarrow> failed_payload (answered now out r))"

lemma answer_json_simps [simp]:
  "answer_json now (Inr m) r = model_dump m"
  "is_task_failed (answer_json now (Inl e) r)" "\<not> is_timeout (answer_json now out r)"
proof -
  show "answer_json now (Inr m) r = model_dump m" "is_task_failed (answer_json now (Inl e) r)"
    by (simp_all add: answer_json_def failed_payload_def is_task_failed_def kind_is_def)
  have "\<not> kind_is ''timeout'' (model_dump m)" for m
    by (cases m) (simp_all add: kind_is_def classification_dump_def draft_dump_def result_dump_def)
  then show "\<not> is_timeout (answer_json now out r)"
    by (cases out) (simp_all add: answer_json_def failed_payload_def is_timeout_def kind_is_def)
qed

lemma ready_value:
  assumes "awaits env key" and "key \<notin> idempotency_key ` set old" and "idempotency_key r = key"
    and "conclusive out"
  shows "resume_for_run \<lparr> t_rows = old @ [answered now out r], t_seq = k \<rparr> rs env w =
    Some \<lparr> rv_payload = answer_json now out r, consumed_signal_id = None \<rparr>"
proof -
  have "find (task_ready key) (old @ [answered now out r]) = Some (answered now out r)"
    using assms(2-4) by (induction old)
      (auto simp: task_ready_def conclusive_def answered_failed split: sum.splits)
  then show ?thesis using assms(1,4)
    by (cases out) (simp_all add: resume_for_run_def resume_value_of_def approval_resume_value_def
        awaits_def answer_json_def answered_failed conclusive_def)
qed

lemma timer_value:
  assumes "awaits env key" and "key \<notin> idempotency_key ` set old" and "t_status r = Pending"
    and "t_result r = None"
  shows "resume_for_run \<lparr> t_rows = old @ [r], t_seq = k \<rparr> rs env (Some w) =
    Some \<lparr> rv_payload = timeout_envelope, consumed_signal_id = None \<rparr>"
proof -
  have "find (task_ready key) (old @ [r]) = None"
    using assms(2-4) by (auto simp: find_None_iff task_ready_def)
  then show ?thesis using assms(1)
    by (simp add: resume_for_run_def resume_value_of_def approval_resume_value_def awaits_def)
qed

lemma agent_wakeup:
  "good_env E \<Longrightarrow> next_wakeup_at E st (Some (agent_envelope E wid ty (Some k))) = Inr (Some k)"
  by (simp add: next_wakeup_at_def interrupt_envelope_from_output_def agent_envelope_def
      await_envelope_def parse_wakeup_at_def)

lemma fallback_wakeup: "next_wakeup_at E st (Some (await_envelope key ty wid qn [])) = Inr None"
  by (simp add: next_wakeup_at_def interrupt_envelope_from_output_def await_envelope_def
      parse_wakeup_at_def)

lemma approval_wakeup:
  "good_env E \<Longrightarrow> next_wakeup_at E st (Some (approval_envelope E t d wk)) = Inr (Some wk)"
  by (simp add: next_wakeup_at_def interrupt_envelope_from_output_def approval_envelope_def
      parse_wakeup_at_def)

lemma terminal_wakeup: "next_wakeup_at E st (Some (terminal_envelope E t r)) = Inr None"
  by (simp add: next_wakeup_at_def interrupt_envelope_from_output_def terminal_envelope_def
      parse_wakeup_at_def)

text \<open>The step of a runner that finds a value for a ticket and parks it again.\<close>

lemma advance_wait:
  assumes "k \<le> now" and "pending_envelope (Some (waiting_thread n st rs env)) = Some env"
    and "resume_for_run \<lparr> t_rows = rows, t_seq = int (length rows) + 1 \<rparr>
      \<lparr> runs = [], archive = [], signals = sg, sig_seq = c \<rparr> env (Some k) =
      Some \<lparr> rv_payload = j, consumed_signal_id = None \<rparr>"
    and "invoke_resume G E True (\<lambda>_. now) (waiting_thread n st rs env) n j
      \<lparr> t_rows = rows, t_seq = int (length rows) + 1 \<rparr> =
      (Parked m st' rs' env', th', \<lparr> t_rows = rows', t_seq = int (length rows') + 1 \<rparr>)"
    and "s_status st' = Some status" and "next_wakeup_at E st' (Some env') = Inr wk'"
  shows "advance G E now (one_ticket uuid t0 rows rst (Some k) upd sg c (waiting_thread n st rs env)) =
    one_ticket uuid t0 rows' status wk' now sg c th'"
proof -
  have inv: "invoke_resume G E True (\<lambda>_. now) (waiting_thread n st rs env) n
      (rv_payload \<lparr> rv_payload = j, consumed_signal_id = None \<rparr>)
      \<lparr> t_rows = rows, t_seq = int (length rows) + 1 \<rparr> =
      (Parked m st' rs' env', th', \<lparr> t_rows = rows', t_seq = int (length rows') + 1 \<rparr>)"
    using assms(4) by simp
  have parked: "Parked m st' rs' env' = Parked m st' rs' env' \<and> Some env' = Some env' \<or>
      Parked m st' rs' env' = Finished st' \<and> Some env' = None" by simp
  from advance_one [OF refl assms(1,2) next_waiting assms(3) inv parked assms(5,6),
      of uuid t0 rst upd] show ?thesis by simp
qed

section \<open>An agent's stage\<close>

text \<open>
  The two nodes that await an agent do so in the same way: they go on with \<^verbatim>\<open>cont j\<close> once
  \<^verbatim>\<open>await_agent_task\<close> has returned \<^verbatim>\<open>j\<close>.
\<close>

definition agent_node ::
  "'e env_scheme \<Rightarrow> node \<Rightarrow> ticket_state \<Rightarrow> string \<Rightarrow> string \<Rightarrow> json \<Rightarrow> (json \<Rightarrow> outcome) \<Rightarrow> bool" where
  "agent_node E n st uuid ty pl cont =
     ((\<exists>w. \<forall>clk rs q. body_of E True clk n st rs q =
         (case await_agent_task E True (clk n) ty uuid pl w rs q of
            (Suspended env, q') \<Rightarrow> (Interrupt env, q')
          | (Resumed j, q') \<Rightarrow> (cont j, q'))) \<and>
      (\<forall>j env. cont j \<noteq> Interrupt env))"

definition cancelled :: "task \<Rightarrow> task" where
  "cancelled r = r\<lparr> t_status := Failed, t_error := Some ''redispatched to fallback'',
     permanent := True \<rparr>"

lemma cancelled_simps [simp]:
  "t_id (cancelled r) = t_id r" "idempotency_key (cancelled r) = idempotency_key r"
  "settled (cancelled r)" "t_status (cancelled r) = Failed"
  by (simp_all add: cancelled_def settled_def)

definition fallback_row :: "'e env_scheme \<Rightarrow> int \<Rightarrow> timestamp \<Rightarrow> string \<Rightarrow> string \<Rightarrow> json \<Rightarrow> task" where
  "fallback_row E i now ty wid pl = fresh_row i now (FALLBACK_TASK_QUEUE E) ty wid pl
     (task_key wid ty @ '':fallback'')"

definition fallback_envelope :: "'e env_scheme \<Rightarrow> string \<Rightarrow> string \<Rightarrow> json" where
  "fallback_envelope E wid ty =
     await_envelope (task_key wid ty @ '':fallback'') ty wid (FALLBACK_TASK_QUEUE E) []"

lemma redispatched:
  assumes "task_key wid ty \<notin> idempotency_key ` set old"
    and "task_key wid ty @ '':fallback'' \<notin> idempotency_key ` set old"
    and "idempotency_key r = task_key wid ty" and "t_status r = Pending"
  shows "redispatch_agent_task E True now (task_key wid ty) ty wid pl
      \<lparr> t_rows = old @ [r], t_seq = int (length (old @ [r])) + 1 \<rparr> =
    (True, \<lparr> t_rows = (old @ [cancelled r]) @ [fallback_row E (2 + int (length old)) now ty wid pl],
       t_seq = int (length ((old @ [cancelled r]) @ [fallback_row E (2 + int (length old)) now ty wid pl])) + 1 \<rparr>)"
proof -
  have "update_where (\<lambda>x. idempotency_key x = task_key wid ty \<and> t_status x = Pending)
      (\<lambda>r. r\<lparr> t_status := Failed, t_error := Some ''redispatched to fallback'', permanent := True \<rparr>)
      (old @ [r]) = old @ [cancelled r]"
    using assms update_where_none [of old "\<lambda>x. idempotency_key x = task_key wid ty \<and> t_status x = Pending"]
    by (force simp: update_where_append cancelled_def)
  moreover have "list_ex (\<lambda>x. idempotency_key x = task_key wid ty \<and> t_status x = Pending) (old @ [r])"
    using assms by (simp add: list_ex_iff)
  ultimately have "cancel_pending (task_key wid ty) ''redispatched to fallback''
      \<lparr> t_rows = old @ [r], t_seq = int (length (old @ [r])) + 1 \<rparr> =
      (True, \<lparr> t_rows = old @ [cancelled r], t_seq = int (length (old @ [cancelled r])) + 1 \<rparr>)"
    by (simp add: cancel_pending_def Let_def)
  moreover have "task_key wid ty @ '':fallback'' \<notin> idempotency_key ` set (old @ [cancelled r])"
    using assms by simp
  ultimately show ?thesis
    using put_fresh [of "task_key wid ty @ '':fallback''" "old @ [cancelled r]"]
    by (simp add: redispatch_eq fallback_row_def)
qed

lemma not_redispatched:
  assumes "\<forall>r \<in> set (t_rows q). idempotency_key r = task_key wid ty \<longrightarrow> t_status r \<noteq> Pending"
  shows "redispatch_agent_task E True now (task_key wid ty) ty wid pl q = (False, q)"
proof -
  have "update_where (\<lambda>x. idempotency_key x = task_key wid ty \<and> t_status x = Pending) f (t_rows q) =
      t_rows q" for f
    by (rule update_where_none) (use assms in blast)
  then show ?thesis using assms
    by (auto simp: redispatch_eq cancel_pending_def Let_def list_ex_iff)
qed

context langgraph
begin

text \<open>The timer is due: the task moves to the fallback queue and the ticket waits on.\<close>

lemma times_out:
  assumes "agent_node E n st uuid ty pl cont"
    and "task_key uuid ty \<notin> idempotency_key ` set old"
    and "task_key uuid ty @ '':fallback'' \<notin> idempotency_key ` set old"
    and "idempotency_key r = task_key uuid ty" and "t_status r = Pending"
  shows "invoke_resume G E True clk (waiting_thread n st [] env) n timeout_envelope
      \<lparr> t_rows = old @ [r], t_seq = int (length (old @ [r])) + 1 \<rparr> =
    (Parked n st [timeout_envelope] (fallback_envelope E uuid ty),
     waiting_thread n st [timeout_envelope] (fallback_envelope E uuid ty),
     \<lparr> t_rows = (old @ [cancelled r]) @ [fallback_row E (2 + int (length old)) (clk n) ty uuid pl],
       t_seq = int (length ((old @ [cancelled r]) @
         [fallback_row E (2 + int (length old)) (clk n) ty uuid pl])) + 1 \<rparr>)"
proof -
  obtain w where body: "\<And>clk rs q. body_of E True clk n st rs q =
      (case await_agent_task E True (clk n) ty uuid pl w rs q of
         (Suspended env, q') \<Rightarrow> (Interrupt env, q') | (Resumed j, q') \<Rightarrow> (cont j, q'))"
    using assms(1) by (auto simp: agent_node_def)
  show ?thesis using redispatched [OF assms(2-5), of E "clk n" pl]
    by (simp add: invoke_resume_def drive_unfold [of _ n] body await_agent_task_def
        waiting_thread_def persist_parked fallback_envelope_def)
qed

text \<open>Resumed with an answer, a ticket goes on in the same way whether it has timed out or not.\<close>

lemma answered_second:
  assumes "agent_node E n st uuid ty pl cont" and "\<not> is_timeout j"
    and "\<forall>r \<in> set (t_rows q). idempotency_key r = task_key uuid ty \<longrightarrow> t_status r \<noteq> Pending"
    and "invoke_resume G E True clk (waiting_thread n st [] env) n j q = (Parked m st' [] env', th', q')"
  shows "invoke_resume G E True clk (waiting_thread n st [timeout_envelope] env2) n j q =
    (Parked m st' [] env', th', q')"
proof -
  obtain w where body: "\<And>clk rs q. body_of E True clk n st rs q =
      (case await_agent_task E True (clk n) ty uuid pl w rs q of
         (Suspended env, q') \<Rightarrow> (Interrupt env, q') | (Resumed j, q') \<Rightarrow> (cont j, q'))"
    and cont: "\<And>env. cont j \<noteq> Interrupt env"
    using assms(1) by (auto simp: agent_node_def)
  have first: "body_of E True clk n st [j] q = (cont j, q)"
    using assms(2) by (simp add: body await_agent_task_def)
  have second: "body_of E True clk n st [timeout_envelope, j] q = (cont j, q)"
    using not_redispatched [OF assms(3), of E] by (simp add: body await_agent_task_def)
  show ?thesis using assms(4) cont
    by (cases "cont j")
      (auto simp: invoke_resume_def drive_unfold [of _ n] first second waiting_thread_def
        persist_parked split: prod.splits option.splits)
qed

end

definition agent_row :: "'e env_scheme \<Rightarrow> int \<Rightarrow> timestamp \<Rightarrow> string \<Rightarrow> string \<Rightarrow> json \<Rightarrow> task" where
  "agent_row E i now ty wid pl =
     fresh_row i now (AGENT_TASK_QUEUE E) ty wid pl (task_key wid ty)"

lemmas row_defs = agent_row_def fallback_row_def

definition new_keys :: "string \<Rightarrow> string \<Rightarrow> string set \<Rightarrow> bool" where
  "new_keys uuid ty tys = (stage_keys uuid {ty} \<inter> stage_keys uuid tys = {})"

lemma new_keys_fresh:
  assumes "new_keys uuid ty tys" and "past_rows uuid tys rows"
  shows "task_key uuid ty \<notin> idempotency_key ` set rows"
    and "task_key uuid ty @ '':fallback'' \<notin> idempotency_key ` set rows"
  using assms(1) past_rows_old(4) [OF assms(2)] by (auto simp: new_keys_def stage_keys_def)

lemma stage_keysI [simp]:
  "task_key uuid ty \<in> stage_keys uuid (insert ty tys)"
  "task_key uuid ty @ '':fallback'' \<in> stage_keys uuid (insert ty tys)"
  by (simp_all add: stage_keys_def)

text \<open>
  With a prompt worker: the task is the last row; late: it is cancelled and followed by the
  fallback's. Either way the runner then resumes the ticket with the answer.
\<close>

lemma prompt_stage:
  assumes "\<forall>i. T i \<le> T (Suc i)" and "past_rows uuid tys old" and "new_keys uuid ty tys"
    and "t1 \<le> T k" and "s_status st = Some rst"
    and "\<forall>task. task_type task = ty \<and> payload task = pl \<longrightarrow> run_activity E A task a = (out, x)"
    and "conclusive out" and "r = agent_row E (int (length old) + 1) t1 ty uuid pl"
    and "old' = old @ [answered (T (k + 1)) out r]" and "env = agent_envelope E uuid ty w"
    and "invoke_resume G E True (\<lambda>_. T (k + 2)) (waiting_thread n st [] env) n
      (answer_json (T (k + 1)) out r) \<lparr> t_rows = old', t_seq = int (length old') + 1 \<rparr> =
      (Parked m st' [] env', th', \<lparr> t_rows = rows', t_seq = int (length rows') + 1 \<rparr>)"
    and "s_status st' = Some status" and "next_wakeup_at E st' (Some env') = Inr wk'"
  shows "past_rows uuid (insert ty tys) old'"
    and "agent_stage G E A F False T k (one_ticket uuid t0 (old @ [r]) rst wk upd sg c
        (waiting_thread n st [] env)) (a, f) =
      (one_ticket uuid t0 rows' status wk' (T (k + 2)) sg c th', x, f)"
proof -
  have le: "t1 \<le> T (k + 1)" "T (k + 1) \<le> T (k + 2)"
    using assms(1) [rule_format, of k] assms(1) [rule_format, of "k + 1"] assms(4) by simp_all
  have r: "t_id r = int (length old) + 1" "idempotency_key r = task_key uuid ty"
    "task_type r = ty" "payload r = pl" by (simp_all add: assms(8) row_defs)
  show past: "past_rows uuid (insert ty tys) old'" unfolding assms(9)
    by (rule past_rows_snoc [OF assms(2)]) (auto simp: r answered_settled [OF assms(7)])
  have 1: "work (run_activity E A) (T (k + 1)) (AGENT_TASK_QUEUE E)
      (one_ticket uuid t0 (old @ [r]) rst wk upd sg c (waiting_thread n st [] env)) a =
      (one_ticket uuid t0 old' rst (Some (T (k + 1))) (T (k + 1)) sg c (waiting_thread n st [] env), x)"
    unfolding assms(9)
    by (rule work_last [OF assms(2) r(1)])
      (use assms(6,7) le r in \<open>simp_all add: assms(8) row_defs due_in_def lease_row_def\<close>)
  have ready: "resume_for_run \<lparr> t_rows = old', t_seq = int (length old') + 1 \<rparr>
      \<lparr> runs = [], archive = [], signals = sg, sig_seq = c \<rparr> env (Some (T (k + 1))) =
      Some \<lparr> rv_payload = answer_json (T (k + 1)) out r, consumed_signal_id = None \<rparr>"
    unfolding assms(9,10)
    by (rule ready_value [OF awaits_envelopes(1) new_keys_fresh(1) [OF assms(3,2)] r(2) assms(7)])
  note pend = pending_waiting [OF awaits_envelopes(1) [of E uuid ty w], of n st "[]", folded assms(10)]
  from advance_wait [OF le(2) pend ready assms(11-13), of uuid t0 rst "T (k + 1)"]
  show "agent_stage G E A F False T k (one_ticket uuid t0 (old @ [r]) rst wk upd sg c
        (waiting_thread n st [] env)) (a, f) =
      (one_ticket uuid t0 rows' status wk' (T (k + 2)) sg c th', x, f)"
    using 1 by (simp add: agent_stage_def assms(10))
qed

lemma late_stage:
  assumes "langgraph G" and "agent_node E n st uuid ty pl cont"
    and "\<forall>i. T i \<le> T (Suc i)" and "past_rows uuid tys old" and "new_keys uuid ty tys"
    and "due \<le> T k" and "s_status st = Some rst"
    and "\<forall>task. task_type task = ty \<and> payload task = pl \<longrightarrow> run_activity E F task f = (out, x)"
    and "conclusive out" and "r = agent_row E (int (length old) + 1) t1 ty uuid pl"
    and "fb = fallback_row E (2 + int (length old)) (T k) ty uuid pl"
    and "old' = (old @ [cancelled r]) @ [answered (T (k + 1)) out fb]"
    and "env = agent_envelope E uuid ty w"
    and "invoke_resume G E True (\<lambda>_. T (k + 2)) (waiting_thread n st [] env) n
      (answer_json (T (k + 1)) out fb) \<lparr> t_rows = old', t_seq = int (length old') + 1 \<rparr> =
      (Parked m st' [] env', th', \<lparr> t_rows = rows', t_seq = int (length rows') + 1 \<rparr>)"
    and "s_status st' = Some status" and "next_wakeup_at E st' (Some env') = Inr wk'"
  shows "past_rows uuid (insert ty tys) old'"
    and "agent_stage G E A F True T k (one_ticket uuid t0 (old @ [r]) rst (Some due) upd sg c
        (waiting_thread n st [] env)) (a, f) =
      (one_ticket uuid t0 rows' status wk' (T (k + 2)) sg c th', a, x)"
proof -
  let ?mid = "old @ [cancelled r]"
  let ?th = "waiting_thread n st [timeout_envelope] (fallback_envelope E uuid ty)"
  note keys = new_keys_fresh [OF assms(5,4)]
  have le: "T k \<le> T (k + 1)" "T (k + 1) \<le> T (k + 2)"
    using assms(3) [rule_format, of k] assms(3) [rule_format, of "k + 1"] by simp_all
  have r: "t_id r = int (length old) + 1" "idempotency_key r = task_key uuid ty"
    "t_status r = Pending" "t_result r = None" by (simp_all add: assms(10) row_defs)
  have fb: "t_id fb = int (length ?mid) + 1" "idempotency_key fb = task_key uuid ty @ '':fallback''"
    "task_type fb = ty" "payload fb = pl" by (simp_all add: assms(11) row_defs)
  have mid: "past_rows uuid (insert ty tys) ?mid"
    by (rule past_rows_snoc [OF assms(4)]) (auto simp: r)
  show past: "past_rows uuid (insert ty tys) old'" unfolding assms(12)
    by (rule past_rows_snoc [OF mid]) (simp_all add: fb answered_settled [OF assms(9)])
  have timer: "resume_for_run \<lparr> t_rows = old @ [r], t_seq = int (length (old @ [r])) + 1 \<rparr>
      \<lparr> runs = [], archive = [], signals = sg, sig_seq = c \<rparr> env (Some due) =
      Some \<lparr> rv_payload = timeout_envelope, consumed_signal_id = None \<rparr>"
    unfolding assms(13) by (rule timer_value [OF awaits_envelopes(1) keys(1) r(3,4)])
  have 1: "advance G E (T k) (one_ticket uuid t0 (old @ [r]) rst (Some due) upd sg c
      (waiting_thread n st [] env)) = one_ticket uuid t0 (?mid @ [fb]) rst None (T k) sg c ?th"
    using advance_wait [OF assms(6) pending_waiting [OF awaits_envelopes(1)] timer [unfolded assms(13)] langgraph.times_out [OF assms(1,2) keys r(2,3)] assms(7)
        fallback_wakeup [of E st "task_key uuid ty @ '':fallback''" ty uuid "FALLBACK_TASK_QUEUE E",
          folded fallback_envelope_def], of uuid t0 rst upd]
    by (simp add: assms(11,13))
  have 2: "work (run_activity E F) (T (k + 1)) (FALLBACK_TASK_QUEUE E)
      (one_ticket uuid t0 (?mid @ [fb]) rst None (T k) sg c ?th) f =
      (one_ticket uuid t0 old' rst (Some (T (k + 1))) (T (k + 1)) sg c ?th, x)"
    unfolding assms(12)
    by (rule work_last [OF mid fb(1)])
      (use assms(8,9) le fb in \<open>simp_all add: assms(11) row_defs due_in_def lease_row_def\<close>)
  have mid_keys: "task_key uuid ty @ '':fallback'' \<notin> idempotency_key ` set ?mid"
    using keys(2) by (simp add: r)
  have ready: "resume_for_run \<lparr> t_rows = old', t_seq = int (length old') + 1 \<rparr>
      \<lparr> runs = [], archive = [], signals = sg, sig_seq = c \<rparr> (fallback_envelope E uuid ty)
      (Some (T (k + 1))) =
      Some \<lparr> rv_payload = answer_json (T (k + 1)) out fb, consumed_signal_id = None \<rparr>"
    unfolding assms(12) fallback_envelope_def
    by (rule ready_value [OF awaits_envelopes(3) mid_keys fb(2) assms(9)])
  have none: "\<forall>x \<in> set (t_rows \<lparr> t_rows = old', t_seq = int (length old') + 1 \<rparr>).
      idempotency_key x = task_key uuid ty \<longrightarrow> t_status x \<noteq> Pending"
    using past by (auto simp: past_rows_def settled_def)
  note inv = langgraph.answered_second [OF assms(1,2) answer_json_simps(3) none assms(14)]
  have "pending_envelope (Some ?th) = Some (fallback_envelope E uuid ty)"
    unfolding fallback_envelope_def by (rule pending_waiting [OF awaits_envelopes(3)])
  from advance_wait [OF le(2) this ready inv assms(15,16), of uuid t0 rst "T (k + 1)"]
  show "agent_stage G E A F True T k (one_ticket uuid t0 (old @ [r]) rst (Some due) upd sg c
        (waiting_thread n st [] env)) (a, f) =
      (one_ticket uuid t0 rows' status wk' (T (k + 2)) sg c th', a, x)"
    using 1 2 by (simp add: agent_stage_def)
qed

end
