(* ===== verification/EndToEnd.thy ===== *)
theory EndToEnd
  imports Schedule
begin

text \<open>
  A ticket's whole way through the processes, on the schedules of \<^verbatim>\<open>Schedule\<close>: whichever
  agent takes its tasks, whether they answer or fail for good, and whatever a human answers, if
  anything, the ticket comes to the end \<^verbatim>\<open>verdict\<close> says, with everything accounted for.
\<close>

section \<open>Either agent's stage\<close>

text \<open>Who is asked: the primary agent, or the fallback agent when the task is late.\<close>

definition asked_of :: "bool \<Rightarrow> ('a \<Rightarrow> 'o \<times> 'a) \<Rightarrow> ('f \<Rightarrow> 'o \<times> 'f) \<Rightarrow> 'a \<times> 'f \<Rightarrow> 'o \<times> 'a \<times> 'f" where
  "asked_of late primary fallback = (\<lambda>(a, f).
     if late then (let (r, f') = fallback f in (r, a, f'))
     else (let (r, a') = primary a in (r, a', f)))"

definition classified_by ::
  "'s agent \<Rightarrow> 's agent \<Rightarrow> bool \<Rightarrow> ticket \<Rightarrow> 's \<times> 's \<Rightarrow> (exn + classification) \<times> 's \<times> 's" where
  "classified_by A F late t = asked_of late (\<lambda>a. classify A a t) (\<lambda>f. classify F f t)"

definition drafted_by ::
  "'s agent \<Rightarrow> 's agent \<Rightarrow> bool \<Rightarrow> ticket \<Rightarrow> classification \<Rightarrow> 's \<times> 's
     \<Rightarrow> (exn + draft_reply) \<times> 's \<times> 's" where
  "drafted_by A F late t c =
     asked_of late (\<lambda>a. draft_reply_of A a t c) (\<lambda>f. draft_reply_of F f t c)"

lemma either_stage:
  assumes "langgraph G" and "agent_node E n st uuid ty pl cont"
    and "\<forall>i. T i \<le> T (Suc i)" and "past_rows uuid tys old" and "new_keys uuid ty tys"
    and "t1 \<le> T k" and "late \<longrightarrow> due \<le> T k" and "s_status st = Some rst"
    and "\<forall>task. task_type task = ty \<and> payload task = pl \<longrightarrow>
      asked_of late (run_activity E A task) (run_activity E F task) af = (out, af')"
    and "conclusive out" and "r = agent_row E (int (length old) + 1) t1 ty uuid pl"
    and "env = agent_envelope E uuid ty w"
    and "\<And>rows now r. past_rows uuid (insert ty tys) rows \<Longrightarrow>
      invoke_resume G E True (\<lambda>_. T (k + 2)) (waiting_thread n st [] env) n (answer_json now out r)
        \<lparr> t_rows = rows, t_seq = int (length rows) + 1 \<rparr> =
      (Parked m st' [] env', th', \<lparr> t_rows = grow rows, t_seq = int (length (grow rows)) + 1 \<rparr>)"
    and "s_status st' = Some status" and "next_wakeup_at E st' (Some env') = Inr wk'"
  shows "\<exists>rows. past_rows uuid (insert ty tys) rows \<and>
    agent_stage G E A F late T k (one_ticket uuid t0 (old @ [r]) rst (Some due) upd sg c
        (waiting_thread n st [] env)) af =
      (one_ticket uuid t0 (grow rows) status wk' (T (k + 2)) sg c th', af')"
proof -
  obtain a f where af: "af = (a, f)" by (cases af)
  show ?thesis
  proof (cases late)
    case True
    then obtain x where x: "af' = (a, x)" using assms(9) [rule_format, of "r\<lparr> task_type := ty, payload := pl \<rparr>"]
      by (auto simp: asked_of_def af split: prod.splits)
    have run: "\<forall>task. task_type task = ty \<and> payload task = pl \<longrightarrow> run_activity E F task f = (out, x)"
      using assms(9) True by (simp add: asked_of_def af x case_prod_beta prod_eq_iff)
    define fb where "fb = fallback_row E (2 + int (length old)) (T k) ty uuid pl"
    define rows where "rows = (old @ [cancelled r]) @ [answered (T (k + 1)) out fb]"
    have due: "due \<le> T k" using assms(7) True by blast
    have past: "past_rows uuid (insert ty tys) rows" unfolding rows_def
      by (rule past_rows_snoc [OF past_rows_snoc [OF assms(4)], of "insert ty tys"])
        (auto simp: assms(11) fb_def row_defs answered_settled [OF assms(10)])
    show ?thesis
      using late_stage(2) [OF assms(1-5) due assms(8) run assms(10,11) fb_def rows_def assms(12)
          assms(13) [OF past] assms(14,15)] past
      by (auto simp: True af x)
  next
    case False
    then obtain x where x: "af' = (x, f)" using assms(9) [rule_format, of "r\<lparr> task_type := ty, payload := pl \<rparr>"]
      by (auto simp: asked_of_def af split: prod.splits)
    have run: "\<forall>task. task_type task = ty \<and> payload task = pl \<longrightarrow> run_activity E A task a = (out, x)"
      using assms(9) False by (simp add: asked_of_def af x case_prod_beta prod_eq_iff)
    define rows where "rows = old @ [answered (T (k + 1)) out r]"
    have past: "past_rows uuid (insert ty tys) rows" unfolding rows_def
      by (rule past_rows_snoc [OF assms(4)])
        (auto simp: assms(11) row_defs answered_settled [OF assms(10)])
    show ?thesis
      using prompt_stage(2) [OF assms(3-6,8) run assms(10,11) rows_def assms(12)
          assms(13) [OF past] assms(14,15)] past
      by (auto simp: False af x)
  qed
qed

section \<open>The two agents' nodes\<close>

definition after_classify :: "'e env_scheme \<Rightarrow> ticket_state \<Rightarrow> json \<Rightarrow> outcome" where
  "after_classify E st j =
     (if is_task_failed j
      then Return (st\<lparr> s_classification := Some failure_classification,
        s_draft := Some failure_draft, s_needs_approval := Some False,
        s_status := Some ESCALATED, s_wakeup_at := None \<rparr>)
      else case classification_validate E j of Inl e \<Rightarrow> Raise e
        | Inr c \<Rightarrow> Return (st\<lparr> s_classification := Some c, s_status := Some CLASSIFYING,
            s_wakeup_at := None \<rparr>))"

definition after_draft :: "'e env_scheme \<Rightarrow> ticket_state \<Rightarrow> json \<Rightarrow> outcome" where
  "after_draft E st j =
     (if is_task_failed j
      then Return (st\<lparr> s_draft := Some failure_draft, s_needs_approval := Some False,
        s_status := Some ESCALATED, s_wakeup_at := None \<rparr>)
      else case draft_validate E j of Inl e \<Rightarrow> Raise e
        | Inr d \<Rightarrow> Return (st\<lparr> s_draft := Some d, s_status := Some DRAFTING, s_wakeup_at := None \<rparr>))"

lemma classify_node:
  assumes "s_ticket st = Some t"
  shows "agent_node E Await_classify st (id' t) ''classify'' (classify_payload t) (after_classify E st)"
  unfolding agent_node_def
  by (rule conjI, rule exI [of _ "s_wakeup_at st"])
    (auto simp: assms body_of_def await_classify_def after_classify_def split: sum.splits prod.splits
      awaited.splits)

lemma draft_node:
  assumes "s_ticket st = Some t" and "s_classification st = Some c"
  shows "agent_node E Await_draft st (id' t) ''draft'' (draft_payload t c) (after_draft E st)"
  unfolding agent_node_def
  by (rule conjI, rule exI [of _ "s_wakeup_at st"])
    (auto simp: assms body_of_def await_draft_def after_draft_def split: sum.splits prod.splits
      awaited.splits)

section \<open>Coming to the last wait\<close>

definition given_up :: "ticket \<Rightarrow> classification \<Rightarrow> ticket_state" where
  "given_up t c = (initial_state t)\<lparr> s_classification := Some c, s_draft := Some failure_draft,
     s_needs_approval := Some False, s_status := Some ESCALATED, s_wakeup_at := None \<rparr>"

context langgraph
begin

lemma classify_fails:
  assumes "is_task_failed j" and "r = expected_result t failure_classification failure_draft (Some ESCALATED)"
  shows "invoke_resume G E ua clk (waiting_thread Await_classify (classifying E clk0 t) [] env)
      Await_classify j q =
    (Parked Execute (given_up t failure_classification) [] (terminal_envelope E t r),
     waiting_thread Execute (given_up t failure_classification) [] (terminal_envelope E t r),
     put_finalize E (clk Execute) t failure_classification failure_draft (Some ESCALATED) q)"
proof -
  have "\<not> is_timeout j" using assms(1) by (auto simp: is_timeout_def is_task_failed_def kind_is_def)
  then show ?thesis using assms
    by (simp add: invoke_resume_def drive_nodes body_of_def await_classify_def await_agent_task_def
        classifying_def given_up_def initial_state_def persist_simps waiting_thread_def
        route_after_classify_def execute_parks)
qed

lemma draft_fails:
  assumes "is_task_failed j" and "r = expected_result t c failure_draft (Some ESCALATED)"
  shows "invoke_resume G E ua clk (waiting_thread Await_draft (drafting E clk0 t c) [] env)
      Await_draft j q =
    (Parked Execute (given_up t c) [] (terminal_envelope E t r),
     waiting_thread Execute (given_up t c) [] (terminal_envelope E t r),
     put_finalize E (clk Execute) t c failure_draft (Some ESCALATED) q)"
proof -
  have "\<not> is_timeout j" using assms(1) by (auto simp: is_timeout_def is_task_failed_def kind_is_def)
  then show ?thesis using assms
    by (simp add: invoke_resume_def drive_nodes body_of_def await_draft_def await_agent_task_def
        drafting_def given_up_def initial_state_def persist_simps waiting_thread_def
        route_after_draft_def execute_parks)
qed

end

definition final_row ::
  "'e env_scheme \<Rightarrow> int \<Rightarrow> timestamp \<Rightarrow> ticket \<Rightarrow> classification \<Rightarrow> draft_reply \<Rightarrow> ticket_status option
     \<Rightarrow> task" where
  "final_row E i now t c d st = fresh_row i now (TASK_QUEUE E) ''finalize_ticket'' (id' t)
     (finalize_payload t (action d) (expected_result t c d st)) (task_key (id' t) ''finalize'')"

abbreviation agent_tasks :: "string set" where
  "agent_tasks \<equiv> {''draft'', ''classify''}"

lemma past_rows_mono: "past_rows uuid tys rows \<Longrightarrow> tys \<subseteq> tys' \<Longrightarrow> past_rows uuid tys' rows"
  by (fastforce simp: past_rows_def stage_keys_def)

lemma other_keys [simp]:
  "new_keys uuid ''classify'' {}" "new_keys uuid ''draft'' {''classify''}"
  "task_key uuid ''finalize'' \<notin> stage_keys uuid agent_tasks"
  by (auto simp: new_keys_def stage_keys_def task_key_def)

lemma put_final:
  assumes "past_rows (id' t) agent_tasks rows"
  shows "put_finalize E now t c d st \<lparr> t_rows = rows, t_seq = int (length rows) + 1 \<rparr> =
    \<lparr> t_rows = rows @ [final_row E (int (length rows) + 1) now t c d st],
      t_seq = int (length (rows @ [final_row E (int (length rows) + 1) now t c d st])) + 1 \<rparr>"
  using put_fresh [OF past_rows_old(4) [OF assms other_keys(3)] refl]
  by (simp add: put_finalize_def final_row_def)

text \<open>The ticket waits for its finalize task, which is in the queue; nothing else is to be done.\<close>

definition at_last_wait ::
  "'e env_scheme \<Rightarrow> timestamp \<Rightarrow> timestamp \<Rightarrow> ticket \<Rightarrow> classification \<Rightarrow> draft_reply \<Rightarrow> ticket_status
     \<Rightarrow> approval_decision option \<Rightarrow> shared \<Rightarrow> bool" where
  "at_last_wait E t0 by t c d s dec S =
     (\<exists>rows now rst upd sg n st.
        S = one_ticket (id' t) t0 (rows @ [final_row E (int (length rows) + 1) now t c d (Some s)])
              rst None upd sg n (waiting_thread Execute st []
                (terminal_envelope E t (expected_result t c d (Some s)))) \<and>
        past_rows (id' t) agent_tasks rows \<and> now \<le> by \<and> s_ticket st = Some t \<and> s_draft st = Some d \<and>
        s_classification st = Some c \<and> s_status st = Some s \<and> s_decision st = dec)"

lemma conclusive_map [simp]: "conclusive (map_sum id f out) = conclusive out"
  by (cases out) (simp_all add: conclusive_def)

lemma run_classify:
  "task_type task = ''classify'' \<Longrightarrow> payload task = classify_payload t \<Longrightarrow>
   run_activity E A task a = (let (r, a') = classify A a t in (map_sum id MClassification r, a'))"
  by (simp add: run_activity_def payload_field_def classify_payload_def classify_ticket_def)

lemma run_draft:
  "task_type task = ''draft'' \<Longrightarrow> payload task = draft_payload t c \<Longrightarrow> good_coercion E \<Longrightarrow>
   valid_classification c \<Longrightarrow>
   run_activity E A task a = (let (r, a') = draft_reply_of A a t c in (map_sum id MDraft r, a'))"
  by (simp add: run_activity_def payload_field_def draft_payload_def draft_reply_activity_def
      classification_validate_dump)

lemma created:
  assumes "langgraph G" and "t = new_ticket uuid req"
  shows "snd (create_ticket G E (\<lambda>_. T0) T0 uuid req empty_shared) =
    one_ticket uuid T0 ([] @ [agent_row E (int (length []) + 1) T0 ''classify'' uuid (classify_payload t)])
      CLASSIFYING (Some (T0 + SCHEDULE_TO_START E)) T0 [] 1
      (waiting_thread Await_classify (classifying E (\<lambda>_. T0) t) []
        (agent_envelope E uuid ''classify'' (Some (T0 + SCHEDULE_TO_START E))))"
proof -
  have id: "id' t = uuid" by (simp add: assms(2) new_ticket_def)
  show ?thesis
    using langgraph.start_ticket [OF assms(1), of E True "\<lambda>_. T0" t empty_queue]
      put_fresh [of "task_key uuid ''classify''" "[]" 1]
    by (simp add: create_ticket_def new_ticket_def [symmetric] assms(2) [symmetric] Let_def id
        empty_shared_def empty_queue_def one_ticket_def agent_row_def classifying_def
        initial_state_def create_run_def empty_runs_def parked_waiting waiting_thread_def)
qed

lemma classifying_state [simp]:
  "s_ticket (classifying E clk t) = Some t" "s_status (classifying E clk t) = Some CLASSIFYING"
  "s_ticket (drafting E clk t c) = Some t" "s_classification (drafting E clk t c) = Some c"
  "s_status (drafting E clk t c) = Some DRAFTING"
  "s_ticket (given_up t c) = Some t" "s_draft (given_up t c) = Some failure_draft"
  "s_classification (given_up t c) = Some c" "s_status (given_up t c) = Some ESCALATED"
  "s_decision (given_up t c) = None"
  by (simp_all add: classifying_def drafting_def given_up_def initial_state_def)

text \<open>A new ticket is classified, or given up.\<close>

lemma classify_stage:
  assumes "langgraph G" and "good_env E" and "\<forall>i. T i \<le> T (Suc i)" and "t = new_ticket uuid req"
    and "late \<longrightarrow> T 0 + SCHEDULE_TO_START E \<le> T 1"
    and "classified_by A F late t af = (co, af')" and "conclusive co"
    and "\<forall>c. co = Inr c \<longrightarrow> valid_classification c"
    and "S = snd (create_ticket G E (\<lambda>_. T 0) (T 0) uuid req empty_shared)"
  shows "case co of
      Inl e \<Rightarrow> \<exists>S'. agent_stage G E A F late T 1 S af = (S', af') \<and>
        at_last_wait E (T 0) (T 3) t failure_classification failure_draft ESCALATED None S'
    | Inr c \<Rightarrow> \<exists>rows. past_rows uuid {''classify''} rows \<and> agent_stage G E A F late T 1 S af =
        (one_ticket uuid (T 0)
           (rows @ [agent_row E (int (length rows) + 1) (T 3) ''draft'' uuid (draft_payload t c)])
           DRAFTING (Some (T 3 + SCHEDULE_TO_START E)) (T 3) [] 1
           (waiting_thread Await_draft (drafting E (\<lambda>_. T 3) t c) []
             (agent_envelope E uuid ''draft'' (Some (T 3 + SCHEDULE_TO_START E)))), af')"
proof -
  have id: "id' t = uuid" by (simp add: assms(4) new_ticket_def)
  let ?st = "classifying E (\<lambda>_. T 0) t"
  note node = classify_node [of ?st t E, unfolded id, OF classifying_state(1)]
  have le: "T 0 \<le> T 1" using assms(3) [rule_format, of 0] by simp
  have run: "\<forall>task. task_type task = ''classify'' \<and> payload task = classify_payload t \<longrightarrow>
      asked_of late (run_activity E A task) (run_activity E F task) af =
        (map_sum id MClassification co, af')"
    using assms(6)
    by (auto simp: run_classify classified_by_def asked_of_def Let_def split: prod.splits if_splits)
  have out: "conclusive (map_sum id MClassification co)" using assms(7) by simp
  note stage = either_stage [OF assms(1) node assms(3) past_rows_Nil other_keys(1) le assms(5)
      classifying_state(2) run out refl refl]
  let ?env = "agent_envelope E uuid ''classify'' (Some (T 0 + SCHEDULE_TO_START E))"
  have S: "S = one_ticket uuid (T 0)
      ([] @ [agent_row E (int (length []) + 1) (T 0) ''classify'' uuid (classify_payload t)])
      CLASSIFYING (Some (T 0 + SCHEDULE_TO_START E)) (T 0) [] 1 (waiting_thread Await_classify ?st [] ?env)"
    unfolding assms(9) by (rule created [OF assms(1,4)])
  show ?thesis
  proof (cases co)
    case (Inl e)
    let ?c = failure_classification
    let ?r = "expected_result t ?c failure_draft (Some ESCALATED)"
    have inv: "invoke_resume G E True (\<lambda>_. T (1 + 2)) (waiting_thread Await_classify ?st [] ?env)
        Await_classify (answer_json now (map_sum id MClassification co) x)
        \<lparr> t_rows = rows, t_seq = int (length rows) + 1 \<rparr> =
        (Parked Execute (given_up t ?c) [] (terminal_envelope E t ?r),
         waiting_thread Execute (given_up t ?c) [] (terminal_envelope E t ?r),
         \<lparr> t_rows = rows @ [final_row E (int (length rows) + 1) (T 3) t ?c failure_draft (Some ESCALATED)],
           t_seq = int (length (rows @ [final_row E (int (length rows) + 1) (T 3) t ?c failure_draft
             (Some ESCALATED)])) + 1 \<rparr>)"
      if "past_rows uuid {''classify''} rows" for rows now x
      using that put_final [of t rows E "T 3" ?c failure_draft "Some ESCALATED"]
        past_rows_mono [of uuid "{''classify''}" rows agent_tasks] id
      by (simp add: Inl numeral_3_eq_3 langgraph.classify_fails [OF assms(1) answer_json_simps(2) refl])
    from stage [OF inv classifying_state(9) terminal_wakeup, of "T 0" "T 0" "[]" 1, folded S] obtain rows where
      rows: "past_rows uuid {''classify''} rows" "agent_stage G E A F late T 1 S af =
        (one_ticket uuid (T 0) (rows @ [final_row E (int (length rows) + 1) (T 3) t ?c failure_draft
           (Some ESCALATED)]) ESCALATED None (T 3) [] 1
         (waiting_thread Execute (given_up t ?c) [] (terminal_envelope E t ?r)), af')"
      by (auto simp: numeral_3_eq_3)
    moreover have "past_rows uuid agent_tasks rows" by (rule past_rows_mono [OF rows(1)]) simp
    ultimately show ?thesis by (force simp: Inl at_last_wait_def id)
  next
    case (Inr c)
    then have c: "valid_classification c" using assms(8) by blast
    let ?st' = "drafting E (\<lambda>_. T 3) t c"
    let ?env' = "agent_envelope E uuid ''draft'' (Some (T 3 + SCHEDULE_TO_START E))"
    have inv: "invoke_resume G E True (\<lambda>_. T (1 + 2)) (waiting_thread Await_classify ?st [] ?env)
        Await_classify (answer_json now (map_sum id MClassification co) x)
        \<lparr> t_rows = rows, t_seq = int (length rows) + 1 \<rparr> =
        (Parked Await_draft ?st' [] ?env', waiting_thread Await_draft ?st' [] ?env',
         \<lparr> t_rows = rows @ [agent_row E (int (length rows) + 1) (T 3) ''draft'' uuid (draft_payload t c)],
           t_seq = int (length (rows @ [agent_row E (int (length rows) + 1) (T 3) ''draft'' uuid
             (draft_payload t c)])) + 1 \<rparr>)"
      if "past_rows uuid {''classify''} rows" for rows now x
      using langgraph.resume_classified [OF assms(1) good_env_coercion [OF assms(2)] c
          _ refl, of "\<lambda>_. T 0" t True "\<lambda>_. T 3" ?env
          "\<lparr> t_rows = rows, t_seq = int (length rows) + 1 \<rparr>"]
        put_fresh [OF new_keys_fresh(1) [OF other_keys(2) that] refl]
      by (simp add: Inr Let_def id parked_waiting agent_row_def drafting_def initial_state_def
          numeral_3_eq_3)
    from stage [OF inv classifying_state(5) agent_wakeup [OF assms(2)], of "T 0" "T 0" "[]" 1, folded S] show ?thesis
      by (auto simp: Inr numeral_3_eq_3)
  qed
qed

text \<open>A draft is gated, goes straight to its finalize task, or is given up.\<close>

lemma draft_stage:
  assumes "langgraph G" and "good_env E" and "\<forall>i. T i \<le> T (Suc i)" and "id' t = uuid"
    and "past_rows uuid {''classify''} old" and "late \<longrightarrow> T 3 + SCHEDULE_TO_START E \<le> T 4"
    and "drafted_by A F late t c af = (dr, af')" and "conclusive dr"
    and "\<forall>d. dr = Inr d \<longrightarrow> valid_draft d" and "valid_classification c"
    and "S = one_ticket uuid (T 0)
       (old @ [agent_row E (int (length old) + 1) (T 3) ''draft'' uuid (draft_payload t c)])
       DRAFTING (Some (T 3 + SCHEDULE_TO_START E)) (T 3) [] 1
       (waiting_thread Await_draft (drafting E (\<lambda>_. T 3) t c) []
         (agent_envelope E uuid ''draft'' (Some (T 3 + SCHEDULE_TO_START E))))"
  shows "\<exists>S'. agent_stage G E A F late T 4 S af = (S', af') \<and>
    (case dr of
       Inl e \<Rightarrow> at_last_wait E (T 0) (T 6) t c failure_draft ESCALATED None S'
     | Inr d \<Rightarrow>
         if needs_human d
         then \<exists>rows. past_rows uuid agent_tasks rows \<and>
           S' = one_ticket uuid (T 0) rows AWAITING_APPROVAL (Some (T 6 + APPROVAL_TIMEOUT)) (T 6) [] 1
             (waiting_thread Await_approval (gated (\<lambda>_. T 6) t c d) []
               (approval_envelope E t d (T 6 + APPROVAL_TIMEOUT)))
         else at_last_wait E (T 0) (T 6) t c d DRAFTING None S')"
proof -
  let ?st = "drafting E (\<lambda>_. T 3) t c"
  let ?env = "agent_envelope E uuid ''draft'' (Some (T 3 + SCHEDULE_TO_START E))"
  note node = draft_node [of ?st t c E, unfolded assms(4), OF classifying_state(3,4)]
  have le: "T 3 \<le> T 4" using assms(3) [rule_format, of 3] by simp
  have six: "(4::nat) + 2 = 6" by simp
  have run: "\<forall>task. task_type task = ''draft'' \<and> payload task = draft_payload t c \<longrightarrow>
      asked_of late (run_activity E A task) (run_activity E F task) af = (map_sum id MDraft dr, af')"
    using assms(2,7,10)
    by (auto simp: run_draft drafted_by_def asked_of_def Let_def split: prod.splits if_splits)
  have out: "conclusive (map_sum id MDraft dr)" using assms(8) by simp
  note stage = either_stage [OF assms(1) node assms(3,5) other_keys(2) le assms(6)
      classifying_state(5) run out refl refl]
  let ?q = "\<lambda>rows. \<lparr> t_rows = rows, t_seq = int (length rows) + 1 \<rparr>"
  let ?final = "\<lambda>d s rows. rows @ [final_row E (int (length rows) + 1) (T 6) t c d (Some s)]"
  have put: "put_finalize E (T 6) t c d st (?q rows) =
      ?q (rows @ [final_row E (int (length rows) + 1) (T 6) t c d st])"
    if "past_rows uuid agent_tasks rows" for rows d st
    by (rule put_final) (use that assms(4) in simp)
  have finalizes: "\<exists>S'. agent_stage G E A F late T 4 S af = (S', af') \<and> at_last_wait E (T 0) (T 6) t c d s None S'"
    if inv: "\<And>rows now x. past_rows uuid agent_tasks rows \<Longrightarrow>
        invoke_resume G E True (\<lambda>_. T 6) (waiting_thread Await_draft ?st [] ?env) Await_draft
          (answer_json now (map_sum id MDraft dr) x) (?q rows) =
        (Parked Execute st' [] (terminal_envelope E t (expected_result t c d (Some s))),
         waiting_thread Execute st' [] (terminal_envelope E t (expected_result t c d (Some s))),
         ?q (?final d s rows))"
      and st': "s_ticket st' = Some t" "s_draft st' = Some d" "s_classification st' = Some c"
        "s_status st' = Some s" "s_decision st' = None" for d s st'
  proof -
    from stage [unfolded six, OF inv st'(4) terminal_wakeup, of "T 0" "T 3" "[]" 1, folded assms(11)]
    obtain rows where "past_rows uuid agent_tasks rows" "agent_stage G E A F late T 4 S af =
        (one_ticket uuid (T 0) (?final d s rows) s None (T 6) [] 1
         (waiting_thread Execute st' [] (terminal_envelope E t (expected_result t c d (Some s)))), af')"
      by auto
    then show ?thesis using st' assms(4) by (force simp: at_last_wait_def)
  qed
  show ?thesis
  proof (cases dr)
    case (Inl e)
    show ?thesis unfolding Inl sum.case
      by (rule finalizes [where st' = "given_up t c"])
        (simp_all add: Inl langgraph.draft_fails [OF assms(1) answer_json_simps(2) refl] put)
  next
    case (Inr d)
    then have d: "valid_draft d" using assms(9) by blast
    show ?thesis
    proof (cases "needs_human d")
      case True
      let ?env' = "approval_envelope E t d (T 6 + APPROVAL_TIMEOUT)"
      have inv: "invoke_resume G E True (\<lambda>_. T 6) (waiting_thread Await_draft ?st [] ?env) Await_draft
          (answer_json now (map_sum id MDraft dr) x) (?q rows) =
          (Parked Await_approval (gated (\<lambda>_. T 6) t c d) [] ?env',
           waiting_thread Await_approval (gated (\<lambda>_. T 6) t c d) [] ?env', ?q rows)" for rows now x
        using langgraph.resume_drafted_gate [OF assms(1) good_env_coercion [OF assms(2)] d True,
            of True "\<lambda>_. T 6" "\<lambda>_. T 3" t c ?env "?q rows"]
        by (simp add: Inr Let_def parked_waiting)
      have st: "s_status (gated (\<lambda>_. T 6) t c d) = Some AWAITING_APPROVAL" by (simp add: gated_def)
      from stage [unfolded six, OF inv st approval_wakeup [OF assms(2)], of "T 0" "T 3" "[]" 1,
          folded assms(11)] True
      show ?thesis by (auto simp: Inr)
    next
      case False
      have "\<exists>S'. agent_stage G E A F late T 4 S af = (S', af') \<and> at_last_wait E (T 0) (T 6) t c d DRAFTING None S'"
        by (rule finalizes [where st' = "decided t c d"])
          (simp_all add: Inr put langgraph.resume_drafted_auto [OF assms(1)
            good_env_coercion [OF assms(2)] d False, unfolded Let_def parked_waiting],
           simp_all add: decided_def initial_state_def)
      with False show ?thesis by (simp add: Inr)
    qed
  qed
qed

text \<open>The human's answer, or the end of the time for it.\<close>

lemma approval_answered:
  assumes "langgraph G" and "good_env E" and "\<forall>i. T i \<le> T (Suc i)" and "id' t = uuid" and "uuid \<noteq> []"
    and "past_rows uuid agent_tasks rows"
    and "S = one_ticket uuid t0 rows AWAITING_APPROVAL wk upd [] 1
      (waiting_thread Await_approval (gated (\<lambda>_. now) t c d) [] (approval_envelope E t d w))"
    and "s = (if approved dec then AWAITING_APPROVAL else REJECTED)"
  shows "at_last_wait E t0 (T 8) t c d s (Some dec) (approval_stage G E T uuid (Some dec) S)"
proof -
  define g where "g = \<lparr> sig_id = 1, sig_workflow_id = uuid, sig_kind = APPROVAL_DECISION_SIGNAL,
    sig_payload = decision_dump dec, consumed = False, sig_created_at = T 7, consumed_at = None \<rparr>"
  let ?env = "approval_envelope E t d w"
  let ?th = "waiting_thread Await_approval (gated (\<lambda>_. now) t c d) [] ?env"
  let ?q = "\<lparr> t_rows = rows, t_seq = int (length rows) + 1 \<rparr>"
  define st where "st = (gated (\<lambda>_. now) t c d)\<lparr> s_decision := Some dec, s_status := Some s \<rparr>"
  let ?env' = "terminal_envelope E t (expected_result t c d (Some s))"
  let ?rows = "rows @ [final_row E (int (length rows) + 1) (T 8) t c d (Some s)]"
  have 7: "submit_approval (T 7) uuid dec S =
      (Inr AWAITING_APPROVAL, one_ticket uuid t0 rows AWAITING_APPROVAL (Some (T 7)) (T 7) [g] 2 ?th)"
    by (simp add: assms(7) submit_approval_def add_pending_signal_if_waiting_def one_ticket_def
        unconsumed_signal_def wake_row_def g_def)
  have pending: "pending_envelope (Some ?th) = Some ?env"
    by (simp add: pending_envelope_def snapshot_interrupts_def waiting_thread_def
        approval_envelope_def)
  have resume: "resume_for_run ?q \<lparr> runs = [], archive = [], signals = [g], sig_seq = 2 \<rparr> ?env
      (Some (T 7)) = Some \<lparr> rv_payload = decision_envelope dec, consumed_signal_id = Some 1 \<rparr>"
    using assms(4,5)
    by (simp add: resume_for_run_def resume_value_of_def approval_resume_value_def kind_is_def
        approval_envelope_def py_or_def waiting_decision_def first_by_def g_def decision_envelope_def)
  have inv: "invoke_resume G E True (\<lambda>_. T 8) ?th Await_approval
      (rv_payload \<lparr> rv_payload = decision_envelope dec, consumed_signal_id = Some 1 \<rparr>) ?q =
      (Parked Execute st [] ?env', waiting_thread Execute st [] ?env',
       \<lparr> t_rows = ?rows, t_seq = int (length ?rows) + 1 \<rparr>)"
    using langgraph.resume_gate [OF assms(1) good_env_coercion [OF assms(2)] decision_envelope_def,
        of st dec "\<lambda>_. now" t c d True "\<lambda>_. T 8" ?env ?q]
      put_final [of t rows E "T 8" c d "Some s"] assms(4,6,8)
    by (simp add: st_def Let_def parked_waiting)
  have parked: "Parked Execute st [] ?env' = Parked Execute st [] ?env' \<and> Some ?env' = Some ?env' \<or>
      Parked Execute st [] ?env' = Finished st \<and> Some ?env' = None" by simp
  have st: "s_status st = Some s" by (simp add: st_def)
  have le: "T 7 \<le> T 8" using assms(3) [rule_format, of 7] by simp
  from advance_one [OF refl le pending next_waiting resume inv parked st terminal_wakeup,
      of uuid t0 AWAITING_APPROVAL "T 7", unfolded one_ticket_queue]
  obtain sg where "approval_stage G E T uuid (Some dec) S =
      one_ticket uuid t0 ?rows s None (T 8) sg 2 (waiting_thread Execute st [] ?env')"
    using 7 by (auto simp: approval_stage_def)
  then show ?thesis using assms(4,6)
    by (force simp: at_last_wait_def st_def gated_def decided_def initial_state_def)
qed

lemma approval_unanswered:
  assumes "langgraph G" and "id' t = uuid" and "past_rows uuid agent_tasks rows" and "due \<le> T 8"
    and "uuid \<noteq> []"
    and "S = one_ticket uuid t0 rows AWAITING_APPROVAL (Some due) upd [] 1
      (waiting_thread Await_approval (gated (\<lambda>_. now) t c d) [] (approval_envelope E t d w))"
  shows "at_last_wait E t0 (T 8) t c d ESCALATED None (approval_stage G E T uuid None S)"
proof -
  let ?env = "approval_envelope E t d w"
  let ?th = "waiting_thread Await_approval (gated (\<lambda>_. now) t c d) [] ?env"
  let ?q = "\<lparr> t_rows = rows, t_seq = int (length rows) + 1 \<rparr>"
  define st where "st = (gated (\<lambda>_. now) t c d)\<lparr> s_status := Some ESCALATED \<rparr>"
  let ?env' = "terminal_envelope E t (expected_result t c d (Some ESCALATED))"
  let ?rows = "rows @ [final_row E (int (length rows) + 1) (T 8) t c d (Some ESCALATED)]"
  have pending: "pending_envelope (Some ?th) = Some ?env"
    by (simp add: pending_envelope_def snapshot_interrupts_def waiting_thread_def
        approval_envelope_def)
  have resume: "resume_for_run ?q \<lparr> runs = [], archive = [], signals = [], sig_seq = 1 \<rparr> ?env
      (Some due) = Some \<lparr> rv_payload = timeout_envelope, consumed_signal_id = None \<rparr>"
    using assms(2,5)
    by (simp add: resume_for_run_def resume_value_of_def approval_resume_value_def kind_is_def
        approval_envelope_def py_or_def waiting_decision_def first_by_def timeout_envelope_def)
  have inv: "invoke_resume G E True (\<lambda>_. T 8) ?th Await_approval timeout_envelope ?q =
      (Parked Execute st [] ?env', waiting_thread Execute st [] ?env',
       \<lparr> t_rows = ?rows, t_seq = int (length ?rows) + 1 \<rparr>)"
    using langgraph.resume_gate_timeout [OF assms(1) refl, of E True "\<lambda>_. T 8" "\<lambda>_. now" t c d ?env ?q]
      put_final [of t rows E "T 8" c d "Some ESCALATED"] assms(2,3)
    by (simp add: st_def Let_def parked_waiting timeout_envelope_def)
  have st: "s_status st = Some ESCALATED" by (simp add: st_def)
  from advance_wait [OF assms(4) pending resume inv st terminal_wakeup, of uuid t0 AWAITING_APPROVAL upd]
  have "approval_stage G E T uuid None S =
      one_ticket uuid t0 ?rows ESCALATED None (T 8) [] 1 (waiting_thread Execute st [] ?env')"
    by (simp add: approval_stage_def assms(6))
  then show ?thesis using assms(2,3)
    by (force simp: at_last_wait_def st_def gated_def decided_def initial_state_def)
qed

section \<open>The end\<close>

context langgraph
begin

lemma resume_executed:
  assumes "s_ticket st = Some t" and "s_draft st = Some d" and "s_classification st = Some c"
    and "r_ticket_id r = id' t" and "good_coercion E"
    and "st' = st\<lparr> s_result := Some r, s_status := Some (r_status r),
           s_refund_executed := Some (refund_executed r), s_wakeup_at := None \<rparr>"
  shows "invoke_resume G E ua clk (parked_thread Execute st env) Execute (result_dump r) q =
    (Finished st', \<lparr> th_values = st', th_next = None, th_resumes = [], th_interrupt = None \<rparr>,
     put_finalize E (clk Execute) t c d (s_status st) q)"
  using assms
  by (simp add: invoke_resume_def drive_nodes body_of_def execute_def Let_def persist_simps
      parked_thread_def put_finalize_def)

end

lemma advance_end:
  assumes "k \<le> now" and "awaits env key" and "key \<notin> idempotency_key ` set old"
    and "idempotency_key r = key" and "rows = old @ [answered done_at (Inr m) r]"
    and "invoke_resume G E True (\<lambda>_. now) (waiting_thread n st [] env) n (model_dump m)
      \<lparr> t_rows = rows, t_seq = int (length rows) + 1 \<rparr> = (Finished st', th', q')"
    and "t_rows q' = rows" and "s_status st' = Some status" and "s_wakeup_at st' = None"
  shows "\<exists>i. advance G E now (one_ticket uuid t0 rows rst (Some k) upd sg c (waiting_thread n st [] env)) =
    (one_ticket uuid t0 rows status None now sg c th')\<lparr> sq := \<lparr> t_rows = rows, t_seq = i \<rparr> \<rparr>"
proof -
  let ?rv = "\<lparr> rv_payload = model_dump m, consumed_signal_id = None \<rparr>"
  obtain i where q': "q' = \<lparr> t_rows = rows, t_seq = i \<rparr>" using assms(7) by (cases q') simp
  have ready: "resume_for_run \<lparr> t_rows = rows, t_seq = int (length rows) + 1 \<rparr>
      \<lparr> runs = [], archive = [], signals = sg, sig_seq = c \<rparr> env (Some k) = Some ?rv"
    unfolding assms(5) using ready_value [OF assms(2-4), of "Inr m"]
    by (simp add: conclusive_def)
  have inv: "invoke_resume G E True (\<lambda>_. now) (waiting_thread n st [] env) n (rv_payload ?rv)
      \<lparr> t_rows = rows, t_seq = int (length rows) + 1 \<rparr> = (Finished st', th', q')"
    using assms(6) by simp
  have ended: "Finished st' = Parked n st' [] env \<and> None = Some env \<or> Finished st' = Finished st' \<and> None = None"
    by simp
  have "next_wakeup_at E st' None = Inr None"
    using assms(9) by (simp add: next_wakeup_at_def interrupt_envelope_from_output_def)
  from advance_one [OF refl assms(1) pending_waiting [OF assms(2)] next_waiting ready inv ended assms(8) this,
      of uuid t0 rst upd]
  show ?thesis unfolding q' by (intro exI [of _ i]) simp
qed

lemma paid_ledger:
  assumes "valid_action (action d)" and "id' t = uuid" and "good_coercion E"
    and "r_ticket_id r = uuid" and "r' = r\<lparr> refund_executed := pays (action d) r \<rparr>"
    and "L = fold ledger_apply (finalize_ops now1 now2 n t (action d) r) empty_ledger"
  shows "refund_of L uuid = (if pays (action d) r then refund_amount (action d) else None) \<and>
    reply_of L uuid = Some (customer_email t, r_reply_text r) \<and>
    load_result E uuid L = Inr (Some r')"
proof -
  have none: "refund_of empty_ledger t = None" "reply_of empty_ledger t = None" for t
    by (simp_all add: refund_of_def reply_of_def empty_ledger_def find_by_def)
  have "refund_of L uuid = (if pays (action d) r then refund_amount (action d) else None)"
    "reply_of L uuid = Some (customer_email t, r_reply_text r)"
    using assms(1,2,6) none
    by (auto simp: finalize_ops_def refund_of_after reply_of_after pays_def valid_action_def)
  moreover have "load_result E uuid L = Inr (Some r')"
    using assms read_model_roundtrip [OF assms(3), of r'] by (simp add: finalize_ops_def)
  ultimately show ?thesis by blast
qed

text \<open>The side-effect worker's turn: the finalize task pays, answers and is done.\<close>

lemma finalized:
  assumes "good_coercion E" and "valid_draft d" and "id' t = uuid" and "past_rows uuid tys rows"
    and "row = final_row E (int (length rows) + 1) now t c d (Some s)" and "now \<le> then'"
    and "r = expected_result t c d (Some s)" and "r' = r\<lparr> refund_executed := pays (action d) r \<rparr>"
  shows "work (run_finalize E then' then') then' (TASK_QUEUE E)
      (one_ticket uuid t0 (rows @ [row]) rst wk upd sg n th) empty_ledger =
    (one_ticket uuid t0 (rows @ [answered then' (Inr (MResult r')) row]) rst (Some then') then' sg n th,
     fold ledger_apply (finalize_ops then' then' 1 t (action d) r) empty_ledger)"
proof -
  let ?leased = "lease_row then' ''w'' row"
  have "finalize_task ?leased t (action d) r" "attempts ?leased = 1"
    by (simp_all add: assms(5,7) finalize_task_def final_row_def lease_row_def)
  then have run: "run_finalize E then' then' ?leased empty_ledger =
      (Inr (MResult r'), fold ledger_apply (finalize_ops then' then' 1 t (action d) r) empty_ledger)"
    using run_finalize_ops [of ?leased t "action d" r E then' then' empty_ledger] assms(1,2,8)
    by (simp add: valid_draft_def)
  have row: "t_id row = int (length rows) + 1" "due_in then' (TASK_QUEUE E) {} row"
    "t_workflow_id row = uuid" using assms(3,5,6) by (simp_all add: final_row_def due_in_def)
  show ?thesis
    by (rule work_last [where run = "run_finalize E then' then'" and a = empty_ledger, OF assms(4) row run])
      (simp add: conclusive_def)
qed

text \<open>The finalize task pays and answers, and the graph ends with its result.\<close>

lemma finished_stage:
  assumes "langgraph G" and "good_env E" and "valid_draft d" and "id' t = uuid"
    and "at_last_wait E t0 (T 9) t c d s dec S" and "T 9 \<le> T 10"
    and "r = expected_result t c d (Some s)" and "r' = r\<lparr> refund_executed := pays (action d) r \<rparr>"
  shows "\<exists>S' st. finish_stage G E T S =
      (S', fold ledger_apply (finalize_ops (T 9) (T 9) 1 t (action d) r) empty_ledger) \<and>
    thread_of uuid S' = Some \<lparr> th_values = st, th_next = None, th_resumes = [], th_interrupt = None \<rparr> \<and>
    s_status st = Some (r_status r') \<and> s_classification st = Some c \<and> s_draft st = Some d \<and>
    s_decision st = dec \<and> s_result st = Some r' \<and>
    (\<exists>x. run_by_id uuid (sr S') = Some x \<and> run_status x = r_status r' \<and> wakeup_at x = None \<and>
       lease_owner x = None) \<and>
    (\<forall>x \<in> set (t_rows (sq S')). settled x)"
proof -
  obtain rows now rst upd sg n st where
    S: "S = one_ticket uuid t0 (rows @ [final_row E (int (length rows) + 1) now t c d (Some s)]) rst
      None upd sg n (waiting_thread Execute st [] (terminal_envelope E t r))"
    and past: "past_rows uuid agent_tasks rows" and le: "now \<le> T 9"
    and st: "s_ticket st = Some t" "s_draft st = Some d" "s_classification st = Some c"
      "s_status st = Some s" "s_decision st = dec"
    using assms(4,5,7) by (auto simp: at_last_wait_def)
  let ?row = "final_row E (int (length rows) + 1) now t c d (Some s)"
  let ?th = "waiting_thread Execute st [] (terminal_envelope E t r)"
  define L where "L = fold ledger_apply (finalize_ops (T 9) (T 9) 1 t (action d) r) empty_ledger"
  define end' where "end' = st\<lparr> s_result := Some r', s_status := Some (r_status r'),
    s_refund_executed := Some (refund_executed r'), s_wakeup_at := None \<rparr>"
  define rows' where "rows' = rows @ [answered (T 9) (Inr (MResult r')) ?row]"
  have 9: "work (run_finalize E (T 9) (T 9)) (T 9) (TASK_QUEUE E) S empty_ledger =
      (one_ticket uuid t0 rows' rst (Some (T 9)) (T 9) sg n ?th, L)"
    unfolding S rows'_def assms(4) L_def
    by (rule finalized [OF good_env_coercion [OF assms(2)] assms(3,4) past refl le assms(7,8)])
  have key: "task_key (id' t) ''finalize'' \<notin> idempotency_key ` set rows"
    using past_rows_old(4) [OF past other_keys(3)] assms(4) by simp
  have row_key: "idempotency_key ?row = task_key (id' t) ''finalize''" by (simp add: final_row_def)
  have kept: "t_rows (put_finalize E (T 10) t c d (s_status st)
      \<lparr> t_rows = rows', t_seq = int (length rows') + 1 \<rparr>) = rows'"
    by (simp add: put_finalize_def rows'_def keys_def row_key put_task_again)
  have id: "r_ticket_id r' = id' t" using assms(7,8) by simp
  have inv: "invoke_resume G E True (\<lambda>_. T 10) ?th Execute (model_dump (MResult r'))
      \<lparr> t_rows = rows', t_seq = int (length rows') + 1 \<rparr> =
      (Finished end', \<lparr> th_values = end', th_next = None, th_resumes = [], th_interrupt = None \<rparr>,
       put_finalize E (T 10) t c d (s_status st) \<lparr> t_rows = rows', t_seq = int (length rows') + 1 \<rparr>)"
    using langgraph.resume_executed [OF assms(1) st(1-3) id good_env_coercion [OF assms(2)] end'_def]
    by (simp add: parked_waiting)
  have e: "s_status end' = Some (r_status r')" "s_wakeup_at end' = None" by (simp_all add: end'_def)
  from advance_end [OF assms(6) awaits_envelopes(2) key row_key rows'_def inv kept e, of uuid t0 rst]
  obtain i where 10: "advance G E (T 10) (one_ticket uuid t0 rows' rst (Some (T 9)) (T 9) sg n ?th) =
      (one_ticket uuid t0 rows' (r_status r') None (T 10) sg n
        \<lparr> th_values = end', th_next = None, th_resumes = [], th_interrupt = None \<rparr>)
        \<lparr> sq := \<lparr> t_rows = rows', t_seq = i \<rparr> \<rparr>" by blast
  have "\<forall>x \<in> set rows'. settled x"
    using past by (auto simp: rows'_def past_rows_def answered_settled conclusive_def)
  moreover have "finish_stage G E T S = ((one_ticket uuid t0 rows' (r_status r') None (T 10) sg n
        \<lparr> th_values = end', th_next = None, th_resumes = [], th_interrupt = None \<rparr>)
        \<lparr> sq := \<lparr> t_rows = rows', t_seq = i \<rparr> \<rparr>, L)"
    by (simp add: finish_stage_def 9 10)
  ultimately show ?thesis unfolding L_def [symmetric]
    by (simp add: one_ticket_def thread_of_def run_by_id_def find_by_def end'_def st)
qed

section \<open>A ticket served\<close>

text \<open>What becomes of a ticket: the agents' results, the outcome, and the human's decision.\<close>

definition verdict ::
  "exn + classification \<Rightarrow> exn + draft_reply \<Rightarrow> approval_decision option
     \<Rightarrow> classification \<times> draft_reply \<times> ticket_status \<times> approval_decision option" where
  "verdict co dr ans =
     (case (co, dr) of
        (Inl _, _) \<Rightarrow> (failure_classification, failure_draft, ESCALATED, None)
      | (Inr c, Inl _) \<Rightarrow> (c, failure_draft, ESCALATED, None)
      | (Inr c, Inr d) \<Rightarrow>
          if \<not> needs_human d then (c, d, RESOLVED, None)
          else (case ans of
              None \<Rightarrow> (c, d, ESCALATED, None)
            | Some dec \<Rightarrow> (c, d, if approved dec then RESOLVED else REJECTED, Some dec)))"

lemma verdict_refund:
  assumes "verdict co dr ans = (c, d, outcome, dec)"
  shows "outcome = RESOLVED \<and> a_type (action d) = REFUND \<longleftrightarrow>
      a_type (action d) = REFUND \<and> (\<exists>x. dec = Some x \<and> approved x)"
  using assms by (cases ans)
    (auto simp: verdict_def needs_human_def failure_draft_def split: sum.splits if_splits)

lemma at_last_wait_elsewhere:
  assumes "at_last_wait E t0 by t c d s dec S" and "id' t = uuid" and "n \<noteq> Execute"
  shows "\<not> waits_at n uuid S"
  using assms by (auto simp: at_last_wait_def)

lemma at_last_wait_later: "at_last_wait E t0 k t c d s dec S \<Longrightarrow> k \<le> k' \<Longrightarrow> at_last_wait E t0 k' t c d s dec S"
  unfolding at_last_wait_def
  by (elim exE conjE, intro exI conjI) (assumption | (erule order_trans, assumption))+

lemma valid_failure_draft [simp]: "valid_draft failure_draft"
  by (simp add: valid_draft_def failure_draft_def valid_action_def valid_confidence_def)

lemma outcome_of_status:
  "fst (terminal_outcome (Some ESCALATED) d) = ESCALATED"
  "fst (terminal_outcome (Some REJECTED) d) = REJECTED"
  "fst (terminal_outcome (Some DRAFTING) d) = RESOLVED"
  "fst (terminal_outcome (Some AWAITING_APPROVAL) d) = RESOLVED"
  by (simp_all add: terminal_outcome_def)

lemma later:
  assumes "\<forall>i. T i \<le> T (Suc i)" and "i \<le> k"
  shows "(T i :: timestamp) \<le> T k"
  by (rule lift_Suc_mono_le [of T, OF _ assms(2)]) (use assms(1) in blast)

text \<open>The draft as \<^verbatim>\<open>draft_stage\<close> leaves it, and then the human or nobody.\<close>

definition after_draft_stage ::
  "'e env_scheme \<Rightarrow> (nat \<Rightarrow> timestamp) \<Rightarrow> ticket \<Rightarrow> classification \<Rightarrow> exn + draft_reply \<Rightarrow> shared \<Rightarrow> bool"
  where
  "after_draft_stage E T t c dr S =
     (case dr of
        Inl e \<Rightarrow> at_last_wait E (T 0) (T 6) t c failure_draft ESCALATED None S
      | Inr d \<Rightarrow>
          if needs_human d
          then \<exists>rows. past_rows (id' t) agent_tasks rows \<and>
            S = one_ticket (id' t) (T 0) rows AWAITING_APPROVAL (Some (T 6 + APPROVAL_TIMEOUT)) (T 6)
              [] 1 (waiting_thread Await_approval (gated (\<lambda>_. T 6) t c d) []
                (approval_envelope E t d (T 6 + APPROVAL_TIMEOUT)))
          else at_last_wait E (T 0) (T 6) t c d DRAFTING None S)"

lemma drafted_to_last_wait:
  assumes "langgraph G" and "good_env E" and "\<forall>i. T i \<le> T (Suc i)" and "id' t = uuid" and "uuid \<noteq> []"
    and "after_draft_stage E T t k dr S" and "\<forall>d. dr = Inr d \<longrightarrow> valid_draft d"
    and "ans = None \<longrightarrow> T 6 + APPROVAL_TIMEOUT \<le> T 8"
    and "verdict (Inr k) dr ans = (c, d, outcome, dec)"
    and "S' = (if waits_at Await_approval uuid S then approval_stage G E T uuid ans S else S)"
  shows "\<exists>s. at_last_wait E (T 0) (T 9) t c d s dec S' \<and> fst (terminal_outcome (Some s) d) = outcome \<and>
    valid_draft d"
proof -
  note le = later [OF assms(3)]
  have settles: ?thesis
    if "at_last_wait E (T 0) (T 6) t c d s dec S" "fst (terminal_outcome (Some s) d) = outcome"
      "valid_draft d" for s
    using that at_last_wait_elsewhere [OF that(1) assms(4)] at_last_wait_later [OF that(1) le [of 6 9]]
    by (auto simp: assms(10))
  show ?thesis
  proof (cases dr)
    case (Inl e)
    then show ?thesis using settles [of ESCALATED] assms(6,9)
      by (auto simp: after_draft_stage_def verdict_def outcome_of_status)
  next
    case drafted: (Inr d')
    then have d': "valid_draft d'" using assms(7) by blast
    show ?thesis
    proof (cases "needs_human d'")
      case False
      then show ?thesis using settles [of DRAFTING] drafted d' assms(6,9)
        by (auto simp: after_draft_stage_def verdict_def outcome_of_status)
    next
      case True
      then obtain rows where past: "past_rows uuid agent_tasks rows"
        and S: "S = one_ticket uuid (T 0) rows AWAITING_APPROVAL (Some (T 6 + APPROVAL_TIMEOUT)) (T 6) [] 1
           (waiting_thread Await_approval (gated (\<lambda>_. T 6) t k d') []
             (approval_envelope E t d' (T 6 + APPROVAL_TIMEOUT)))"
        using assms(4,6) by (auto simp: after_draft_stage_def drafted)
      have S': "S' = approval_stage G E T uuid ans S" by (simp add: assms(10) S)
      show ?thesis
      proof (cases ans)
        case None
        have "at_last_wait E (T 0) (T 8) t k d' ESCALATED None S'"
          unfolding S' None
          by (rule approval_unanswered [OF assms(1,4) past _ assms(5) S]) (use assms(8) None in simp)
        from at_last_wait_later [OF this le [of 8 9]] show ?thesis using assms(9) d' True
          by (intro exI [of _ ESCALATED]) (auto simp: drafted None verdict_def outcome_of_status)
      next
        case (Some x)
        from at_last_wait_later [OF approval_answered [OF assms(1-5) past S refl, of x] le [of 8 9]]
        show ?thesis using assms(9) d' True
          by (intro exI [of _ "if approved x then AWAITING_APPROVAL else REJECTED"])
            (auto simp: S' drafted Some verdict_def outcome_of_status split: if_splits)
      qed
    qed
  qed
qed

text \<open>Whatever happens to it, the ticket comes to its last wait.\<close>

lemma served_to_last_wait:
  assumes "langgraph G" and "good_env E" and "\<forall>i. T i \<le> T (Suc i)" and "uuid \<noteq> []"
    and "t = new_ticket uuid req"
    and "classified_by A F (late_classify C) t (a, f) = (co, s1)" and "conclusive co"
    and "\<forall>c. co = Inr c \<longrightarrow> valid_classification c"
    and "\<forall>c. co = Inr c \<longrightarrow> fst (drafted_by A F (late_draft C) t c s1) = dr" and "conclusive dr"
    and "\<forall>d. dr = Inr d \<longrightarrow> valid_draft d"
    and "late_classify C \<longrightarrow> T 0 + SCHEDULE_TO_START E \<le> T 1"
    and "late_draft C \<longrightarrow> T 3 + SCHEDULE_TO_START E \<le> T 4"
    and "answer C = None \<longrightarrow> T 6 + APPROVAL_TIMEOUT \<le> T 8"
    and "verdict co dr (answer C) = (c, d, outcome, dec)"
  shows "\<exists>S s. serve G E A F T uuid req a f C = finish_stage G E T S \<and>
    at_last_wait E (T 0) (T 9) t c d s dec S \<and> fst (terminal_outcome (Some s) d) = outcome \<and>
    valid_draft d"
proof -
  have id: "id' t = uuid" by (simp add: assms(5) new_ticket_def)
  define S0 where "S0 = snd (create_ticket G E (\<lambda>_. T 0) (T 0) uuid req empty_shared)"
  note first = classify_stage [OF assms(1-3,5,12,6-8) S0_def]
  show ?thesis
  proof (cases co)
    case (Inl e)
    then obtain S1 where S1: "agent_stage G E A F (late_classify C) T 1 S0 (a, f) = (S1, s1)"
      "at_last_wait E (T 0) (T 3) t failure_classification failure_draft ESCALATED None S1"
      using first by auto
    have "serve G E A F T uuid req a f C = finish_stage G E T S1"
      using S1(1) at_last_wait_elsewhere [OF S1(2) id]
      by (cases s1) (simp add: serve_def S0_def [symmetric])
    then show ?thesis
      using at_last_wait_later [OF S1(2) later [OF assms(3), of 3 9]] assms(15)
      by (intro exI [of _ S1] exI [of _ ESCALATED])
        (auto simp: Inl verdict_def outcome_of_status)
  next
    case (Inr k)
    obtain s2 where dr: "drafted_by A F (late_draft C) t k s1 = (dr, s2)"
      using assms(9) Inr by (cases "drafted_by A F (late_draft C) t k s1") auto
    have k: "valid_classification k" using assms(8) Inr by blast
    obtain rows S1 where rows: "past_rows uuid {''classify''} rows"
      "agent_stage G E A F (late_classify C) T 1 S0 (a, f) = (S1, s1)"
      and S1: "S1 = one_ticket uuid (T 0)
           (rows @ [agent_row E (int (length rows) + 1) (T 3) ''draft'' uuid (draft_payload t k)])
           DRAFTING (Some (T 3 + SCHEDULE_TO_START E)) (T 3) [] 1
           (waiting_thread Await_draft (drafting E (\<lambda>_. T 3) t k) []
             (agent_envelope E uuid ''draft'' (Some (T 3 + SCHEDULE_TO_START E))))"
      using first by (auto simp: Inr)
    obtain S2 where S2: "agent_stage G E A F (late_draft C) T 4 S1 s1 = (S2, s2)"
      "after_draft_stage E T t k dr S2"
      using draft_stage [OF assms(1-3) id rows(1) assms(13) dr assms(10,11) k S1]
      unfolding after_draft_stage_def id by blast
    define S3 where "S3 = (if waits_at Await_approval uuid S2
      then approval_stage G E T uuid (answer C) S2 else S2)"
    have "waits_at Await_draft uuid S1" by (simp add: S1)
    then have "serve G E A F T uuid req a f C = finish_stage G E T S3"
      using rows(2) S2(1) by (cases s1) (simp add: serve_def S0_def [symmetric] S3_def)
    then show ?thesis
      using drafted_to_last_wait [OF assms(1-3) id assms(4) S2(2) assms(11,14) assms(15) [unfolded Inr] S3_def]
      by blast
  qed
qed

text \<open>
  C4: a ticket is served, on an empty database with agents whose answers settle their tasks, and
  processes that take their turns at any non-decreasing times. Whether the primary agent takes a
  task or, its timer past, the fallback agent; whether they answer or fail for good; whether a
  human approves, refuses, or lets the time for it pass: the ticket ends in the outcome and with
  the text these facts determine; the API reports exactly that, with the agents' results and the
  decision; the customer has this one reply, the drafted refund is in the ledger exactly when it
  was approved, and nothing is left to do: every task is settled, there is no timer and no lease.
\<close>

theorem ticket_served:
  assumes "langgraph G" and "good_env E" and "\<forall>i. T i \<le> T (Suc i)" and "uuid \<noteq> []"
    and "t = new_ticket uuid req"
    and "classified_by A F (late_classify C) t (a, f) = (co, s1)" and "conclusive co"
    and "\<forall>c. co = Inr c \<longrightarrow> valid_classification c"
    and "\<forall>c. co = Inr c \<longrightarrow> fst (drafted_by A F (late_draft C) t c s1) = dr" and "conclusive dr"
    and "\<forall>d. dr = Inr d \<longrightarrow> valid_draft d"
    and "late_classify C \<longrightarrow> T 0 + SCHEDULE_TO_START E \<le> T 1"
    and "late_draft C \<longrightarrow> T 3 + SCHEDULE_TO_START E \<le> T 4"
    and "answer C = None \<longrightarrow> T 6 + APPROVAL_TIMEOUT \<le> T 8"
    and "verdict co dr (answer C) = (c, d, outcome, dec)"
    and "serve G E A F T uuid req a f C = (S, L)"
  shows "\<exists>r. r_status r = outcome \<and> outcome \<in> {RESOLVED, REJECTED, ESCALATED} \<and>
    r_reply_text r = (if outcome = RESOLVED then reply_text d
      else if outcome = REJECTED then REJECTION_REPLY else ESCALATION_REPLY) \<and>
    (refund_executed r \<longleftrightarrow> a_type (action d) = REFUND \<and> (\<exists>x. dec = Some x \<and> approved x)) \<and>
    get_ticket E uuid S L = Inr \<lparr> i_ticket_id = uuid, i_status = outcome,
      i_classification = Some c, i_draft = Some d, i_decision = dec, i_result = Some r \<rparr> \<and>
    load_result E uuid L = Inr (Some r) \<and>
    refund_of L uuid = (if refund_executed r then refund_amount (action d) else None) \<and>
    reply_of L uuid = Some (req_customer_email req, r_reply_text r) \<and>
    (\<exists>x. run_by_id uuid (sr S) = Some x \<and> run_status x = outcome \<and> wakeup_at x = None \<and>
       lease_owner x = None) \<and>
    (\<forall>x \<in> set (t_rows (sq S)). settled x)"
proof -
  have id: "id' t = uuid" "customer_email t = req_customer_email req"
    using assms(5) by (simp_all add: new_ticket_def)
  obtain W s where W: "serve G E A F T uuid req a f C = finish_stage G E T W"
    "at_last_wait E (T 0) (T 9) t c d s dec W" "fst (terminal_outcome (Some s) d) = outcome"
    "valid_draft d"
    using served_to_last_wait [OF assms(1-15)] by blast
  define r where "r = expected_result t c d (Some s)"
  define r' where "r' = r\<lparr> refund_executed := pays (action d) r \<rparr>"
  have "T 9 \<le> T 10" using assms(3) [rule_format, of 9] by simp
  from finished_stage [OF assms(1,2) W(4) id(1) W(2) this r_def r'_def] assms(16) W(1)
  obtain st where L: "L = fold ledger_apply (finalize_ops (T 9) (T 9) 1 t (action d) r) empty_ledger"
    and th: "thread_of uuid S = Some \<lparr> th_values = st, th_next = None, th_resumes = [], th_interrupt = None \<rparr>"
      "s_status st = Some (r_status r')" "s_classification st = Some c" "s_draft st = Some d"
      "s_decision st = dec" "s_result st = Some r'"
    and run: "\<exists>x. run_by_id uuid (sr S) = Some x \<and> run_status x = r_status r' \<and> wakeup_at x = None \<and>
       lease_owner x = None"
    and settled: "\<forall>x \<in> set (t_rows (sq S)). settled x"
    by auto
  have va: "valid_action (action d)" using W(4) by (simp add: valid_draft_def)
  have id3: "r_ticket_id r = uuid" by (simp add: r_def id)
  note ledger = paid_ledger [OF va id(1) good_env_coercion [OF assms(2)] id3 r'_def L]
  have outcome: "r_status r' = outcome" "outcome \<in> {RESOLVED, REJECTED, ESCALATED}"
    "r_reply_text r' = (if outcome = RESOLVED then reply_text d
      else if outcome = REJECTED then REJECTION_REPLY else ESCALATION_REPLY)"
    using W(3) by (auto simp: r'_def r_def expected_result_def terminal_outcome_def split: if_splits)
  have "outcome = RESOLVED \<and> a_type (action d) = REFUND \<longleftrightarrow>
      a_type (action d) = REFUND \<and> (\<exists>x. dec = Some x \<and> approved x)"
    by (rule verdict_refund [OF assms(15)])
  moreover have "pays (action d) r \<longleftrightarrow> outcome = RESOLVED \<and> a_type (action d) = REFUND"
    using W(3) by (auto simp: pays_def r_def expected_result_def)
  ultimately have paid: "refund_executed r' \<longleftrightarrow> a_type (action d) = REFUND \<and> (\<exists>x. dec = Some x \<and> approved x)"
    by (simp add: r'_def)
  have report: "get_ticket E uuid S L = Inr \<lparr> i_ticket_id = uuid, i_status = outcome,
      i_classification = Some c, i_draft = Some d, i_decision = dec, i_result = Some r' \<rparr>"
    by (simp add: get_ticket_def th outcome(1))
  show ?thesis
    by (rule exI [of _ r'])
      (use outcome paid ledger run settled report id(2) in \<open>simp add: r'_def\<close>)
qed

definition calm_agent :: "unit agent" where
  "calm_agent = \<lparr> classify = \<lambda>s t. (Inr demo_class, s), draft_reply_of = \<lambda>s t c. (Inr demo_refund, s) \<rparr>"

definition demo_request :: create_ticket_request where
  "demo_request = \<lparr> req_customer_email = ''a@b.c'', req_subject = ''Order'', req_body = ''broken'' \<rparr>"

definition demo_days :: "nat \<Rightarrow> timestamp" where
  "demo_days i = int i * APPROVAL_TIMEOUT"

text \<open>
  A late classification and an approved refund; the same ticket with a human who does not answer.
\<close>

theorem ticket_served_witness:
  "\<exists>S L S' L'.
     serve ref_engine default_env calm_agent calm_agent demo_days ''t1'' demo_request () ()
       \<lparr> late_classify = True, late_draft = False, answer = Some demo_yes \<rparr> = (S, L) \<and>
     refund_of L ''t1'' = Some 25 \<and> reply_of L ''t1'' = Some (''a@b.c'', ''Refunded.'') \<and>
     serve ref_engine default_env calm_agent calm_agent demo_days ''t1'' demo_request () ()
       \<lparr> late_classify = False, late_draft = True, answer = None \<rparr> = (S', L') \<and>
     refund_of L' ''t1'' = None \<and> reply_of L' ''t1'' = Some (''a@b.c'', ESCALATION_REPLY)"
proof -
  have T: "\<forall>i. demo_days i \<le> demo_days (Suc i)" "demo_days 0 + SCHEDULE_TO_START default_env \<le> demo_days 1"
    "demo_days 3 + SCHEDULE_TO_START default_env \<le> demo_days 4"
    "demo_days 6 + APPROVAL_TIMEOUT \<le> demo_days 8"
    by (simp_all add: demo_days_def APPROVAL_TIMEOUT_def default_env_def hours_def seconds_def)
  have ask: "classified_by calm_agent calm_agent l t ((), ()) = (Inr demo_class, ((), ()))"
    "fst (drafted_by calm_agent calm_agent l t k ((), ())) = Inr demo_refund" for l t k
    by (simp_all add: classified_by_def drafted_by_def asked_of_def calm_agent_def)
  have demo: "a_type (action demo_refund) = REFUND" "refund_amount (action demo_refund) = Some 25"
    "reply_text demo_refund = ''Refunded.''" "approved demo_yes" "req_customer_email demo_request = ''a@b.c''"
    by (simp_all add: demo_refund_def demo_yes_def demo_request_def)
  have gate: "needs_human demo_refund" by (simp add: demo_refund_def needs_human_def)
  let ?C = "\<lparr> late_classify = True, late_draft = False, answer = Some demo_yes \<rparr>"
  let ?C' = "\<lparr> late_classify = False, late_draft = True, answer = None \<rparr>"
  obtain S L where S: "serve ref_engine default_env calm_agent calm_agent demo_days ''t1'' demo_request () () ?C
      = (S, L)" by fastforce
  obtain S' L' where S': "serve ref_engine default_env calm_agent calm_agent demo_days ''t1'' demo_request () () ?C'
      = (S', L')" by fastforce
  have v: "verdict (Inr demo_class) (Inr demo_refund) (answer ?C) = (demo_class, demo_refund, RESOLVED, Some demo_yes)"
    "verdict (Inr demo_class) (Inr demo_refund) (answer ?C') = (demo_class, demo_refund, ESCALATED, None)"
    using gate by (simp_all add: verdict_def demo_yes_def)
  have c: "conclusive (Inr demo_class :: exn + classification)" "conclusive (Inr demo_refund :: exn + draft_reply)"
    by (simp_all add: conclusive_def)
  have 1: "refund_of L ''t1'' = Some 25 \<and> reply_of L ''t1'' = Some (''a@b.c'', ''Refunded.'')"
    using ticket_served [where C = ?C, OF ref_graph.langgraph_axioms good_default_env T(1) _ refl ask(1) c(1) _ _ c(2) _ _ _ _ v(1) S] T ask(2)
    by (auto simp: demo)
  have 2: "refund_of L' ''t1'' = None \<and> reply_of L' ''t1'' = Some (''a@b.c'', ESCALATION_REPLY)"
    using ticket_served [where C = ?C', OF ref_graph.langgraph_axioms good_default_env T(1) _ refl ask(1) c(1) _ _ c(2) _ _ _ _ v(2) S'] T ask(2)
    by (auto simp: demo)
  show ?thesis using S S' 1 2 by blast
qed

end
