(* ===== verification/Operations.thy ===== *)
theory Operations
  imports System EndToEnd
begin

text \<open>
  The processes' whole operations, as they run when nothing crashes in between, are sequences of
  the commits of \<^verbatim>\<open>System\<close>: a request to the API, the runner's polling loop with its janitor and
  retention sweep, a task through an agent worker or the side-effect worker. So whatever a
  schedule of such operations reaches is reachable there, and what \<^verbatim>\<open>System\<close> and
  \<^verbatim>\<open>Refinement\<close> show of reachable states holds of it.
\<close>

section \<open>Sequences of commits\<close>

text \<open>What an operation sees of a system: the tables, the ledgers and the ids drawn.\<close>

definition view :: "system \<Rightarrow> shared \<times> ledger_store \<times> string set" where
  "view s = (core s, money s, drawn s)"

definition gets ::
  "engine \<Rightarrow> 'e env_scheme \<Rightarrow> decision_log \<Rightarrow> shared \<times> ledger_store \<times> string set
     \<Rightarrow> shared \<times> ledger_store \<times> string set \<Rightarrow> bool" where
  "gets G E B v v' = (\<forall>s. view s = v \<longrightarrow> (\<exists>s'. rtranclp (sys_step G E) s s' \<and>
     view s' = v' \<and> decisions s' \<subseteq> decisions s \<union> B))"

lemma gets_refl [simp]: "gets G E B v v"
  by (auto simp: gets_def)

lemma gets_trans:
  assumes "gets G E B u v" and "gets G E B v w"
  shows "gets G E B u w"
  unfolding gets_def
proof (intro allI impI)
  fix s assume "view s = u"
  then obtain s1 where 1: "rtranclp (sys_step G E) s s1" "view s1 = v" "decisions s1 \<subseteq> decisions s \<union> B"
    using assms(1) unfolding gets_def by blast
  then obtain s2 where 2: "rtranclp (sys_step G E) s1 s2" "view s2 = w" "decisions s2 \<subseteq> decisions s1 \<union> B"
    using assms(2) unfolding gets_def by blast
  show "\<exists>s'. rtranclp (sys_step G E) s s' \<and> view s' = w \<and> decisions s' \<subseteq> decisions s \<union> B"
    using rtranclp_trans [OF 1(1) 2(1)] 1(3) 2(2,3) by blast
qed

lemma gets_one:
  assumes "\<And>s. view s = v \<Longrightarrow> \<exists>s'. sys_step G E s s' \<and> view s' = v' \<and> decisions s' \<subseteq> decisions s \<union> B"
  shows "gets G E B v v'"
  using assms unfolding gets_def by blast

lemma two_steps: "R s s1 \<Longrightarrow> R s1 s2 \<Longrightarrow> rtranclp R s s2"
  by (meson converse_rtranclp_into_rtranclp r_into_rtranclp)

lemma gets_run:
  assumes "free_run_op op"
  shows "gets G E B (S, L, D) (S\<lparr> sr := run_apply op (sr S) \<rparr>, L, D)"
  by (rule gets_one, rule exI, intro conjI, rule run_commit [OF assms]) (auto simp: view_def)

lemma gets_queue:
  assumes "free_queue_op op"
  shows "gets G E B (S, L, D) (S\<lparr> sq := queue_apply op (sq S) \<rparr>, L, D)"
  by (rule gets_one, rule exI, intro conjI, rule queue_commit [OF assms]) (auto simp: view_def)

lemma gets_delete: "gets G E B (S, L, D) (delete_thread t S, L, D)"
  by (rule gets_one, rule exI, intro conjI, rule retention_delete) (auto simp: view_def)

lemma gets_deletes: "gets G E B (S, L, D) (fold delete_thread ts S, L, D)"
proof (induction ts arbitrary: S)
  case (Cons t ts)
  show ?case using gets_trans [OF gets_delete Cons.IH] by simp
qed simp

section \<open>The API\<close>

lemma gets_create:
  assumes "uuid \<notin> D"
  shows "gets G E B (S, L, D) (snd (create_ticket G E clk now uuid req S), L, insert uuid D)"
proof (rule gets_one)
  fix s assume "view s = (S, L, D)"
  moreover obtain out c where "create_ticket G E clk now uuid req S = (out, c)" by fastforce
  ultimately show "\<exists>s'. sys_step G E s s' \<and>
      view s' = (snd (create_ticket G E clk now uuid req S), L, insert uuid D) \<and>
      decisions s' \<subseteq> decisions s \<union> B"
    using sys_step.create [of uuid s G E clk now req out c] assms by (auto simp: view_def)
qed

lemma gets_submit:
  assumes "(t, dec) \<in> B"
  shows "gets G E B (S, L, D) (snd (submit_approval now t dec S), L, D)"
proof (rule gets_one)
  fix s assume "view s = (S, L, D)"
  moreover obtain out c where "submit_approval now t dec S = (out, c)" by fastforce
  ultimately show "\<exists>s'. sys_step G E s s' \<and> view s' = (snd (submit_approval now t dec S), L, D) \<and>
      decisions s' \<subseteq> decisions s \<union> B"
    using sys_step.decide [of now t dec s out c G E] assms
    by (intro exI [of _ "s\<lparr> core := c, decisions := (if out = Inr AWAITING_APPROVAL
      then insert (t, dec) (decisions s) else decisions s) \<rparr>"]) (auto simp: view_def)
qed

section \<open>The runner\<close>

lemma gets_advance:
  assumes "thread_of t S = Some th" and "pending_envelope (Some th) = Some env"
    and "th_next th = Some n" and "resume_for_run (sq S) (sr S) env wk = Some rv"
    and "invoke_resume G E ua clk th n (rv_payload rv) (sq S) = (res, th', q)"
  shows "gets G E B (S, L, D) (S\<lparr> sq := q, threads := put_thread t th' (threads S) \<rparr>, L, D)"
  unfolding gets_def
proof (intro allI impI)
  fix s assume s: "view s = (S, L, D)"
  let ?s1 = "s\<lparr> in_hand := insert (t, rv) (in_hand s) \<rparr>"
  have "sys_step G E s ?s1"
    using runner_read [of t s env wk rv G E] s assms(1,2,4) by (simp add: view_def)
  moreover have "sys_step G E ?s1 (?s1\<lparr> core := (core ?s1)\<lparr> sq := q,
      threads := put_thread t th' (threads (core ?s1)) \<rparr>, asked := asked ?s1 \<union> asks t th' \<rparr>)"
    using runner_invoke [of t rv ?s1 th n G E ua clk res th' q] s assms by (simp add: view_def)
  ultimately have "rtranclp (sys_step G E) s (?s1\<lparr> core := (core ?s1)\<lparr> sq := q,
      threads := put_thread t th' (threads (core ?s1)) \<rparr>, asked := asked ?s1 \<union> asks t th' \<rparr>)"
    by (rule two_steps)
  moreover have "view (?s1\<lparr> core := (core ?s1)\<lparr> sq := q,
      threads := put_thread t th' (threads (core ?s1)) \<rparr>, asked := asked ?s1 \<union> asks t th' \<rparr>) =
      (S\<lparr> sq := q, threads := put_thread t th' (threads S) \<rparr>, L, D)"
    using s by (auto simp: view_def)
  ultimately show "\<exists>s'. rtranclp (sys_step G E) s s' \<and>
      view s' = (S\<lparr> sq := q, threads := put_thread t th' (threads S) \<rparr>, L, D) \<and>
      decisions s' \<subseteq> decisions s \<union> B" by fastforce
qed

lemma gets_save: "gets G E B (S, L, D) (S\<lparr> sr := save_run now t st wk c (sr S) \<rparr>, L, D)"
  using gets_run [of "SaveRun now t st wk c" G E B S L D] by (simp add: free_run_op_def)

lemma gets_advance_run:
  assumes "thread_of t S = Some th" and "pending_envelope (Some th) = Some env"
    and "th_next th = Some n" and "resume_for_run (sq S) (sr S) env wk = Some rv"
  shows "gets G E B (S, L, D) (snd (advance_run G E ua clk now t th n rv S), L, D)"
proof -
  obtain res th' q where i: "invoke_resume G E ua clk th n (rv_payload rv) (sq S) = (res, th', q)"
    by (rule prod_cases3)
  note go = gets_advance [OF assms i, of B L D]
  show ?thesis
    using go gets_trans [OF go gets_save]
    by (auto simp: advance_run_def save_advanced_def i Let_def
        split: drive_result.splits option.splits sum.splits)
qed

lemma gets_step: "gets G E B (S, L, D) (snd (step G E ua clk now1 now2 locked w S), L, D)"
proof -
  obtain claim rs where c: "claim_run now1 locked w (sr S) = (claim, rs)" by fastforce
  have claimed: "gets G E B (S, L, D) (S\<lparr> sr := rs \<rparr>, L, D)"
    using gets_run [of "ClaimRun now1 locked w" G E B S L D] c by (simp add: free_run_op_def)
  show ?thesis
  proof (cases claim)
    case (Some run)
    let ?S1 = "S\<lparr> sr := rs \<rparr>"
    have saved: "gets G E B (S, L, D) (?S1\<lparr> sr := save_run now2 t st wk None (sr ?S1) \<rparr>, L, D)" for t st wk
      by (rule gets_trans [OF claimed gets_save])
    have advanced: "gets G E B (S, L, D) (snd (advance_run G E ua clk now2 (ticket_id run) th n rv ?S1), L, D)"
      if "thread_of (ticket_id run) ?S1 = Some th" "pending_envelope (Some th) = Some env"
        "resume_for_run_from_pool ?S1 env (wakeup_at run) = Some rv" "th_next th = Some n" for th env rv n
      by (rule gets_trans [OF claimed gets_advance_run [OF that(1,2,4)
          that(3) [unfolded resume_for_run_from_pool_def]]])
    show ?thesis using c Some claimed saved advanced
      by (auto simp: step_def Let_def split: option.splits)
  qed (use c claimed in \<open>simp add: step_def\<close>)
qed


lemma gets_reconcile: "gets G E B (S, L, D) (snd (reconcile_loop now ts n S), L, D)"
proof (induction ts arbitrary: n S)
  case (Cons t ts)
  have "gets G E B (S, L, D) (S\<lparr> sr := create_run now t st wk (sr S) \<rparr>, L, D)" for st wk
    using gets_run [of "CreateRun now t st wk" G E B S L D] by (simp add: free_run_op_def)
  then show ?case using gets_trans [OF _ Cons.IH] Cons.IH by (auto split: option.splits)
qed simp

lemma gets_janitor: "gets G E B (S, L, D) (snd (janitor_pass now S), L, D)"
proof -
  obtain a q where q: "reclaim_expired now (sq S) = (a, q)" by fastforce
  obtain b rs where rs: "reclaim_expired_runs now (sr S) = (b, rs)" by fastforce
  have "gets G E B (S, L, D) (S\<lparr> sq := q \<rparr>, L, D)"
    using gets_queue [of "ReclaimTasks now" G E B S L D] q by (simp add: free_queue_op_def)
  moreover have "gets G E B (S\<lparr> sq := q \<rparr>, L, D) (S\<lparr> sq := q, sr := rs \<rparr>, L, D)"
    using gets_run [of "ReclaimRuns now" G E B "S\<lparr> sq := q \<rparr>" L D] rs by (simp add: free_run_op_def)
  ultimately have "gets G E B (S, L, D) (S\<lparr> sq := q, sr := rs \<rparr>, L, D)" by (rule gets_trans)
  from gets_trans [OF this gets_reconcile] show ?thesis
    by (simp add: janitor_pass_def reclaim_expired_leases_def reconcile_orphaned_runs_def q rs split_beta)
qed

lemma gets_retention: "gets G E B (S, L, D) (snd (run_retention now1 now2 now3 age S), L, D)"
proof -
  obtain out rs where a: "archive_terminal_runs now1 age (sr S) = (out, rs)" by fastforce
  have archived: "gets G E B (S, L, D) (S\<lparr> sr := rs \<rparr>, L, D)"
    using gets_run [of "Archive now1 age" G E B S L D] a by (simp add: free_run_op_def)
  show ?thesis
  proof (cases out)
    case (Inr ids)
    define S1 where "S1 = fold delete_thread ids (S\<lparr> sr := rs \<rparr>)"
    obtain b rs2 where b: "prune_consumed_signals now2 age (sr S1) = (b, rs2)" by fastforce
    obtain c q where c: "prune_settled now3 age (sq S1) = (c, q)" by fastforce
    have "gets G E B (S, L, D) (S1, L, D)" unfolding S1_def by (rule gets_trans [OF archived gets_deletes])
    moreover have "gets G E B (S1, L, D) (S1\<lparr> sr := rs2 \<rparr>, L, D)"
      using gets_run [of "PruneSignals now2 age" G E B S1 L D] b by (simp add: free_run_op_def)
    moreover have "gets G E B (S1\<lparr> sr := rs2 \<rparr>, L, D) (S1\<lparr> sr := rs2, sq := q \<rparr>, L, D)"
      using gets_queue [of "Prune now3 age" G E B "S1\<lparr> sr := rs2 \<rparr>" L D] c by (simp add: free_queue_op_def)
    ultimately have "gets G E B (S, L, D) (S1\<lparr> sr := rs2, sq := q \<rparr>, L, D)"
      by (blast intro: gets_trans)
    then show ?thesis by (simp add: run_retention_def a Inr S1_def [symmetric] b c)
  qed (use archived a in \<open>simp add: run_retention_def\<close>)
qed

lemma gets_pass:
  "gets G E B (S, L, D) (snd (snd (runner_pass G E ua clk I now locked w tm (c, S))), L, D)"
proof -
  obtain r1 S1 where 1: "(if janitor_due tm c then janitor_pass now S else (Inr (), S)) = (r1, S1)"
    by fastforce
  obtain r2 S2 where 2: "(case r1 of Inl e \<Rightarrow> (Inl e, S1)
      | Inr _ \<Rightarrow> if retention_due tm c
          then (let (r, S') = run_retention now now now (retention_max_age I) S1 in (map_sum id (\<lambda>_. ()) r, S'))
          else (Inr (), S1)) = (r2, S2)" by fastforce
  have "gets G E B (S, L, D) (S1, L, D)" using 1 gets_janitor [of G E B S L D now] by (auto split: if_splits)
  moreover have "gets G E B (S1, L, D) (S2, L, D)"
    using 2 gets_retention [of G E B S1 L D now now now "retention_max_age I"]
    by (auto simp: Let_def split: sum.splits if_splits prod.splits)
  ultimately have 3: "gets G E B (S, L, D) (S2, L, D)" by (rule gets_trans)
  have "runner_pass G E ua clk I now locked w tm (c, S) = (case r2 of Inl e \<Rightarrow> (Inl e, c, S2)
      | Inr _ \<Rightarrow> (case step G E ua clk now now locked w S2 of (r3, S3) \<Rightarrow> (r3, after_pass I tm c, S3)))"
    unfolding runner_pass_def prod.case Let_def 1 2 [unfolded Let_def] ..
  then show ?thesis using 3 gets_trans [OF 3 gets_step [of G E B S2 L D ua clk now now locked w]]
    by (auto split: sum.splits prod.splits)
qed

lemma gets_passes:
  "gets G E B (S, L, D) (snd (snd (run_passes G E ua I w ps (c, S))), L, D)"
proof (induction ps arbitrary: c S)
  case (Cons p ps)
  obtain clk now locked tm where p: "p = (clk, now, locked, tm)" by (cases p)
  obtain r c' S' where r: "runner_pass G E ua clk I now locked w tm (c, S) = (r, c', S')"
    by (rule prod_cases3)
  have "gets G E B (S, L, D) (S', L, D)"
    using gets_pass [of G E B S L D ua clk I now locked w tm c] r by simp
  then show ?case using gets_trans [OF _ Cons.IH [of S' c']] by (auto simp: p r split: sum.splits)
qed simp

section \<open>The workers\<close>

lemma settle_step:
  assumes "task \<in> leased s" and "settle_task now task out (sq (core s)) = (wake, q)"
  shows "sys_step G E s (s\<lparr> core := (core s)\<lparr> sq := q \<rparr> \<rparr>)"
proof (cases out)
  case (Inl e)
  then have "q = queue_apply (Fail now (t_id task) (exn_str e) (is_permanent e)) (sq (core s))"
    using assms(2) by (auto simp: settle_task_def fail_task_def split: prod.splits)
  then show ?thesis using queue_commit [of "Fail now (t_id task) (exn_str e) (is_permanent e)" G E s]
    by (simp add: free_queue_op_def)
next
  case (Inr m)
  then have "q = snd (complete (t_id task) (model_dump m) (sq (core s)))"
    using assms(2) by (auto simp: settle_task_def complete_task_def split: prod.splits)
  then show ?thesis using worker_complete [OF assms(1), of G E m] by simp
qed

text \<open>
  A task through a worker. What its activity does to the ledgers is \<^verbatim>\<open>pay\<close>: nothing for the
  agents' tasks.
\<close>

lemma gets_task:
  assumes "process_one_task run now1 now2 now3 locked qn w (sq S, sr S, a) = (b, q, rs, a')"
    and pay: "\<And>task q1 (s::system). dequeue now1 locked qn w (sq S) = (Some task, q1) \<Longrightarrow> task \<in> leased s \<Longrightarrow>
      money s = L \<Longrightarrow> rtranclp (sys_step G E) s (s\<lparr> money := L' \<rparr>)"
    and idle: "fst (dequeue now1 locked qn w (sq S)) = None \<Longrightarrow> L' = L"
  shows "gets G E B (S, L, D) (S\<lparr> sq := q, sr := rs \<rparr>, L', D)"
proof (cases "dequeue now1 locked qn w (sq S)")
  case (Pair found q1)
  show ?thesis
  proof (cases found)
    case None
    then have "q = q1" "rs = sr S" "L' = L" using assms(1) idle Pair by (auto simp: process_one_task_def)
    then show ?thesis using gets_queue [of "Dequeue now1 locked qn w" G E B S L D] Pair
      by (simp add: free_queue_op_def)
  next
    case (Some task)
    obtain out a1 where out: "run task a = (out, a1)" by fastforce
    obtain wake q2 where settle: "settle_task now2 task out q1 = (wake, q2)" by fastforce
    have res: "q = q2" "rs = (if wake then wake_run now3 (t_workflow_id task) (sr S) else sr S)"
      using assms(1) Pair Some out settle by (auto simp: process_one_task_def)
    show ?thesis unfolding gets_def
    proof (intro allI impI)
      fix s assume s: "view s = (S, L, D)"
      let ?s1 = "s\<lparr> core := (core s)\<lparr> sq := q1 \<rparr>, leased := insert task (leased s) \<rparr>"
      let ?s2 = "?s1\<lparr> money := L' \<rparr>"
      let ?s3 = "?s2\<lparr> core := (core ?s2)\<lparr> sq := q2 \<rparr> \<rparr>"
      let ?s4 = "?s3\<lparr> core := (core ?s3)\<lparr> sr := run_apply (WakeRun now3 (t_workflow_id task)) (sr (core ?s3)) \<rparr> \<rparr>"
      have 1: "sys_step G E s ?s1"
        using worker_lease [of now1 locked qn w s task q1 G E] s Pair Some by (simp add: view_def)
      have 2: "rtranclp (sys_step G E) ?s1 ?s2"
        by (rule pay [OF Pair [unfolded Some]]) (use s in \<open>auto simp: view_def\<close>)
      have 3: "sys_step G E ?s2 ?s3"
        by (rule settle_step [where task = task and out = out and now = now2]) (use settle in simp_all)
      have 4: "sys_step G E ?s3 ?s4"
        by (rule run_commit) (simp add: free_run_op_def)
      have "rtranclp (sys_step G E) s ?s3"
        by (rule converse_rtranclp_into_rtranclp [where r = "sys_step G E", OF 1
              rtranclp.rtrancl_into_rtrancl [where r = "sys_step G E", OF 2 3]])
      moreover from rtranclp.rtrancl_into_rtrancl [where r = "sys_step G E", OF this 4]
      have "rtranclp (sys_step G E) s ?s4" .
      moreover have "view (if wake then ?s4 else ?s3) = (S\<lparr> sq := q, sr := rs \<rparr>, L', D)"
        using s res by (auto simp: view_def)
      ultimately show "\<exists>s'. rtranclp (sys_step G E) s s' \<and> view s' = (S\<lparr> sq := q, sr := rs \<rparr>, L', D) \<and>
          decisions s' \<subseteq> decisions s \<union> B"
        by (cases wake) fastforce+
    qed
  qed
qed

lemma gets_agent_task:
  assumes "process_one_task (run_activity E A) now1 now2 now3 locked qn w (sq S, sr S, a) = (b, q, rs, a')"
  shows "gets G E B (S, L, D) (S\<lparr> sq := q, sr := rs \<rparr>, L, D)"
  by (rule gets_task [OF assms]) auto

lemma gets_finalize_task:
  assumes "process_one_task (run_finalize E n1 n2) now1 now2 now3 locked qn w (sq S, sr S, L) = (b, q, rs, L')"
  shows "gets G E B (S, L, D) (S\<lparr> sq := q, sr := rs \<rparr>, L', D)"
proof (rule gets_task [OF assms])
  fix task q1 and s :: system
  assume d: "dequeue now1 locked qn w (sq S) = (Some task, q1)" and t: "task \<in> leased s" and L: "money s = L"
  obtain out where "run_finalize E n1 n2 task L = (out, L')"
    using assms d by (auto simp: process_one_task_def split: prod.splits)
  then have "sys_step G E s (s\<lparr> money := L' \<rparr>)" using worker_finalize [OF t] L by blast
  then show "rtranclp (sys_step G E) s (s\<lparr> money := L' \<rparr>)" by blast
next
  assume "fst (dequeue now1 locked qn w (sq S)) = None"
  then show "L' = L" using assms by (auto simp: process_one_task_def split: prod.splits)
qed

section \<open>Whole operations\<close>

datatype 's operation =
    Api_create "node \<Rightarrow> timestamp" timestamp string create_ticket_request
  | Api_approve timestamp string approval_decision
  | Runner_loop bool intervals string runner_clock
      "((node \<Rightarrow> timestamp) \<times> timestamp \<times> string set \<times> rat) list"
  | Agent_task "'s agent" 's timestamp timestamp timestamp "int set" string string
  | Side_effect_task timestamp timestamp timestamp timestamp timestamp "int set" string string

fun operate ::
  "engine \<Rightarrow> 'e env_scheme \<Rightarrow> 's operation \<Rightarrow> shared \<times> ledger_store \<Rightarrow> shared \<times> ledger_store" where
  "operate G E (Api_create clk now uuid req) (S, L) = (snd (create_ticket G E clk now uuid req S), L)"
| "operate G E (Api_approve now t dec) (S, L) = (snd (submit_approval now t dec S), L)"
| "operate G E (Runner_loop ua I w c ps) (S, L) = (snd (snd (run_passes G E ua I w ps (c, S))), L)"
| "operate G E (Agent_task A a now1 now2 now3 locked qn w) (S, L) =
     (let (_, q, rs, _) = process_one_task (run_activity E A) now1 now2 now3 locked qn w (sq S, sr S, a)
      in (S\<lparr> sq := q, sr := rs \<rparr>, L))"
| "operate G E (Side_effect_task n1 n2 now1 now2 now3 locked qn w) (S, L) =
     (let (_, q, rs, L') =
        process_one_task (run_finalize E n1 n2) now1 now2 now3 locked qn w (sq S, sr S, L)
      in (S\<lparr> sq := q, sr := rs \<rparr>, L'))"

fun ids_drawn :: "'s operation \<Rightarrow> string list" where
  "ids_drawn (Api_create clk now uuid req) = [uuid]"
| "ids_drawn _ = []"

definition approvals :: "'s operation list \<Rightarrow> decision_log" where
  "approvals xs = {(t, dec). \<exists>now. Api_approve now t dec \<in> set xs}"

lemma gets_operation:
  assumes "set (ids_drawn x) \<inter> D = {}" and "operate G E x (S, L) = (S', L')" and "approvals [x] \<subseteq> B"
  shows "gets G E B (S, L, D) (S', L', D \<union> set (ids_drawn x))"
  using assms
proof (cases x)
  case (Api_create clk now uuid req)
  then show ?thesis using assms gets_create [of uuid D G E B S L clk now req] by auto
next
  case (Api_approve now t dec)
  then show ?thesis using assms gets_submit [of t dec B] by (auto simp: approvals_def)
next
  case (Agent_task A a now1 now2 now3 locked qn w)
  obtain b q rs a' where p: "process_one_task (run_activity E A) now1 now2 now3 locked qn w
      (sq S, sr S, a) = (b, q, rs, a')" by (rule prod_cases4)
  then show ?thesis using gets_agent_task [OF p, of G B L D] assms(2) Agent_task by auto
next
  case (Side_effect_task n1 n2 now1 now2 now3 locked qn w)
  obtain b q rs M where p: "process_one_task (run_finalize E n1 n2) now1 now2 now3 locked qn w
      (sq S, sr S, L) = (b, q, rs, M)" by (rule prod_cases4)
  then show ?thesis using gets_finalize_task [OF p, of G B D] assms(2) Side_effect_task by auto
qed (use gets_passes in auto)

lemma gets_operations:
  assumes "distinct (concat (map ids_drawn xs))" and "set (concat (map ids_drawn xs)) \<inter> D = {}"
    and "fold (operate G E) xs (S, L) = (S', L')" and "approvals xs \<subseteq> B"
  shows "gets G E B (S, L, D) (S', L', D \<union> set (concat (map ids_drawn xs)))"
  using assms
proof (induction xs arbitrary: S L D)
  case (Cons x xs)
  obtain S1 L1 where 1: "operate G E x (S, L) = (S1, L1)" by fastforce
  have B: "approvals [x] \<subseteq> B" "approvals xs \<subseteq> B" using Cons.prems(4) by (auto simp: approvals_def)
  have "gets G E B (S, L, D) (S1, L1, D \<union> set (ids_drawn x))"
    by (rule gets_operation [OF _ 1 B(1)]) (use Cons.prems(2) in auto)
  moreover have "gets G E B (S1, L1, D \<union> set (ids_drawn x))
      (S', L', (D \<union> set (ids_drawn x)) \<union> set (concat (map ids_drawn xs)))"
    by (rule Cons.IH) (use Cons.prems 1 B(2) in auto)
  ultimately show ?case using gets_trans by (simp add: Un_assoc) blast
qed simp

lemma reachable_steps:
  assumes "rtranclp (sys_step G E) s s'" and "reachable G E s"
  shows "reachable G E s'"
  using assms by (induction rule: rtranclp_induct) (auto intro: next_step)

lemma operations_reach:
  assumes "distinct (concat (map ids_drawn xs))"
    and "fold (operate G E) xs (empty_shared, empty_ledger) = (S, L)"
  shows "\<exists>s. reachable G E s \<and> core s = S \<and> money s = L \<and> decisions s \<subseteq> approvals xs"
proof -
  have "view system_start = (empty_shared, empty_ledger, {})" "decisions system_start = {}"
    by (simp_all add: view_def system_start_def empty_shared_def)
  then obtain s where s: "rtranclp (sys_step G E) system_start s" "decisions s \<subseteq> approvals xs"
    "view s = (S, L, set (concat (map ids_drawn xs)))"
    using gets_operations [OF assms(1) _ assms(2), of "{}" "approvals xs"] by (force simp: gets_def)
  have "reachable G E s" by (rule reachable_steps [OF s(1) reachable.start])
  then show ?thesis using s(2,3) by (auto simp: view_def)
qed

section \<open>The schedules of one ticket\<close>

text \<open>A runner's pass with neither janitor nor retention due.\<close>

definition quiet_loop :: "timestamp \<Rightarrow> 's operation" where
  "quiet_loop now = Runner_loop True \<lparr> janitor_interval = 1, retention_interval = 1, retention_max_age = 0 \<rparr>
     ''r'' \<lparr> next_janitor_at = 1, next_retention_at = 1 \<rparr> [(\<lambda>_. now, now, {}, 0)]"

lemma operate_quiet: "operate G E (quiet_loop now) (S, L) = (advance G E now S, L)"
proof -
  obtain r S' where "step G E True (\<lambda>_. now) now now {} ''r'' S = (r, S')" by fastforce
  then show ?thesis
    by (cases r) (simp_all add: quiet_loop_def runner_pass_def janitor_due_def retention_due_def advance_def)
qed

lemma operate_agent:
  "work (run_activity E A) now qn S a = (S', a') \<Longrightarrow>
   operate G E (Agent_task A a now now now {} qn ''w'') (S, L) = (S', L)"
  by (auto simp: work_def split: prod.splits)

lemma operate_finalize:
  "operate G E (Side_effect_task now now now now now {} qn ''w'') (S, L) =
   work (run_finalize E now now) now qn S L"
  by (simp add: work_def split_beta)

text \<open>Lists of operations that draw no id and approve nothing.\<close>

definition does_work ::
  "engine \<Rightarrow> 'e env_scheme \<Rightarrow> 's operation list \<Rightarrow> shared \<times> ledger_store \<Rightarrow> shared \<times> ledger_store \<Rightarrow> bool"
  where
  "does_work G E xs v v' =
     (fold (operate G E) xs v = v' \<and> concat (map ids_drawn xs) = [] \<and> approvals xs = {})"

lemma does_quiet: "does_work G E [quiet_loop now] (S, L) (advance G E now S, L)"
  by (simp add: does_work_def operate_quiet) (simp add: quiet_loop_def approvals_def)

lemma does_agent:
  assumes "work (run_activity E A) now qn S a = (S', a')"
  shows "does_work G E [Agent_task A a now now now {} qn ''w''] (S, L) (S', L)"
  using operate_agent [OF assms, of G L]
  by (simp add: does_work_def approvals_def del: operate.simps)

lemma does_finalize:
  "does_work G E [Side_effect_task now now now now now {} qn ''w''] (S, L)
     (work (run_finalize E now now) now qn S L)"
  using operate_finalize [of G E now qn S L]
  by (simp add: does_work_def approvals_def del: operate.simps)

lemma does_append: "does_work G E xs u v \<Longrightarrow> does_work G E ys v w \<Longrightarrow> does_work G E (xs @ ys) u w"
  by (auto simp: does_work_def approvals_def)

lemma agent_stage_operations:
  fixes A F :: "'s agent"
  assumes "agent_stage G E A F late T k S af = (S', af')"
  shows "\<exists>xs :: 's operation list. does_work G E xs (S, L) (S', L)"
proof -
  obtain a f where af: "af = (a, f)" by (cases af)
  show ?thesis
  proof (cases late)
    case True
    obtain S1 f1 where w: "work (run_activity E F) (T (k + 1)) (FALLBACK_TASK_QUEUE E)
        (advance G E (T k) S) f = (S1, f1)" by fastforce
    have "S' = advance G E (T (k + 2)) S1" using assms True w af by (simp add: agent_stage_def)
    then show ?thesis
      using does_append [OF does_append [OF does_quiet does_agent [OF w]] does_quiet] by blast
  next
    case False
    obtain S1 a1 where w: "work (run_activity E A) (T (k + 1)) (AGENT_TASK_QUEUE E) S a = (S1, a1)"
      by fastforce
    have "S' = advance G E (T (k + 2)) S1" using assms False w af by (simp add: agent_stage_def)
    then show ?thesis using does_append [OF does_agent [OF w] does_quiet] by blast
  qed
qed

lemma finish_stage_operations:
  "\<exists>xs. does_work G E xs (S, empty_ledger) (finish_stage G E T S)"
proof -
  obtain S1 L where w: "work (run_finalize E (T 9) (T 9)) (T 9) (TASK_QUEUE E) S empty_ledger = (S1, L)"
    by fastforce
  from does_append [OF does_finalize [of G E "T 9" "TASK_QUEUE E" S empty_ledger, unfolded w] does_quiet]
  show ?thesis by (auto simp: finish_stage_def w)
qed

text \<open>A served ticket is a list of operations: one creation, at most the one answer given.\<close>

lemma serve_operations:
  fixes A F :: "'s agent"
  shows "\<exists>xs :: 's operation list. fold (operate G E) xs (empty_shared, empty_ledger) =
      serve G E A F T uuid req a f C \<and> concat (map ids_drawn xs) = [uuid] \<and>
    approvals xs \<subseteq> {(uuid, dec) | dec. answer C = Some dec}"
proof -
  define S0 where "S0 = snd (create_ticket G E (\<lambda>_. T 0) (T 0) uuid req empty_shared)"
  obtain S1 a1 f1 where 1: "agent_stage G E A F (late_classify C) T 1 S0 (a, f) = (S1, a1, f1)"
    by (rule prod_cases3)
  obtain S2 where 2: "S2 = (if waits_at Await_draft uuid S1
      then fst (agent_stage G E A F (late_draft C) T 4 S1 (a1, f1)) else S1)" by blast
  define S3 where "S3 = (if waits_at Await_approval uuid S2 then approval_stage G E T uuid (answer C) S2
    else S2)"
  have nil: "does_work G E [] v v" for v by (simp add: does_work_def approvals_def)
  obtain xs1 :: "'s operation list" where xs1: "does_work G E xs1 (S0, empty_ledger) (S1, empty_ledger)"
    using agent_stage_operations [OF 1] by blast
  obtain xs2 :: "'s operation list" where xs2: "does_work G E xs2 (S1, empty_ledger) (S2, empty_ledger)"
  proof (cases "waits_at Await_draft uuid S1")
    case True
    obtain af where "agent_stage G E A F (late_draft C) T 4 S1 (a1, f1) = (S2, af)"
      using 2 True by (cases "agent_stage G E A F (late_draft C) T 4 S1 (a1, f1)") auto
    from agent_stage_operations [OF this] that show ?thesis by blast
  qed (use 2 nil that in auto)
  obtain xs4 :: "'s operation list" where xs4: "does_work G E xs4 (S3, empty_ledger) (finish_stage G E T S3)"
    using finish_stage_operations by blast
  define xs3 :: "'s operation list" where "xs3 = (if waits_at Await_approval uuid S2
    then (case answer C of None \<Rightarrow> [] | Some dec \<Rightarrow> [Api_approve (T 7) uuid dec]) @ [quiet_loop (T 8)] else [])"
  have xs3: "fold (operate G E) xs3 (S2, empty_ledger) = (S3, empty_ledger)"
    "concat (map ids_drawn xs3) = []" "approvals xs3 \<subseteq> {(uuid, dec) | dec. answer C = Some dec}"
    by (auto simp: xs3_def S3_def approval_stage_def operate_quiet split: option.splits)
      (auto simp: approvals_def quiet_loop_def split: option.splits)
  let ?xs = "[Api_create (\<lambda>_. T 0) (T 0) uuid req] @ xs1 @ xs2 @ xs3 @ xs4"
  have "fold (operate G E) ?xs (empty_shared, empty_ledger) = serve G E A F T uuid req a f C"
    using xs1 xs2 xs3(1) xs4 1 2
    by (simp add: does_work_def serve_def S0_def [symmetric] S3_def)
  moreover have "concat (map ids_drawn ?xs) = [uuid]" using xs1 xs2 xs3(2) xs4 by (simp add: does_work_def)
  moreover have "approvals ?xs \<subseteq> {(uuid, dec) | dec. answer C = Some dec}"
    using xs1 xs2 xs3(3) xs4 by (auto simp: does_work_def approvals_def)
  ultimately show ?thesis by blast
qed

section \<open>What whole operations reach\<close>

text \<open>
  C5: the whole operations of the processes are runs of the system of commits. Whatever requests
  to the API, passes of the runner's loop with its janitor and retention sweep, and tasks through
  the workers are carried out one after the other on an empty database, every ticket under an id
  of its own: some reachable state of the system has the tables and the ledgers they leave, and
  every refund in them is one for a ticket that one of these operations approved.
\<close>

theorem operations_reachable:
  assumes "langgraph G" and "good_coercion E" and "distinct (concat (map ids_drawn xs))"
    and "fold (operate G E) xs (empty_shared, empty_ledger) = (S, L)"
  shows "(\<exists>s. reachable G E s \<and> core s = S \<and> money s = L) \<and>
    (\<forall>x \<in> set (refunds L). \<exists>now dec. Api_approve now (rf_ticket_id x) dec \<in> set xs \<and> approved dec)"
proof -
  obtain s where s: "reachable G E s" "core s = S" "money s = L" "decisions s \<subseteq> approvals xs"
    using operations_reach [OF assms(3,4)] by blast
  have "\<forall>x \<in> set (refunds (money s)). paid_ok (decisions s) (asked s) x"
    using reachable_inv [OF assms(1,2) s(1)] by (simp add: sys_inv_def)
  then have "\<forall>x \<in> set (refunds L). \<exists>now dec. Api_approve now (rf_ticket_id x) dec \<in> set xs \<and> approved dec"
    using s(3,4) by (fastforce simp: paid_ok_def may_pay_def approvals_def)
  with s show ?thesis by blast
qed

lemma demo_refund_served:
  assumes "serve ref_engine default_env calm_agent calm_agent demo_days ''t1'' demo_request () ()
      \<lparr> late_classify = False, late_draft = False, answer = Some demo_yes \<rparr> = (S, L)"
  shows "refund_of L ''t1'' = Some 25"
proof -
  let ?C = "\<lparr> late_classify = False, late_draft = False, answer = Some demo_yes \<rparr>"
  let ?t = "new_ticket ''t1'' demo_request"
  have mono: "\<forall>i. demo_days i \<le> demo_days (Suc i)"
    by (simp add: demo_days_def APPROVAL_TIMEOUT_def hours_def seconds_def)
  have ask: "classified_by calm_agent calm_agent l t ((), ()) = (Inr demo_class, ((), ()))"
    "fst (drafted_by calm_agent calm_agent l t k ((), ())) = Inr demo_refund" for l t k
    by (simp_all add: classified_by_def drafted_by_def asked_of_def calm_agent_def)
  have gate: "needs_human demo_refund" by (simp add: demo_refund_def needs_human_def)
  have v: "verdict (Inr demo_class) (Inr demo_refund) (answer ?C) =
      (demo_class, demo_refund, RESOLVED, Some demo_yes)"
    using gate by (simp add: verdict_def demo_yes_def)
  have c: "conclusive (Inr demo_class :: exn + classification)" "conclusive (Inr demo_refund :: exn + draft_reply)"
    by (simp_all add: conclusive_def)
  obtain W s where W: "serve ref_engine default_env calm_agent calm_agent demo_days ''t1'' demo_request () () ?C
      = finish_stage ref_engine default_env demo_days W"
    "at_last_wait default_env (demo_days 0) (demo_days 9) ?t demo_class demo_refund s (Some demo_yes) W"
    "fst (terminal_outcome (Some s) demo_refund) = RESOLVED" "valid_draft demo_refund"
    using served_to_last_wait [where C = ?C and uuid = "''t1''" and req = demo_request, OF ref_graph.langgraph_axioms good_default_env mono _ refl
        ask(1) c(1) _ _ c(2) _ _ _ _ v] ask(2) by auto
  have id: "id' ?t = ''t1''" by (simp add: new_ticket_def)
  let ?r = "expected_result ?t demo_class demo_refund (Some s)"
  have L: "L = fold ledger_apply (finalize_ops (demo_days 9) (demo_days 9) 1 ?t (action demo_refund) ?r)
      empty_ledger"
    using finished_stage [where T = demo_days, OF ref_graph.langgraph_axioms good_default_env W(4) id W(2) _ refl refl]
      mono [rule_format, of 9] assms W(1) by auto
  have "pays (action demo_refund) ?r" using W(3) by (simp add: pays_def expected_result_def demo_refund_def)
  then show ?thesis
    using paid_ledger [OF _ id good_env_coercion [OF good_default_env] _ refl L] W(4) id
    by (simp add: valid_draft_def demo_refund_def)
qed

theorem operations_reachable_witness:
  "\<exists>(xs :: unit operation list) S L s now dec. fold (operate ref_engine default_env) xs (empty_shared, empty_ledger) = (S, L) \<and>
     reachable ref_engine default_env s \<and> money s = L \<and> refund_of L ''t1'' = Some 25 \<and>
     Api_approve now ''t1'' dec \<in> set xs \<and> approved dec"
proof -
  let ?C = "\<lparr> late_classify = False, late_draft = False, answer = Some demo_yes \<rparr>"
  obtain S L where S: "serve ref_engine default_env calm_agent calm_agent demo_days ''t1'' demo_request () () ?C
      = (S, L)" by fastforce
  obtain xs :: "unit operation list" where xs:
    "fold (operate ref_engine default_env) xs (empty_shared, empty_ledger) = (S, L)"
    "concat (map ids_drawn xs) = [''t1'']"
    using serve_operations [of ref_engine default_env calm_agent calm_agent demo_days "''t1''" demo_request
        "()" "()" ?C] S by auto
  have d: "distinct (concat (map ids_drawn xs))" by (simp add: xs(2))
  note refund = demo_refund_served [OF S]
  obtain x where "x \<in> set (refunds L)" "rf_ticket_id x = ''t1''"
    using refund by (auto simp: refund_of_def dest!: find_by_Some)
  with operations_reachable [OF ref_graph.langgraph_axioms demo_valid(4) d xs(1)]
  obtain s now dec where "reachable ref_engine default_env s" "money s = L"
    "Api_approve now ''t1'' dec \<in> set xs" "approved dec" by metis
  with refund xs(1) show ?thesis by blast
qed

end
