(* ===== verification/RunnerFaults.thy ===== *)
theory RunnerFaults
  imports RunnerProps
begin

text \<open>
  Runs in which the runner of \<^verbatim>\<open>src/ticketflow/runner.py\<close> does what its documentation does
  not say: any \<^verbatim>\<open>wakeup_at\<close> of a claimed run is taken for its timer, a crash between two
  commits changes what becomes of the ticket, and a wake-up can be lost.
\<close>

section \<open>Every wake-up is a timer\<close>

lemma step_escalates:
  assumes "wf_runs (sr S)" and "claim_run now1 locked w (sr S) = (Some run, rs)"
    and "ticket_id run = t" and "thread_of t S = Some th" and "th_next th = Some n"
    and "pending_envelope (Some th) = Some env"
    and "resume_for_run (sq S) rs env (wakeup_at run) =
      Some \<lparr> rv_payload = v, consumed_signal_id = None \<rparr>"
    and "invoke_resume G E ua clk th n v (sq S) =
      (Parked Execute st' [] (terminal_envelope E tk r),
       parked_thread Execute st' (terminal_envelope E tk r), q')"
    and "s_status st' = Some ESCALATED"
  shows "\<exists>S' th' r. step G E ua clk now1 now2 locked w S = (Inr True, S') \<and>
    run_by_id t (sr S') = Some r \<and> run_status r = ESCALATED \<and> thread_of t S' = Some th' \<and>
    th_next th' = Some Execute \<and> s_status (th_values th') = Some ESCALATED"
proof -
  have nw: "next_wakeup_at E st' (Some (terminal_envelope E tk r)) = Inr None"
    by (simp add: next_wakeup_at_def interrupt_envelope_from_output_def terminal_envelope_def
        parse_wakeup_at_def)
  have "step G E ua clk now1 now2 locked w S = (Inr True,
      S\<lparr> sr := save_run now2 t ESCALATED None None rs, sq := q',
         threads := put_thread t (parked_thread Execute st' (terminal_envelope E tk r)) (threads S) \<rparr>)"
    using assms nw
    by (simp add: step_def Let_def thread_of_def resume_for_run_from_pool_def advance_run_def
        save_advanced_def)
  moreover have "run_by_id t rs = Some run" using claim_row_of(1) [OF assms(1,2)] assms(3) by simp
  ultimately show ?thesis using assms(9)
    by (simp add: thread_of_def run_by_id_save parked_thread_def)
qed

text \<open>A claimed run that waits for an approval escalates when its row has any \<^verbatim>\<open>wakeup_at\<close>.\<close>

lemma wakeup_escalates:
  assumes "langgraph G" and "wf_runs (sr S)" and "thread_ok tk th"
    and "thread_of (id' tk) S = Some th" and "th_next th = Some Await_approval"
    and "th_interrupt th = Some (approval_envelope E tk d timer_at)"
    and "filter (waiting_decision (id' tk)) (signals (sr S)) = []" and "id' tk \<noteq> []"
    and "claim_run now1 locked w (sr S) = (Some run, rs)" and "ticket_id run = id' tk"
    and "wakeup_at run = Some w1"
  shows "\<exists>S' th' r. step G E ua clk now1 now2 locked w S = (Inr True, S') \<and>
    run_by_id (id' tk) (sr S') = Some r \<and> run_status r = ESCALATED \<and>
    thread_of (id' tk) S' = Some th' \<and> th_next th' = Some Execute \<and>
    s_status (th_values th') = Some ESCALATED"
proof -
  note row = claim_row_of [OF assms(2,9)]
  have rv: "resume_for_run (sq S) rs (approval_envelope E tk d timer_at) (wakeup_at run) =
      Some \<lparr> rv_payload = timeout_envelope, consumed_signal_id = None \<rparr>"
    using assms(7,8,11) row(4)
    by (simp add: resume_for_run_def resume_value_of_def approval_resume_value_def kind_is_def
        approval_envelope_def py_or_def)
  have ok: "th_resumes th = []" "point_ok tk Await_approval (th_values th)"
    using assms(3,5) by (simp_all add: thread_ok_def rs_ok_def)
  from langgraph.timeout_escalates [OF assms(1) ok(2,1) refl, of timeout_envelope E ua clk "sq S"]
  obtain st' r q' where inv: "s_status st' = Some ESCALATED"
    "invoke_resume G E ua clk th Await_approval timeout_envelope (sq S) =
      (Parked Execute st' [] (terminal_envelope E tk r),
       parked_thread Execute st' (terminal_envelope E tk r), q')"
    by (auto simp: Let_def)
  have pend: "pending_envelope (Some th) = Some (approval_envelope E tk d timer_at)"
    using assms(5,6) by (simp add: pending_envelope_def snapshot_interrupts_def approval_envelope_def)
  show ?thesis by (rule step_escalates [OF assms(2,9,10,4,5) pend rv inv(2,1)])
qed

text \<open>
  C37: a run's \<^verbatim>\<open>wakeup_at\<close> is taken for its timer: when a run that waits for an approval is
  claimed with any \<^verbatim>\<open>wakeup_at\<close> at all (a worker's late \<^verbatim>\<open>wake_run\<close> sets one) and no
  decision is there, the step escalates the ticket, however long the approval timer that the
  checkpoint has armed still has to run.
\<close>

theorem stray_wake_escalates:
  assumes "langgraph G" and "good_env E" and "wf_runs (sr S)" and "history G E tk th"
    and "thread_of (id' tk) S = Some th" and "th_next th = Some Await_approval"
    and "th_interrupt th = Some (approval_envelope E tk d timer_at)"
    and "filter (waiting_decision (id' tk)) (signals (sr S)) = []" and "id' tk \<noteq> []"
    and "claim_run now1 locked w (wake_run now0 (id' tk) (sr S)) = (Some run, rs)"
    and "ticket_id run = id' tk"
  shows "\<exists>S' th' r. step G E ua clk now1 now2 locked w
        (S\<lparr> sr := wake_run now0 (id' tk) (sr S) \<rparr>) = (Inr True, S') \<and>
    run_by_id (id' tk) (sr S') = Some r \<and> run_status r = ESCALATED \<and>
    thread_of (id' tk) S' = Some th' \<and> th_next th' = Some Execute \<and>
    s_status (th_values th') = Some ESCALATED"
proof -
  let ?S = "S\<lparr> sr := wake_run now0 (id' tk) (sr S) \<rparr>"
  have wf: "wf_runs (sr ?S)" using assms(3) by (simp add: wf_wake_run)
  have claim: "claim_run now1 locked w (sr ?S) = (Some run, rs)" using assms(10) by simp
  obtain w1 where wk: "wakeup_at run = Some w1"
    using claim_row_of(2) [OF wf claim] assms(11) by (auto simp: wake_run_def run_by_id_update_one)
  have unasked: "thread_of (id' tk) ?S = Some th"
    "filter (waiting_decision (id' tk)) (signals (sr ?S)) = []"
    using assms(5,8) by (simp_all add: thread_of_def wake_run_def)
  show ?thesis
    by (rule wakeup_escalates [OF assms(1) wf langgraph.history_ok [OF assms(1,4)] unasked(1) assms(6,7)
          unasked(2) assms(9) claim assms(11) wk])
qed

theorem stray_wake_escalates_witness:
  "\<exists>S' r. step ref_engine default_env True demo_clock 5 6 {} ''w''
     \<lparr> sq = empty_queue, sr = wake_run 0 ''t1'' (one_run AWAITING_APPROVAL (Some (hours 24))),
       threads = [(''t1'', demo_gated)] \<rparr> = (Inr True, S') \<and>
     run_by_id ''t1'' (sr S') = Some r \<and> run_status r = ESCALATED"
proof -
  define S where "S = \<lparr> sq = empty_queue, sr = one_run AWAITING_APPROVAL (Some (hours 24)),
     threads = [(''t1'', demo_gated)] \<rparr>"
  have t1: "id' demo_ticket = ''t1''" by (simp add: demo_ticket_def)
  have "\<exists>run rs. claim_run 5 {} ''w'' (wake_run 0 (id' demo_ticket) (sr S)) = (Some run, rs) \<and>
      ticket_id run = id' demo_ticket"
    by (simp add: S_def t1 claim_run_def one_run_def create_run_def empty_runs_def wake_run_def
        claimable_def wake_row_def)
  then obtain run rs where
    claim: "claim_run 5 {} ''w'' (wake_run 0 (id' demo_ticket) (sr S)) = (Some run, rs)"
    and tid: "ticket_id run = id' demo_ticket" by blast
  have wf: "wf_runs (sr S)" by (simp add: S_def wf_one_run)
  have th: "thread_of (id' demo_ticket) S = Some demo_gated"
    by (simp add: S_def t1 thread_of_def)
  have parked: "th_next demo_gated = Some Await_approval"
    "th_interrupt demo_gated = Some (approval_envelope default_env demo_ticket demo_refund
       (demo_clock Prepare_approval + APPROVAL_TIMEOUT))"
    by (simp_all add: demo_gated_def parked_thread_def)
  have no_signal: "filter (waiting_decision (id' demo_ticket)) (signals (sr S)) = []"
    "id' demo_ticket \<noteq> []"
    by (simp_all add: S_def one_run_def create_run_def empty_runs_def t1)
  show ?thesis
    using stray_wake_escalates [OF ref_graph.langgraph_axioms good_default_env wf demo_history_gated
        th parked no_signal claim tid, of True demo_clock 6]
    by (auto simp: S_def t1)
qed

section \<open>Crashes between two commits\<close>

text \<open>
  C38: a crash between the checkpoint and \<^verbatim>\<open>save_run\<close> skips the human: a runner has claimed the
  run that a finished draft task woke, and LangGraph has written the checkpoint in which the
  ticket waits at the approval gate, with its timer armed for a day; the runner dies before it
  saves the run, whose row keeps the \<^verbatim>\<open>wakeup_at\<close> of the draft task. The runner that claims
  the run after the lease has run out takes that for the approval's timer and escalates, though
  nobody has been asked.
\<close>

theorem save_crash_escalates:
  assumes "langgraph G" and "good_env E" and "wf_runs (sr S)" and "id' tk \<noteq> []"
    and "thread_of (id' tk) S = Some (parked_thread Await_draft (drafting E clk0 tk c) env)"
    and "valid_draft d" and "needs_human d"
    and "filter (waiting_decision (id' tk)) (signals (sr S)) = []"
    and "claim_run now0 locked0 w0 (sr S) = (Some run0, rs0)" and "ticket_id run0 = id' tk"
    and "wakeup_at run0 = Some woken_at"
    and "invoke_resume G E ua clk (parked_thread Await_draft (drafting E clk0 tk c) env) Await_draft
      (draft_dump d) (sq S) = (res, th, q)"
    and "claim_run now1 locked1 w1 rs0 = (Some run1, rs1)" and "ticket_id run1 = id' tk"
  shows "\<exists>S' th' r.
    th_next th = Some Await_approval \<and>
    s_wakeup_at (th_values th) = Some (clk Prepare_approval + APPROVAL_TIMEOUT) \<and>
    step G E ua clk' now1 now2 locked1 w1
      (S\<lparr> sr := rs0, sq := q, threads := put_thread (id' tk) th (threads S) \<rparr>) = (Inr True, S') \<and>
    run_by_id (id' tk) (sr S') = Some r \<and> run_status r = ESCALATED \<and>
    thread_of (id' tk) S' = Some th' \<and> th_next th' = Some Execute \<and>
    s_status (th_values th') = Some ESCALATED"
proof -
  let ?S = "S\<lparr> sr := rs0, sq := q, threads := put_thread (id' tk) th (threads S) \<rparr>"
  let ?timer = "clk Prepare_approval + APPROVAL_TIMEOUT"
  have th: "th = parked_thread Await_approval (gated clk tk c d) (approval_envelope E tk d ?timer)"
    using langgraph.resume_drafted_gate [OF assms(1) good_env_coercion [OF assms(2)] assms(6,7),
        of ua clk clk0 tk c env "sq S"] assms(12)
    by (simp add: Let_def)
  have ok: "thread_ok tk th"
    by (simp add: th thread_ok_def parked_thread_def rs_ok_def point_ok_def drafted_def gated_def
        decided_def initial_state_def)
  have wf: "wf_runs (sr ?S)" using wf_claim_run [OF assms(3), of now0 locked0 w0] assms(9) by simp
  note first = claim_row_of [OF assms(3,9)] and second = claim_row_of [OF _ assms(13)]
  have "wakeup_at run1 = Some woken_at"
    using first(1) second(2) wf assms(10,11,14) by auto
  moreover have "thread_of (id' tk) ?S = Some th" "th_next th = Some Await_approval"
    "th_interrupt th = Some (approval_envelope E tk d ?timer)"
    "s_wakeup_at (th_values th) = Some ?timer"
    "filter (waiting_decision (id' tk)) (signals (sr ?S)) = []"
    "claim_run now1 locked1 w1 (sr ?S) = (Some run1, rs1)"
    using assms(8,13) first(4) by (simp_all add: th parked_thread_def gated_def thread_of_def)
  ultimately show ?thesis
    using wakeup_escalates [OF assms(1) wf ok _ _ _ _ assms(4) _ assms(14), of E d ?timer now1 locked1 w1
        rs1 woken_at ua clk' now2] by blast
qed

theorem save_crash_escalates_witness:
  "\<exists>run0 rs0 res th q S' r. claim_run 5 {} ''w'' (one_run DRAFTING (Some 0)) = (Some run0, rs0) \<and>
     invoke_resume ref_engine default_env True demo_clock demo_drafting Await_draft
       (draft_dump demo_refund) empty_queue = (res, th, q) \<and> th_next th = Some Await_approval \<and>
     step ref_engine default_env True demo_clock (seconds 40) (seconds 40) {} ''v''
       \<lparr> sq = q, sr = rs0, threads = put_thread ''t1'' th [(''t1'', demo_drafting)] \<rparr> = (Inr True, S') \<and>
     run_by_id ''t1'' (sr S') = Some r \<and> run_status r = ESCALATED"
proof -
  define S where "S = \<lparr> sq = empty_queue, sr = one_run DRAFTING (Some 0),
    threads = [(''t1'', demo_drafting)] \<rparr>"
  have t1: "id' demo_ticket = ''t1''" by (simp add: demo_ticket_def)
  obtain clk0 env where drafting: "demo_drafting = parked_thread Await_draft
      (drafting default_env clk0 demo_ticket demo_class) env"
    using that by (simp add: demo_drafting_def)
  obtain run0 rs0 run1 rs1 where first: "claim_run 5 {} ''w'' (sr S) = (Some run0, rs0)"
      "ticket_id run0 = ''t1''" "wakeup_at run0 = Some 0"
    and second: "claim_run (seconds 40) {} ''v'' rs0 = (Some run1, rs1)" "ticket_id run1 = ''t1''"
    by (simp add: S_def claim_run_def one_run_def create_run_def empty_runs_def claimable_def
        claim_row_def update_where_def seconds_def)
  obtain res th q where inv: "invoke_resume ref_engine default_env True demo_clock
      (parked_thread Await_draft (drafting default_env clk0 demo_ticket demo_class) env) Await_draft
      (draft_dump demo_refund) (sq S) = (res, th, q)" by (rule prod_cases3)
  have S: "wf_runs (sr S)" "id' demo_ticket \<noteq> []" "thread_of (id' demo_ticket) S = Some
      (parked_thread Await_draft (drafting default_env clk0 demo_ticket demo_class) env)"
    "filter (waiting_decision (id' demo_ticket)) (signals (sr S)) = []"
    by (simp_all add: S_def wf_one_run t1 thread_of_def drafting)
      (simp add: one_run_def create_run_def empty_runs_def)
  have gate: "needs_human demo_refund" by (simp add: needs_human_def demo_refund_def)
  from save_crash_escalates [OF ref_graph.langgraph_axioms good_default_env S(1-3) demo_valid(2) gate
      S(4) first(1) _ first(3) inv second(1), of demo_clock "seconds 40"] first second inv
  show ?thesis by (auto simp: S_def t1 drafting)
qed

lemma find_ready:
  assumes "wf_queue q"
  shows "find (task_ready key) (t_rows q) =
    (case task_by_key key q of
       Some r \<Rightarrow> (if t_result r \<noteq> None \<or> t_status r = Failed then Some r else None) | None \<Rightarrow> None)"
proof (cases "find (task_ready key) (t_rows q)")
  case None
  then show ?thesis
    by (auto simp: find_None_iff task_ready_def split: option.splits dest: task_by_key_Some)
next
  case (Some r)
  then have "r \<in> set (t_rows q)" "task_ready key r" by (auto simp: find_Some_iff)
  then show ?thesis using Some task_by_key_row [OF assms] by (auto simp: task_ready_def)
qed

lemma task_by_key_cancel:
  "task_by_key k (snd (cancel_pending key reason q)) =
    map_option (\<lambda>r. if idempotency_key r = key \<and> t_status r = Pending
      then r\<lparr> t_status := Failed, t_error := Some reason, permanent := True \<rparr> else r)
      (task_by_key k q)"
  by (simp add: cancel_pending_def Let_def task_by_key_def find_by_update_where_key)

lemma cancel_pending_row:
  assumes "wf_queue q" and "task_by_key key q = Some r"
  shows "fst (cancel_pending key reason q) \<longleftrightarrow> t_status r = Pending"
proof -
  have "r' = r" if "r' \<in> set (t_rows q)" "idempotency_key r' = key" for r'
    using task_by_key_row [OF assms(1) that(1)] that(2) assms(2) by simp
  then show ?thesis using task_by_key_Some [OF assms(2)]
    by (auto simp: cancel_pending_def Let_def list_ex_iff)
qed

text \<open>The queue after a redispatch: the primary task cancelled, the fallback task pending.\<close>

lemma redispatched_queue:
  assumes "wf_queue q" and "task_by_key key q = Some r" and "t_status r = Pending"
    and "redispatch_agent_task E ua now key ty wid pl q = (b, q1)"
  shows "b" and "wf_queue q1"
    and "\<exists>r1. task_by_key key q1 = Some r1 \<and> t_status r1 = Failed \<and> permanent r1"
    and "task_by_key (key @ '':fallback'') q = None \<Longrightarrow>
      \<exists>f. task_by_key (key @ '':fallback'') q1 = Some f \<and> t_status f = Pending \<and>
          queue_name f = FALLBACK_TASK_QUEUE E"
proof -
  have c: "fst (cancel_pending key ''redispatched to fallback'' q)"
    using cancel_pending_row [OF assms(1,2)] assms(3) by simp
  then have b: "b" and q1: "q1 = put_task now (FALLBACK_TASK_QUEUE E) ty wid pl (key @ '':fallback'')
      (snd (cancel_pending key ''redispatched to fallback'' q))"
    using assms(4) by (auto simp: redispatch_eq Let_def split: prod.splits if_splits)
  show "b" by (fact b)
  show "wf_queue q1" unfolding q1 put_task_def by (intro wf_enqueue wf_cancel assms(1))
  show "\<exists>r1. task_by_key key q1 = Some r1 \<and> t_status r1 = Failed \<and> permanent r1"
    using assms(2,3) task_by_key_Some [OF assms(2)]
    by (simp add: q1 put_task_def task_by_key_enqueue task_by_key_cancel)
  assume "task_by_key (key @ '':fallback'') q = None"
  then show "\<exists>f. task_by_key (key @ '':fallback'') q1 = Some f \<and> t_status f = Pending \<and>
      queue_name f = FALLBACK_TASK_QUEUE E"
    by (simp add: q1 put_task_def task_by_key_enqueue task_by_key_cancel enqueue_row_def)
qed

text \<open>
  C39: a crash inside a redispatch escalates the ticket: the runner's timeout has cancelled the
  primary task and enqueued the fallback in one commit, and dies before LangGraph's checkpoint
  is written; the next runner finds the cancelled primary task, takes it for a failed one and
  escalates, while the fallback task is still pending.
\<close>

theorem fallback_crash_escalates:
  assumes "langgraph G" and "good_env E" and "wf_queue (sq S)" and "wf_runs (sr S)"
    and "history G E tk th" and "thread_of (id' tk) S = Some th"
    and "th_next th = Some Await_classify" and "th_resumes th = []"
    and "th_interrupt th = Some (agent_envelope E (id' tk) ''classify'' wk)"
    and "task_by_key (task_key (id' tk) ''classify'') (sq S) = Some r0" and "t_status r0 = Pending"
    and "task_by_key (task_key (id' tk) ''classify'' @ '':fallback'') (sq S) = None"
    and "invoke_resume G E ua clk th Await_classify timeout_envelope (sq S) = (res, lost, q1)"
    and "claim_run now1 locked w (sr S) = (Some run, rs)" and "ticket_id run = id' tk"
  shows "\<exists>S' r f. step G E ua clk now1 now2 locked w (S\<lparr> sq := q1 \<rparr>) = (Inr True, S') \<and>
    run_by_id (id' tk) (sr S') = Some r \<and> run_status r = ESCALATED \<and>
    task_by_key (task_key (id' tk) ''classify'' @ '':fallback'') q1 = Some f \<and> t_status f = Pending"
proof -
  note history_ok = langgraph.history_ok [OF assms(1)]
    and drive_nodes = langgraph.drive_nodes [OF assms(1)]
    and failed_escalates = langgraph.failed_escalates [OF assms(1)]
  define key where "key = task_key (id' tk) ''classify''"
  have ok: "rs_ok Await_classify (th_resumes th)" "point_ok tk Await_classify (th_values th)"
    using history_ok [OF assms(5)] assms(7) by (simp_all add: thread_ok_def)
  have "q1 = snd (redispatch_agent_task E ua (clk Await_classify) key ''classify'' (id' tk)
      (classify_payload tk) (sq S))"
    using assms(8,13) ok(2)
    by (auto simp: invoke_resume_def drive_nodes body_of_def await_classify_def point_ok_def
        await_agent_task_def key_def Let_def split: prod.splits)
  then obtain b where "redispatch_agent_task E ua (clk Await_classify) key ''classify'' (id' tk)
      (classify_payload tk) (sq S) = (b, q1)" by (metis prod.collapse)
  note rq = redispatched_queue [OF assms(3) assms(10,11) [folded key_def] this]
  obtain r1 where r1: "find (task_ready key) (t_rows q1) = Some r1" "t_status r1 = Failed"
    using rq(3) find_ready [OF rq(2)] by auto
  define S0 where "S0 = S\<lparr> sq := q1 \<rparr>"
  have rv: "resume_for_run q1 rs (agent_envelope E (id' tk) ''classify'' wk) (wakeup_at run) =
      Some \<lparr> rv_payload = failed_payload r1, consumed_signal_id = None \<rparr>"
    using r1 by (simp add: resume_for_run_def resume_value_of_def approval_resume_value_def
        kind_is_def agent_envelope_def await_envelope_def key_def)
  have "is_task_failed (failed_payload r1)"
    by (simp add: is_task_failed_def kind_is_def failed_payload_def)
  from failed_escalates [OF ok(2) _ ok(1) refl this, of E ua clk q1]
  obtain st' r q' where inv: "s_status st' = Some ESCALATED"
    "invoke_resume G E ua clk th Await_classify (failed_payload r1) q1 =
      (Parked Execute st' [] (terminal_envelope E tk r),
       parked_thread Execute st' (terminal_envelope E tk r), q')"
    by (auto simp: Let_def)
  have pend: "pending_envelope (Some th) = Some (agent_envelope E (id' tk) ''classify'' wk)"
    using assms(7,9)
    by (simp add: pending_envelope_def snapshot_interrupts_def agent_envelope_def await_envelope_def)
  have S0: "wf_runs (sr S0)" "claim_run now1 locked w (sr S0) = (Some run, rs)"
    "thread_of (id' tk) S0 = Some th"
    using assms(4,6,14) by (simp_all add: S0_def thread_of_def)
  have "\<exists>S' th' r. step G E ua clk now1 now2 locked w S0 = (Inr True, S') \<and>
      run_by_id (id' tk) (sr S') = Some r \<and> run_status r = ESCALATED \<and>
      thread_of (id' tk) S' = Some th' \<and> th_next th' = Some Execute \<and>
      s_status (th_values th') = Some ESCALATED"
    by (rule step_escalates [OF S0(1,2) assms(15) S0(3) assms(7) pend _ _ inv(1)])
      (use rv inv(2) in \<open>simp_all add: S0_def\<close>)
  then show ?thesis using rq(4) [OF assms(12) [folded key_def]] unfolding S0_def key_def by blast
qed

definition demo_primary :: task_table where
  "demo_primary = put_task 0 ''ticketflow-agent'' ''classify'' ''t1'' (classify_payload demo_ticket)
     ''t1:classify'' empty_queue"

lemma demo_primary_rows:
  "wf_queue demo_primary" "\<exists>r. task_by_key ''t1:classify'' demo_primary = Some r \<and> t_status r = Pending"
  "task_by_key ''t1:classify:fallback'' demo_primary = None"
  unfolding demo_primary_def put_task_def
  by (simp_all add: wf_enqueue wf_queue_empty task_by_key_enqueue enqueue_row_def)
     (simp_all add: task_by_key_def empty_queue_def)

theorem fallback_crash_escalates_witness:
  "\<exists>S' r. step ref_engine default_env True demo_clock 5 6 {} ''w''
     \<lparr> sq = snd (snd (invoke_resume ref_engine default_env True demo_clock demo_classifying
          Await_classify timeout_envelope demo_primary)),
       sr = one_run CLASSIFYING (Some 0), threads = [(''t1'', demo_classifying)] \<rparr> = (Inr True, S') \<and>
     run_by_id ''t1'' (sr S') = Some r \<and> run_status r = ESCALATED"
proof -
  define S where "S = \<lparr> sq = demo_primary, sr = one_run CLASSIFYING (Some 0),
    threads = [(''t1'', demo_classifying)] \<rparr>"
  have t1: "id' demo_ticket = ''t1''" by (simp add: demo_ticket_def)
  have key: "task_key (id' demo_ticket) ''classify'' = ''t1:classify''"
    by (simp add: t1 task_key_def)
  have parked: "th_next demo_classifying = Some Await_classify" "th_resumes demo_classifying = []"
    "th_interrupt demo_classifying = Some (agent_envelope default_env (id' demo_ticket) ''classify''
        (s_wakeup_at (classifying default_env demo_clock demo_ticket)))"
    by (simp_all add: demo_classifying_def parked_thread_def)
  obtain r0 where rows: "task_by_key (task_key (id' demo_ticket) ''classify'') (sq S) = Some r0"
    "t_status r0 = Pending" using demo_primary_rows(2) by (auto simp: key S_def)
  have none: "task_by_key (task_key (id' demo_ticket) ''classify'' @ '':fallback'') (sq S) = None"
    using demo_primary_rows(3) by (simp add: key S_def)
  obtain res lost q1 where inv: "invoke_resume ref_engine default_env True demo_clock
      demo_classifying Await_classify timeout_envelope (sq S) = (res, lost, q1)"
    by (rule prod_cases3)
  have wf: "wf_queue (sq S)" "wf_runs (sr S)"
    using demo_primary_rows(1) by (simp_all add: S_def wf_one_run)
  have th: "thread_of (id' demo_ticket) S = Some demo_classifying"
    by (simp add: S_def thread_of_def t1)
  have "\<exists>run rs. claim_run 5 {} ''w'' (sr S) = (Some run, rs) \<and> ticket_id run = id' demo_ticket"
    by (simp add: S_def demo_claim t1)
  then obtain run rs where claim: "claim_run 5 {} ''w'' (sr S) = (Some run, rs)"
    "ticket_id run = id' demo_ticket" by blast
  show ?thesis
    using fallback_crash_escalates [OF ref_graph.langgraph_axioms good_default_env wf
        demo_history_classifying th parked rows none inv claim, of 6] inv
    by (auto simp: S_def t1)
qed

text \<open>A run that no claim takes: settled and without a timer.\<close>

definition asleep :: "string \<Rightarrow> run_store \<Rightarrow> bool" where
  "asleep t s = (\<forall>r \<in> set (runs s). ticket_id r = t \<longrightarrow> terminal (run_status r) \<and> wakeup_at r = None)"

definition leaves_asleep :: "string \<Rightarrow> run_op \<Rightarrow> bool" where
  "leaves_asleep t op =
     (case op of
        WakeRun _ t' \<Rightarrow> t' \<noteq> t
      | SaveRun _ t' _ _ _ \<Rightarrow> t' \<noteq> t
      | CreateRun _ t' _ _ \<Rightarrow> t' \<noteq> t
      | AddSignal _ t' _ _ st \<Rightarrow> t' \<noteq> t \<or> \<not> terminal st
      | _ \<Rightarrow> True)"

lemma asleep_update:
  assumes "asleep t s"
    and "\<And>r. r \<in> set (runs s) \<Longrightarrow> P r \<Longrightarrow> ticket_id (f r) = ticket_id r \<and>
      (ticket_id r = t \<longrightarrow> run_status (f r) = run_status r \<and> wakeup_at (f r) = wakeup_at r)"
  shows "asleep t (s\<lparr> runs := update_where P f (runs s) \<rparr>)"
  using assms by (auto simp: asleep_def set_update_where)

lemma asleep_signals [simp]:
  "asleep t (s\<lparr> signals := g \<rparr>) = asleep t s" "asleep t (s\<lparr> sig_seq := n \<rparr>) = asleep t s"
  "asleep t (s\<lparr> archive := a \<rparr>) = asleep t s"
  by (simp_all add: asleep_def)

lemma asleep_op:
  assumes "asleep t s" and "leaves_asleep t op"
  shows "asleep t (run_apply op s)"
proof (cases op)
  case (ClaimRun now locked w)
  then show ?thesis using assms(1)
    by (cases rule: claim_run_cases [of now locked w s]) (auto intro!: asleep_update)
next
  case (AddSignal now t' kind pl st)
  then show ?thesis using assms
    by (auto simp: add_pending_signal_if_waiting_def leaves_asleep_def asleep_def set_update_where
        list_ex_iff)
next
  case (SaveRun now t' st wk c)
  then show ?thesis using assms
    by (auto simp: save_run_def Let_def leaves_asleep_def asleep_def set_update_where
        split: option.splits)
qed (use assms in \<open>auto simp: reclaim_expired_runs_def archive_terminal_runs_def
      prune_consumed_signals_def create_run_def wake_run_def leaves_asleep_def asleep_def
      set_update_where Let_def\<close>)

lemma asleep_fold: "asleep t s \<Longrightarrow> list_all (leaves_asleep t) ops \<Longrightarrow> asleep t (fold run_apply ops s)"
  by (induction ops arbitrary: s) (auto simp: asleep_op)

lemma asleep_not_claimed:
  assumes "asleep t s"
  shows "map_option ticket_id (fst (claim_run now locked w s)) \<noteq> Some t"
  using assms
  by (cases rule: claim_run_cases [of now locked w s]) (auto simp: asleep_def claimable_def)



end
