(* ===== verification/Rows.thy ===== *)
theory Rows
  imports TaskQueue WorkflowRuns
begin

text \<open>
  How \<^verbatim>\<open>src/ticketflow/db.py\<close> reads what \<^verbatim>\<open>dequeue\<close> and \<^verbatim>\<open>claim_run\<close> return: the
  driver hands over a tuple of column values in the order of the \<^verbatim>\<open>RETURNING\<close> clause, and
  \<^verbatim>\<open>_task_from_row\<close> and \<^verbatim>\<open>_run_from_row\<close> pick them by index. The dataclasses do not
  check types, so their fields are column values; a tuple that is too short raises
  (\<^verbatim>\<open>None\<close>).
\<close>

section \<open>Column values\<close>

datatype cell =
    CNull | CInt int | CText string | CJson json | CTime timestamp | CBool bool

definition opt_cell :: "('a \<Rightarrow> cell) \<Rightarrow> 'a option \<Rightarrow> cell" where
  "opt_cell f x = (case x of None \<Rightarrow> CNull | Some v \<Rightarrow> f v)"

fun task_status_value :: "task_status \<Rightarrow> string" where
  "task_status_value Pending = ''pending''"
| "task_status_value Leased = ''leased''"
| "task_status_value Done = ''done''"
| "task_status_value Failed = ''failed''"

text \<open>The values of a stored row, by column name.\<close>

definition task_cells :: "task \<Rightarrow> (string \<times> cell) list" where
  "task_cells r =
     [(''id'', CInt (t_id r)), (''queue_name'', CText (queue_name r)),
      (''task_type'', CText (task_type r)), (''workflow_id'', CText (t_workflow_id r)),
      (''payload'', CJson (payload r)), (''idempotency_key'', CText (idempotency_key r)),
      (''status'', CText (task_status_value (t_status r))), (''attempts'', CInt (int (attempts r))),
      (''max_attempts'', CInt (int (max_attempts r))), (''available_at'', CTime (available_at r)),
      (''enqueued_at'', CTime (enqueued_at r)), (''lease_owner'', opt_cell CText (t_lease_owner r)),
      (''lease_expires_at'', opt_cell CTime (t_lease_expires_at r)),
      (''result'', opt_cell CJson (t_result r)), (''error'', opt_cell CText (t_error r)),
      (''permanent'', CBool (permanent r))]"

definition run_cells :: "workflow_run \<Rightarrow> (string \<times> cell) list" where
  "run_cells r =
     [(''ticket_id'', CText (ticket_id r)), (''status'', CText (status_value (run_status r))),
      (''wakeup_at'', opt_cell CTime (wakeup_at r)), (''lease_owner'', opt_cell CText (lease_owner r)),
      (''lease_expires_at'', opt_cell CTime (lease_expires_at r)),
      (''created_at'', CTime (created_at r)), (''updated_at'', CTime (updated_at r))]"

definition returning :: "string list \<Rightarrow> (string \<times> cell) list \<Rightarrow> cell list" where
  "returning cols cells = map (\<lambda>c. case map_of cells c of Some v \<Rightarrow> v | None \<Rightarrow> CNull) cols"

text \<open>The column lists of the two \<^verbatim>\<open>RETURNING\<close> clauses.\<close>

definition dequeue_returning :: "string list" where
  "dequeue_returning =
     [''id'', ''queue_name'', ''task_type'', ''workflow_id'', ''payload'', ''idempotency_key'',
      ''status'', ''attempts'', ''max_attempts'', ''available_at'', ''enqueued_at'',
      ''lease_owner'', ''lease_expires_at'', ''result'', ''error'', ''permanent'']"

definition claim_returning :: "string list" where
  "claim_returning =
     [''ticket_id'', ''status'', ''wakeup_at'', ''lease_owner'', ''lease_expires_at'',
      ''created_at'', ''updated_at'']"

section \<open>The dataclasses and their readers\<close>

record queued_task =
  q_id :: cell
  q_queue_name :: cell
  q_task_type :: cell
  q_workflow_id :: cell
  q_payload :: cell
  q_idempotency_key :: cell
  q_status :: cell
  q_attempts :: cell
  q_max_attempts :: cell
  q_available_at :: cell
  q_enqueued_at :: cell
  q_lease_owner :: cell
  q_lease_expires_at :: cell
  q_result :: cell
  q_error :: cell
  q_permanent :: cell

record claimed_run =
  w_ticket_id :: cell
  w_status :: cell
  w_wakeup_at :: cell
  w_lease_owner :: cell
  w_lease_expires_at :: cell
  w_created_at :: cell
  w_updated_at :: cell

definition task_from_row :: "cell list \<Rightarrow> queued_task option" where
  "task_from_row row =
     (if length row < 16 then None
      else Some \<lparr> q_id = row ! 0, q_queue_name = row ! 1, q_task_type = row ! 2,
        q_workflow_id = row ! 3, q_payload = row ! 4, q_idempotency_key = row ! 5,
        q_status = row ! 6, q_attempts = row ! 7, q_max_attempts = row ! 8,
        q_available_at = row ! 9, q_enqueued_at = row ! 10, q_lease_owner = row ! 11,
        q_lease_expires_at = row ! 12, q_result = row ! 13, q_error = row ! 14,
        q_permanent = row ! 15 \<rparr>)"

definition run_from_row :: "cell list \<Rightarrow> claimed_run option" where
  "run_from_row row =
     (if length row < 7 then None
      else Some \<lparr> w_ticket_id = row ! 0, w_status = row ! 1, w_wakeup_at = row ! 2,
        w_lease_owner = row ! 3, w_lease_expires_at = row ! 4, w_created_at = row ! 5,
        w_updated_at = row ! 6 \<rparr>)"

text \<open>What the callers of \<^verbatim>\<open>dequeue\<close> and \<^verbatim>\<open>claim_run\<close> get.\<close>

definition dequeued :: "task option \<Rightarrow> queued_task option" where
  "dequeued r = Option.bind r (\<lambda>r. task_from_row (returning dequeue_returning (task_cells r)))"

definition claimed :: "workflow_run option \<Rightarrow> claimed_run option" where
  "claimed r = Option.bind r (\<lambda>r. run_from_row (returning claim_returning (run_cells r)))"

section \<open>Every field is its column\<close>

text \<open>The values as the code that uses them takes them.\<close>

definition task_view :: "task \<Rightarrow> queued_task" where
  "task_view r = \<lparr> q_id = CInt (t_id r), q_queue_name = CText (queue_name r),
     q_task_type = CText (task_type r), q_workflow_id = CText (t_workflow_id r),
     q_payload = CJson (payload r), q_idempotency_key = CText (idempotency_key r),
     q_status = CText (task_status_value (t_status r)), q_attempts = CInt (int (attempts r)),
     q_max_attempts = CInt (int (max_attempts r)), q_available_at = CTime (available_at r),
     q_enqueued_at = CTime (enqueued_at r), q_lease_owner = opt_cell CText (t_lease_owner r),
     q_lease_expires_at = opt_cell CTime (t_lease_expires_at r),
     q_result = opt_cell CJson (t_result r), q_error = opt_cell CText (t_error r),
     q_permanent = CBool (permanent r) \<rparr>"

definition run_view :: "workflow_run \<Rightarrow> claimed_run" where
  "run_view r = \<lparr> w_ticket_id = CText (ticket_id r), w_status = CText (status_value (run_status r)),
     w_wakeup_at = opt_cell CTime (wakeup_at r), w_lease_owner = opt_cell CText (lease_owner r),
     w_lease_expires_at = opt_cell CTime (lease_expires_at r), w_created_at = CTime (created_at r),
     w_updated_at = CTime (updated_at r) \<rparr>"

lemma task_row_read: "task_from_row (returning dequeue_returning (task_cells r)) = Some (task_view r)"
  by (simp add: task_from_row_def returning_def dequeue_returning_def task_cells_def task_view_def)

lemma run_row_read: "run_from_row (returning claim_returning (run_cells r)) = Some (run_view r)"
  by (simp add: run_from_row_def returning_def claim_returning_def run_cells_def run_view_def)

lemma opt_cell_inject:
  assumes "inj f" and "\<And>v. f v \<noteq> CNull"
  shows "opt_cell f x = opt_cell f y \<longleftrightarrow> x = y"
  using assms by (auto simp: opt_cell_def dest: injD split: option.splits) metis+

lemma task_view_inject: "task_view r = task_view r' \<longleftrightarrow> (r :: task) = r'"
proof -
  have "task_status_value a = task_status_value b \<longleftrightarrow> a = b" for a b
    by (cases a; cases b) auto
  then show ?thesis by (cases r; cases r') (auto simp: task_view_def opt_cell_inject inj_def)
qed

lemma run_view_inject: "run_view r = run_view r' \<longleftrightarrow> (r :: workflow_run) = r'"
  by (cases r; cases r') (auto simp: run_view_def opt_cell_inject inj_def)

text \<open>
  Reading a returned row loses and mixes up nothing: two leased tasks, and two claimed runs, look
  the same to the caller only when their rows are the same, and nothing is read from no row.
\<close>

theorem rows_faithful:
  "(dequeued x = dequeued y \<longleftrightarrow> x = y) \<and> (claimed a = claimed b \<longleftrightarrow> a = b) \<and>
   (dequeued x = None \<longleftrightarrow> x = None) \<and> (claimed a = None \<longleftrightarrow> a = None)"
  by (cases x; cases y; cases a; cases b)
    (simp_all add: dequeued_def claimed_def task_row_read run_row_read task_view_inject
      run_view_inject)

text \<open>What a worker sees of the task it has leased.\<close>

lemma dequeued_fields:
  assumes "dequeue now locked qn w q = (Some r, q')"
  shows "\<exists>v. dequeued (Some r) = Some v \<and> q_queue_name v = CText qn \<and> q_status v = CText ''leased'' \<and>
    q_lease_owner v = CText w \<and> q_attempts v = CInt (int (attempts r)) \<and> q_permanent v = CBool (permanent r)"
  using assms
  by (cases rule: dequeue_cases [of now locked qn w q])
    (auto simp: dequeued_def task_row_read task_view_def lease_row_def due_in_def opt_cell_def)

end
