(* ===== verification/Pacing.thy ===== *)
theory Pacing
  imports TF_Prelude
begin

text \<open>
  How the workers of \<^verbatim>\<open>src/ticketflow/agent_worker.py\<close> pace themselves: the token bucket
  that spaces the primary worker's polls, and the drain loop's bound on concurrent tasks. The
  event loop's clock is a rational number of seconds.
\<close>

section \<open>The token bucket\<close>

record token_bucket =
  rate_per_second :: rat
  next_available :: "rat option"

definition make_bucket :: "rat \<Rightarrow> exn + token_bucket" where
  "make_bucket rate =
     (if rate \<le> 0 then Inl (ValueError ''rate_per_second must be greater than zero'')
      else Inr \<lparr> rate_per_second = rate, next_available = None \<rparr>)"

text \<open>
  \<^verbatim>\<open>acquire\<close> at time \<^verbatim>\<open>now\<close>: how long the caller sleeps after it has released the lock,
  and the bucket it leaves. Callers hold the lock one after the other.
\<close>

definition acquire :: "rat \<Rightarrow> token_bucket \<Rightarrow> rat \<times> token_bucket" where
  "acquire now b =
     (let interval = 1 / rate_per_second b
      in case next_available b of
           None \<Rightarrow> (0, b\<lparr> next_available := Some (now + interval) \<rparr>)
         | Some next_at \<Rightarrow>
             if next_at \<le> now then (0, b\<lparr> next_available := Some (now + interval) \<rparr>)
             else (next_at - now, b\<lparr> next_available := Some (next_at + interval) \<rparr>))"

text \<open>The times at which callers that ask at the given times go on.\<close>

fun grants :: "token_bucket \<Rightarrow> rat list \<Rightarrow> rat list" where
  "grants b [] = []"
| "grants b (now # asks) = (let (wait, b') = acquire now b in (now + wait) # grants b' asks)"

lemma length_grants [simp]: "length (grants b asks) = length asks"
  by (induction asks arbitrary: b) (auto simp: split_beta Let_def)

lemma rate_acquire [simp]: "rate_per_second (snd (acquire now b)) = rate_per_second b"
  by (auto simp: acquire_def Let_def split: option.splits)

lemma acquire_next:
  "next_available (snd (acquire now b)) =
     Some (now + fst (acquire now b) + 1 / rate_per_second b)"
  by (auto simp: acquire_def Let_def split: option.splits)

lemma acquire_wait:
  "0 \<le> fst (acquire now b)"
  "next_available b = Some t \<Longrightarrow> t \<le> now + fst (acquire now b)"
  by (auto simp: acquire_def Let_def split: option.splits)

lemma grants_after_next:
  assumes "next_available b = Some t" and "0 < rate_per_second b" and "j < length asks"
  shows "t + of_nat j / rate_per_second b \<le> grants b asks ! j"
  using assms
proof (induction asks arbitrary: b t j)
  case (Cons now asks)
  define b' where "b' = snd (acquire now b)"
  have g: "t \<le> now + fst (acquire now b)" using Cons.prems(1) by (rule acquire_wait(2))
  show ?case
  proof (cases j)
    case 0
    then show ?thesis using g by (simp add: split_beta Let_def)
  next
    case (Suc k)
    have nx: "next_available b' = Some (now + fst (acquire now b) + 1 / rate_per_second b)"
      by (simp add: b'_def acquire_next)
    have "now + fst (acquire now b) + 1 / rate_per_second b + of_nat k / rate_per_second b'
        \<le> grants b' asks ! k"
      by (rule Cons.IH [OF nx]) (use Cons.prems Suc in \<open>simp_all add: b'_def\<close>)
    then show ?thesis using g Suc
      by (simp add: split_beta Let_def b'_def [symmetric] add_divide_distrib)
         (simp add: b'_def)
  qed
qed simp

lemma grants_spaced:
  assumes "0 < rate_per_second b" and "i < j" and "j < length asks"
  shows "grants b asks ! i + of_nat (j - i) / rate_per_second b \<le> grants b asks ! j"
  using assms
proof (induction asks arbitrary: b i j)
  case (Cons now asks)
  define b' where "b' = snd (acquire now b)"
  obtain k where k: "j = Suc k" using Cons.prems(2) by (cases j) auto
  show ?case
  proof (cases i)
    case 0
    have "now + fst (acquire now b) + 1 / rate_per_second b + of_nat k / rate_per_second b'
        \<le> grants b' asks ! k"
      by (rule grants_after_next) (use Cons.prems k in \<open>simp_all add: b'_def acquire_next\<close>)
    then show ?thesis using 0 k
      by (simp add: split_beta Let_def b'_def [symmetric] add_divide_distrib) (simp add: b'_def)
  next
    case (Suc m)
    have "grants b' asks ! m + of_nat (k - m) / rate_per_second b' \<le> grants b' asks ! k"
      by (rule Cons.IH) (use Cons.prems Suc k in \<open>simp_all add: b'_def\<close>)
    then show ?thesis using Suc k by (simp add: split_beta Let_def b'_def)
  qed
qed simp

lemma grants_not_early:
  "i < length asks \<Longrightarrow> asks ! i \<le> grants b asks ! i"
proof (induction asks arbitrary: b i)
  case (Cons now asks)
  then show ?case using acquire_wait(1) [of now b]
    by (cases i) (simp_all add: split_beta Let_def)
qed simp

lemma grants_window:
  assumes "0 < rate_per_second b" and "0 \<le> T"
  shows "of_nat (card {i. i < length asks \<and> w \<le> grants b asks ! i \<and> grants b asks ! i \<le> w + T})
    \<le> T * rate_per_second b + 1"
proof (cases "{i. i < length asks \<and> w \<le> grants b asks ! i \<and> grants b asks ! i \<le> w + T} = {}")
  case True
  then show ?thesis using assms by (simp only: True card.empty) simp
next
  case False
  define S where "S = {i. i < length asks \<and> w \<le> grants b asks ! i \<and> grants b asks ! i \<le> w + T}"
  have fin: "finite S" by (simp add: S_def)
  define lo hi where "lo = Min S" and "hi = Max S"
  have in_S: "lo \<in> S" "hi \<in> S" using fin False by (simp_all add: lo_def hi_def S_def [symmetric])
  have "S \<subseteq> {lo..hi}" using fin by (auto simp: lo_def hi_def)
  then have card: "card S \<le> hi - lo + 1"
    using card_mono [of "{lo..hi}" S] by (simp split: if_splits)
  have le: "lo \<le> hi" using in_S fin by (simp add: lo_def)
  have "of_nat (hi - lo) / rate_per_second b \<le> T"
  proof (cases "lo = hi")
    case False
    then have "lo < hi" using le by simp
    then show ?thesis
      using grants_spaced [OF assms(1), of lo hi asks] in_S by (simp add: S_def)
  qed (use assms in simp)
  then have "of_nat (hi - lo) \<le> T * rate_per_second b"
    using assms(1) by (simp add: field_simps)
  moreover have "(of_nat (card S) :: rat) \<le> of_nat (hi - lo + 1)" using card by (rule of_nat_mono)
  ultimately show ?thesis by (simp add: S_def)
qed



section \<open>The drain loop\<close>

text \<open>
  \<^verbatim>\<open>run_forever\<close>: the loop's place, its set of running asyncio tasks, and the stop event,
  which others may set at any time. \<^verbatim>\<open>processed\<close> is \<^verbatim>\<open>_wait_for_one\<close>'s answer.
\<close>

datatype place = LoopHead | Filling | Waiting | Sleeping | Leaving | Returned

record drain =
  place :: place
  in_flight :: "nat set"
  spawned :: nat
  stop_set :: bool

definition drain_start :: drain where
  "drain_start = \<lparr> place = LoopHead, in_flight = {}, spawned = 0, stop_set = False \<rparr>"

definition check_max :: "int \<Rightarrow> exn + unit" where
  "check_max max_concurrent =
     (if max_concurrent \<le> 0 then Inl (ValueError ''max_concurrent must be greater than zero'')
      else Inr ())"

inductive drain_step :: "nat \<Rightarrow> bool \<Rightarrow> drain \<Rightarrow> drain \<Rightarrow> bool" for max_concurrent throttled where
  set_stop: "drain_step max_concurrent throttled s (s\<lparr> stop_set := True \<rparr>)"
| enter: "place s = LoopHead \<Longrightarrow> \<not> stop_set s \<Longrightarrow>
    drain_step max_concurrent throttled s (s\<lparr> place := Filling \<rparr>)"
| leave: "place s = LoopHead \<Longrightarrow> stop_set s \<Longrightarrow>
    drain_step max_concurrent throttled s (s\<lparr> place := Leaving \<rparr>)"
| spawn: "place s = Filling \<Longrightarrow> card (in_flight s) < max_concurrent \<Longrightarrow> \<not> stop_set s \<Longrightarrow>
    drain_step max_concurrent throttled s
      (s\<lparr> in_flight := insert (spawned s) (in_flight s), spawned := spawned s + 1 \<rparr>)"
| filled: "place s = Filling \<Longrightarrow> \<not> card (in_flight s) < max_concurrent \<or> stop_set s \<Longrightarrow>
    drain_step max_concurrent throttled s
      (s\<lparr> place := (if in_flight s = {} then Sleeping else Waiting) \<rparr>)"
| wait_processed: "place s = Waiting \<Longrightarrow> finished \<noteq> {} \<Longrightarrow> finished \<subseteq> in_flight s \<Longrightarrow>
    drain_step max_concurrent throttled s
      (s\<lparr> in_flight := in_flight s - finished, place := LoopHead \<rparr>)"
| wait_idle: "place s = Waiting \<Longrightarrow> finished \<noteq> {} \<Longrightarrow> finished \<subseteq> in_flight s \<Longrightarrow>
    rest = in_flight s - finished \<Longrightarrow>
    drain_step max_concurrent throttled s
      (s\<lparr> in_flight := rest,
         place := (if \<not> throttled \<or> rest = {} then Sleeping else LoopHead) \<rparr>)"
| wait_raised: "place s = Waiting \<Longrightarrow> finished \<noteq> {} \<Longrightarrow> finished \<subseteq> in_flight s \<Longrightarrow>
    drain_step max_concurrent throttled s
      (s\<lparr> in_flight := in_flight s - finished, place := Leaving \<rparr>)"
| slept: "place s = Sleeping \<Longrightarrow>
    drain_step max_concurrent throttled s (s\<lparr> place := LoopHead \<rparr>)"
| cancelled: "place s \<noteq> Returned \<Longrightarrow>
    drain_step max_concurrent throttled s (s\<lparr> place := Leaving \<rparr>)"
| gathered: "place s = Leaving \<Longrightarrow>
    drain_step max_concurrent throttled s (s\<lparr> in_flight := {}, place := Returned \<rparr>)"

inductive_cases drain_stepE: "drain_step m th s s'"

definition drain_inv :: "nat \<Rightarrow> drain \<Rightarrow> bool" where
  "drain_inv m s =
     (finite (in_flight s) \<and> card (in_flight s) \<le> m \<and> (\<forall>i \<in> in_flight s. i < spawned s) \<and>
      (place s = Returned \<longrightarrow> in_flight s = {}) \<and> (place s = Waiting \<longrightarrow> in_flight s \<noteq> {}))"

lemma card_minus_le: "finite A \<Longrightarrow> card A \<le> m \<Longrightarrow> card (A - B) \<le> m"
  by (meson Diff_subset card_mono order_trans)

lemma drain_inv_step: "drain_step m th s s' \<Longrightarrow> drain_inv m s \<Longrightarrow> drain_inv m s'"
  by (induction rule: drain_step.induct) (auto simp: drain_inv_def card_insert_if card_minus_le less_Suc_eq)

inductive drain_reach :: "nat \<Rightarrow> bool \<Rightarrow> drain \<Rightarrow> bool" for max_concurrent throttled where
  drain_init: "drain_reach max_concurrent throttled drain_start"
| drain_next: "drain_reach max_concurrent throttled s \<Longrightarrow>
    drain_step max_concurrent throttled s s' \<Longrightarrow> drain_reach max_concurrent throttled s'"

lemma drain_reach_inv: "drain_reach m th s \<Longrightarrow> drain_inv m s"
  by (induction rule: drain_reach.induct)
     (auto simp: drain_inv_step, simp add: drain_inv_def drain_start_def)

text \<open>
  C29: the drain loop is bounded and leaves nothing behind: with a positive limit, at every moment
  of every run (whatever finishes when, and whenever it is stopped, cancelled or hit by an
  exception) at most \<^verbatim>\<open>max_concurrent\<close> tasks run, the loop never waits for an empty set, and
  when it returns every task it started has finished. A limit of zero or less is refused.
\<close>

theorem drain_bounded:
  assumes "drain_reach (nat max_concurrent) throttled s"
  shows "card (in_flight s) \<le> nat max_concurrent \<and>
    (place s = Waiting \<longrightarrow> in_flight s \<noteq> {}) \<and> (place s = Returned \<longrightarrow> in_flight s = {}) \<and>
    (check_max max_concurrent = Inr () \<longleftrightarrow> 0 < max_concurrent)"
  using drain_reach_inv [OF assms] by (simp add: drain_inv_def check_max_def)

theorem drain_bounded_witness:
  "\<exists>s. drain_reach (nat 1) False s \<and> place s = Waiting \<and> card (in_flight s) \<le> 1 \<and> in_flight s \<noteq> {}"
proof -
  have "drain_reach (nat 1) False (drain_start\<lparr> place := Filling \<rparr>)"
    by (rule drain_next [OF drain_init]) (rule enter, simp_all add: drain_start_def)
  then have "drain_reach (nat 1) False
      (drain_start\<lparr> place := Filling, in_flight := {0}, spawned := 1 \<rparr>)"
    by (rule drain_next)
       (use spawn [of "drain_start\<lparr> place := Filling \<rparr>" "nat 1" False] in \<open>simp add: drain_start_def\<close>)
  then have r: "drain_reach (nat 1) False
      (drain_start\<lparr> place := Waiting, in_flight := {0}, spawned := 1 \<rparr>)"
    by (rule drain_next)
       (use filled [of "drain_start\<lparr> place := Filling, in_flight := {0}, spawned := 1 \<rparr>" "nat 1" False]
        in \<open>simp add: drain_start_def\<close>)
  from drain_bounded [OF r] r show ?thesis by auto
qed

end
