(* ===== verification/Lifecycle.thy ===== *)
theory Lifecycle
  imports Main
begin

text \<open>
  How the processes open and close what they use: the connection pools of
  \<^verbatim>\<open>src/ticketflow/db.py\<close> and the entry points of \<^verbatim>\<open>api.py\<close>, \<^verbatim>\<open>runner.py\<close>,
  \<^verbatim>\<open>agent_worker.py\<close>, \<^verbatim>\<open>side_effect_worker.py\<close> and \<^verbatim>\<open>fallback_worker.py\<close>, as plans
  with Python's \<^verbatim>\<open>try ... finally\<close> and \<^verbatim>\<open>with\<close>. Which steps raise is a parameter;
  executing a plan gives the steps attempted and whether it raised.
\<close>

section \<open>Plans\<close>

datatype lifecycle_step =
    SetupLogging | Bootstrap_db | MakePool | MakeAsyncPool | OpenPool | OpenAsyncPool
  | EnterSaver | SetupSaver | CompileGraph | RunLoop | ExitSaver | CloseAsyncPool | ClosePool
  | GetConnection | SelectOne | ReturnConnection

datatype plan =
    Do lifecycle_step
  | Then plan plan
  | Finally plan plan
  | Within lifecycle_step plan lifecycle_step

fun exec :: "(lifecycle_step \<Rightarrow> bool) \<Rightarrow> plan \<Rightarrow> lifecycle_step list \<times> bool" where
  "exec raises (Do s) = ([s], raises s)"
| "exec raises (Then p r) =
     (let (l, x) = exec raises p
      in if x then (l, True) else (let (l', y) = exec raises r in (l @ l', y)))"
| "exec raises (Finally p f) =
     (let (l, x) = exec raises p; (l', y) = exec raises f in (l @ l', x \<or> y))"
| "exec raises (Within s p t) =
     (if raises s then ([s], True)
      else (let (l, x) = exec raises p in (s # l @ [t], x \<or> raises t)))"

section \<open>Pools\<close>

text \<open>\<^verbatim>\<open>make_pool\<close>: the size asked for, or the configured one.\<close>

record pool_config =
  conninfo :: string
  min_size :: nat
  max_size :: nat
  opened :: bool

definition make_pool :: "string \<Rightarrow> nat \<Rightarrow> string option \<Rightarrow> nat option \<Rightarrow> pool_config" where
  "make_pool default_url default_size url sz =
     \<lparr> conninfo = (case url of Some u \<Rightarrow> (if u = [] then default_url else u) | None \<Rightarrow> default_url),
       min_size = 1, max_size = (case sz of Some n \<Rightarrow> n | None \<Rightarrow> default_size), opened = False \<rparr>"

definition make_async_pool :: "string \<Rightarrow> nat \<Rightarrow> string option \<Rightarrow> nat option \<Rightarrow> pool_config" where
  "make_async_pool default_url default_size url sz =
     \<lparr> conninfo = (case url of Some u \<Rightarrow> (if u = [] then default_url else u) | None \<Rightarrow> default_url),
       min_size = 1, max_size = (case sz of Some n \<Rightarrow> n | None \<Rightarrow> default_size), opened = False \<rparr>"

text \<open>\<^verbatim>\<open>managed_pool\<close>: an injected pool is only used, an own one is opened and closed.\<close>

definition managed_pool :: "bool \<Rightarrow> plan \<Rightarrow> plan" where
  "managed_pool injected use =
     (if injected then use
      else Then (Do MakePool) (Then (Do OpenPool) (Finally use (Do ClosePool))))"

definition managed_async_pool :: "bool \<Rightarrow> plan \<Rightarrow> plan" where
  "managed_async_pool injected use =
     (if injected then use
      else Then (Do MakeAsyncPool) (Then (Do OpenAsyncPool) (Finally use (Do CloseAsyncPool))))"

text \<open>\<^verbatim>\<open>ping\<close>: \<^verbatim>\<open>SELECT 1\<close> on a connection of the pool.\<close>

definition ping :: "bool \<Rightarrow> plan" where
  "ping injected =
     managed_pool injected (Within GetConnection (Do SelectOne) ReturnConnection)"

lemma ping_correct:
  "(snd (exec raises (ping injected)) \<longleftrightarrow>
      (\<exists>s \<in> set (fst (exec raises (ping injected))). raises s)) \<and>
   (\<not> snd (exec raises (ping injected)) \<longrightarrow> SelectOne \<in> set (fst (exec raises (ping injected)))) \<and>
   (injected \<longrightarrow> set (fst (exec raises (ping injected))) \<inter> {OpenPool, ClosePool} = {}) \<and>
   (ClosePool \<in> set (fst (exec raises (ping injected))) \<longleftrightarrow>
      \<not> injected \<and> \<not> raises MakePool \<and> \<not> raises OpenPool)"
  by (auto simp: ping_def managed_pool_def split: if_splits)

section \<open>Entry points\<close>

fun sequence :: "plan \<Rightarrow> plan list \<Rightarrow> plan" where
  "sequence p [] = p"
| "sequence p (r # rs) = Then p (sequence r rs)"

definition saver_block :: "plan \<Rightarrow> plan" where
  "saver_block work =
     Within EnterSaver (sequence (Do SetupSaver) [Do CompileGraph, work]) ExitSaver"

definition api_lifespan :: plan where
  "api_lifespan =
     sequence (Do Bootstrap_db) [Do MakePool, Do MakeAsyncPool, Do OpenPool, Do OpenAsyncPool,
       Finally (saver_block (Do RunLoop)) (Then (Do CloseAsyncPool) (Do ClosePool))]"

definition runner_main :: plan where
  "runner_main =
     sequence (Do SetupLogging) [Do Bootstrap_db, Do MakePool, Do MakeAsyncPool, Do OpenPool,
       Do OpenAsyncPool,
       Finally (saver_block (Do RunLoop)) (Then (Do CloseAsyncPool) (Do ClosePool))]"

definition worker_main :: plan where
  "worker_main =
     sequence (Do SetupLogging) [Do Bootstrap_db, Do MakePool, Do OpenPool,
       Finally (Do RunLoop) (Do ClosePool)]"

definition agent_worker_main :: plan where
  "agent_worker_main = worker_main"

definition side_effect_worker_main :: plan where
  "side_effect_worker_main = worker_main"

definition fallback_worker_main :: plan where
  "fallback_worker_main = worker_main"

section \<open>What is closed\<close>

text \<open>
  A process closes what it opened: in every entry point, once the last opening step has
  succeeded, the closing step of the async pool is reached whatever raises in between, and that
  of the pool too unless closing the async pool raises; a worker's pool is closed whenever it
  was opened. What comes before is not covered: an async pool that fails to open leaves the pool
  open.
\<close>

theorem pools_closed:
  "(let log = fst (exec raises p)
    in (p \<in> {api_lifespan, runner_main} \<longrightarrow>
          (EnterSaver \<in> set log \<longrightarrow> CloseAsyncPool \<in> set log \<and>
             (\<not> raises CloseAsyncPool \<longrightarrow> ClosePool \<in> set log)) \<and>
          (OpenAsyncPool \<in> set log \<and> raises OpenAsyncPool \<longrightarrow> ClosePool \<notin> set log)) \<and>
       (p \<in> {agent_worker_main, side_effect_worker_main, fallback_worker_main} \<longrightarrow>
          (RunLoop \<in> set log \<longleftrightarrow> OpenPool \<in> set log \<and> \<not> raises OpenPool) \<and>
          (RunLoop \<in> set log \<longleftrightarrow> ClosePool \<in> set log))) \<and>
   (let log = fst (exec raises (managed_pool False (Do RunLoop)))
    in ClosePool \<in> set log \<longleftrightarrow> OpenPool \<in> set log \<and> \<not> raises OpenPool)"
  by (auto simp: api_lifespan_def runner_main_def worker_main_def agent_worker_main_def
      side_effect_worker_main_def fallback_worker_main_def saver_block_def managed_pool_def Let_def
      split: if_splits)

end
