(* ===== verification/Migrations.thy ===== *)
theory Migrations
  imports Models
begin

text \<open>
  The schema of \<^verbatim>\<open>src/ticketflow/db.py\<close> and how \<^verbatim>\<open>bootstrap\<close> brings a database to
  it: the DDL statements of \<^verbatim>\<open>MIGRATIONS\<close> as data, executed on a catalogue of relations,
  the version markers, and the checks before and while migrations are applied. One
  \<^verbatim>\<open>bootstrap\<close> is one transaction under an advisory lock, so concurrent ones run one after
  the other and one that raises leaves the database as it was.
\<close>

section \<open>DDL\<close>

datatype sql_type = Bigserial | Sql_text | Jsonb | Sql_integer | Double_precision | Timestamptz
  | Sql_boolean

datatype col_constraint = Primary_key | Not_null | Unique_key | Default string

record column =
  col_name :: string
  col_type :: sql_type
  col_constraints :: "col_constraint list"

definition col :: "string \<Rightarrow> sql_type \<Rightarrow> col_constraint list \<Rightarrow> column" where
  "col n ty cs = \<lparr> col_name = n, col_type = ty, col_constraints = cs \<rparr>"

text \<open>
  A table with its \<^verbatim>\<open>CHECK (column IN (...))\<close> constraints, or an index on a table's columns
  with its \<^verbatim>\<open>UNIQUE\<close> and \<^verbatim>\<open>WHERE\<close>.
\<close>

datatype relation =
    Table "column list" "(string \<times> string list) list"
  | Index bool string "string list" "string option"

datatype ddl =
    Create_table string "column list" "(string \<times> string list) list"
  | Create_index bool string string "string list" "string option"
  | Drop_index string

record schema =
  relations :: "string \<Rightarrow> relation option"
  markers :: "string list"

definition empty_schema :: schema where
  "empty_schema = \<lparr> relations = (\<lambda>_. None), markers = [] \<rparr>"

text \<open>
  \<^verbatim>\<open>IF NOT EXISTS\<close> looks for a relation of any kind by name. An index needs its table and
  the columns; only an index can be dropped as one.
\<close>

fun exec_ddl :: "ddl \<Rightarrow> schema \<Rightarrow> exn + schema" where
  "exec_ddl (Create_table n cs chk) S =
     (if relations S n \<noteq> None then Inr S
      else Inr (S\<lparr> relations := (relations S)(n \<mapsto> Table cs chk) \<rparr>))"
| "exec_ddl (Create_index u n tb cs cond) S =
     (if relations S n \<noteq> None then Inr S
      else case relations S tb of
             Some (Table tcs chk) \<Rightarrow>
               if set cs \<subseteq> col_name ` set tcs
               then Inr (S\<lparr> relations := (relations S)(n \<mapsto> Index u tb cs cond) \<rparr>)
               else Inl (UndefinedObject tb)
           | _ \<Rightarrow> Inl (UndefinedObject tb))"
| "exec_ddl (Drop_index n) S =
     (case relations S n of
        None \<Rightarrow> Inr S
      | Some (Index u tb cs cond) \<Rightarrow> Inr (S\<lparr> relations := (relations S)(n := None) \<rparr>)
      | Some (Table cs chk) \<Rightarrow> Inl (UndefinedObject n))"

fun exec_all :: "ddl list \<Rightarrow> schema \<Rightarrow> exn + schema" where
  "exec_all [] S = Inr S"
| "exec_all (s # ss) S = bindr (exec_ddl s S) (exec_all ss)"

section \<open>Bootstrap\<close>

record migration =
  version :: string
  statements :: "ddl list"

definition validate_migrations :: "migration list \<Rightarrow> exn + unit" where
  "validate_migrations ms =
     (let versions = map version ms
      in if card (set versions) \<noteq> length versions
         then Inl (ValueError ''Migration versions must be unique'')
         else if versions \<noteq> sort versions
         then Inl (ValueError ''Migration versions must be ordered'')
         else Inr ())"

definition schema_migrations_table :: ddl where
  "schema_migrations_table = Create_table ''schema_migrations''
     [col ''version'' Sql_text [Primary_key],
      col ''applied_at'' Timestamptz [Not_null, Default ''now()'']] []"

definition read_markers :: "schema \<Rightarrow> exn + string list" where
  "read_markers S =
     (case relations S ''schema_migrations'' of
        Some (Table cs chk) \<Rightarrow> Inr (sort (markers S))
      | _ \<Rightarrow> Inl (UndefinedObject ''schema_migrations''))"

definition insert_marker :: "string \<Rightarrow> schema \<Rightarrow> exn + schema" where
  "insert_marker v S =
     (if v \<in> set (markers S) then Inl (UniqueViolation v)
      else Inr (S\<lparr> markers := markers S @ [v] \<rparr>))"

fun apply_migrations :: "string set \<Rightarrow> migration list \<Rightarrow> schema \<Rightarrow> exn + schema" where
  "apply_migrations applied [] S = Inr S"
| "apply_migrations applied (m # ms) S =
     (if version m \<in> applied then apply_migrations applied ms S
      else bindr (exec_all (statements m) S) (\<lambda>S1.
           bindr (insert_marker (version m) S1) (apply_migrations applied ms)))"

definition bootstrap_tx :: "migration list \<Rightarrow> schema \<Rightarrow> exn + schema" where
  "bootstrap_tx ms S =
     bindr (validate_migrations ms) (\<lambda>_.
     bindr (exec_ddl schema_migrations_table S) (\<lambda>S0.
     bindr (read_markers S0) (\<lambda>applied.
     (let unknown = filter (\<lambda>v. v \<notin> version ` set ms) applied
      in if unknown \<noteq> []
         then Inl (RuntimeError (''Database has newer schema migrations unknown to this code: '' @
                    join '', '' unknown))
         else apply_migrations (set applied) ms S0))))"

text \<open>An exception rolls the transaction back.\<close>

definition bootstrap :: "migration list \<Rightarrow> schema \<Rightarrow> (exn + unit) \<times> schema" where
  "bootstrap ms S =
     (case bootstrap_tx ms S of Inl e \<Rightarrow> (Inl e, S) | Inr S' \<Rightarrow> (Inr (), S'))"

section \<open>The migrations of the program\<close>

definition RUN_STATUSES :: "string list" where
  "RUN_STATUSES = [''received'', ''classifying'', ''drafting'', ''awaiting_approval'',
     ''resolved'', ''rejected'', ''escalated'']"

definition task_queue_table :: ddl where
  "task_queue_table = Create_table ''task_queue''
     [col ''id'' Bigserial [Primary_key],
      col ''queue_name'' Sql_text [Not_null],
      col ''task_type'' Sql_text [Not_null],
      col ''workflow_id'' Sql_text [Not_null],
      col ''payload'' Jsonb [Not_null, Default ''{}''],
      col ''idempotency_key'' Sql_text [Not_null, Unique_key],
      col ''status'' Sql_text [Not_null, Default ''pending''],
      col ''attempts'' Sql_integer [Not_null, Default ''0''],
      col ''max_attempts'' Sql_integer [Not_null, Default ''5''],
      col ''available_at'' Timestamptz [Not_null, Default ''now()''],
      col ''enqueued_at'' Timestamptz [Not_null, Default ''now()''],
      col ''lease_owner'' Sql_text [],
      col ''lease_expires_at'' Timestamptz [],
      col ''result'' Jsonb [],
      col ''error'' Sql_text [],
      col ''permanent'' Sql_boolean [Not_null, Default ''false'']]
     [(''status'', [''pending'', ''leased'', ''done'', ''failed''])]"

definition refunds_table :: ddl where
  "refunds_table = Create_table ''refunds''
     [col ''ticket_id'' Sql_text [Primary_key],
      col ''amount'' Double_precision [Not_null],
      col ''recorded_at'' Timestamptz [Not_null, Default ''now()'']] []"

definition attempts_table :: "string \<Rightarrow> ddl" where
  "attempts_table n = Create_table n
     [col ''id'' Bigserial [Primary_key],
      col ''ticket_id'' Sql_text [Not_null],
      col ''attempt'' Sql_integer [Not_null],
      col ''attempted_at'' Timestamptz [Not_null, Default ''now()'']] []"

definition ticket_results_table :: ddl where
  "ticket_results_table = Create_table ''ticket_results''
     [col ''ticket_id'' Sql_text [Primary_key], col ''data'' Jsonb [Not_null]] []"

definition workflow_run_table :: ddl where
  "workflow_run_table = Create_table ''workflow_run''
     [col ''ticket_id'' Sql_text [Primary_key],
      col ''status'' Sql_text [Not_null, Default ''received''],
      col ''wakeup_at'' Timestamptz [],
      col ''lease_owner'' Sql_text [],
      col ''lease_expires_at'' Timestamptz [],
      col ''created_at'' Timestamptz [Not_null, Default ''now()''],
      col ''updated_at'' Timestamptz [Not_null, Default ''now()'']]
     [(''status'', RUN_STATUSES)]"

definition pending_signal_table :: ddl where
  "pending_signal_table = Create_table ''pending_signal''
     [col ''id'' Bigserial [Primary_key],
      col ''workflow_id'' Sql_text [Not_null],
      col ''kind'' Sql_text [Not_null],
      col ''payload'' Jsonb [Not_null],
      col ''consumed'' Sql_boolean [Not_null, Default ''false''],
      col ''created_at'' Timestamptz [Not_null, Default ''now()''],
      col ''consumed_at'' Timestamptz []] []"

definition sent_replies_table :: ddl where
  "sent_replies_table = Create_table ''sent_replies''
     [col ''ticket_id'' Sql_text [Primary_key],
      col ''customer_email'' Sql_text [Not_null],
      col ''reply_text'' Sql_text [Not_null],
      col ''recorded_at'' Timestamptz [Not_null, Default ''now()'']] []"

definition workflow_run_archive_table :: ddl where
  "workflow_run_archive_table = Create_table ''workflow_run_archive''
     [col ''ticket_id'' Sql_text [Primary_key],
      col ''status'' Sql_text [Not_null],
      col ''wakeup_at'' Timestamptz [],
      col ''lease_owner'' Sql_text [],
      col ''lease_expires_at'' Timestamptz [],
      col ''created_at'' Timestamptz [Not_null],
      col ''updated_at'' Timestamptz [Not_null],
      col ''archived_at'' Timestamptz [Not_null, Default ''now()'']]
     [(''status'', RUN_STATUSES)]"

definition MIGRATIONS :: "migration list" where
  "MIGRATIONS =
     [\<lparr> version = ''000_bootstrap'', statements = [] \<rparr>,
      \<lparr> version = ''001_task_queue'', statements =
          [task_queue_table,
           Create_index False ''ix_task_queue_dispatch'' ''task_queue''
             [''queue_name'', ''available_at''] (Some ''status = pending'')] \<rparr>,
      \<lparr> version = ''002_read_model'', statements =
          [refunds_table, attempts_table ''refund_attempts'', ticket_results_table] \<rparr>,
      \<lparr> version = ''003_workflow_run'', statements =
          [workflow_run_table,
           Create_index False ''ix_workflow_run_status'' ''workflow_run'' [''status''] None] \<rparr>,
      \<lparr> version = ''004_pending_signal'', statements = [pending_signal_table] \<rparr>,
      \<lparr> version = ''005_pending_signal_unique_unconsumed'', statements =
          [Create_index True ''ux_pending_signal_unconsumed_kind'' ''pending_signal''
             [''workflow_id'', ''kind''] (Some ''consumed = false'')] \<rparr>,
      \<lparr> version = ''006_sent_reply_guard'', statements =
          [sent_replies_table, attempts_table ''reply_attempts'',
           Create_index False ''ix_reply_attempts_ticket'' ''reply_attempts''
             [''ticket_id'', ''attempted_at'', ''id''] None] \<rparr>,
      \<lparr> version = ''007_pending_signal_drop_redundant_index'', statements =
          [Drop_index ''ix_pending_signal_unconsumed''] \<rparr>,
      \<lparr> version = ''008_workflow_run_archive'', statements = [workflow_run_archive_table] \<rparr>]"

text \<open>The schema the migrations lead to, relation by relation.\<close>

fun table_of :: "ddl \<Rightarrow> (string \<times> relation) list" where
  "table_of (Create_table n cs chk) = [(n, Table cs chk)]"
| "table_of (Create_index u n tb cs cond) = [(n, Index u tb cs cond)]"
| "table_of (Drop_index n) = []"

definition program_relations :: "(string \<times> relation) list" where
  "program_relations =
     rev (concat (map table_of (schema_migrations_table # concat (map statements MIGRATIONS))))"

section \<open>What a bootstrap does\<close>

definition is_table :: "schema \<Rightarrow> string \<Rightarrow> bool" where
  "is_table S n = (\<exists>cs chk. relations S n = Some (Table cs chk))"

lemma exec_ddl_markers: "exec_ddl d S = Inr S' \<Longrightarrow> markers S' = markers S"
  by (cases d) (auto split: if_splits option.splits relation.splits)

lemma exec_ddl_table: "exec_ddl d S = Inr S' \<Longrightarrow> is_table S n \<Longrightarrow> is_table S' n"
  by (cases d) (auto simp: is_table_def split: if_splits option.splits relation.splits)

lemma exec_all_keeps:
  "exec_all ds S = Inr S' \<Longrightarrow> markers S' = markers S \<and> (is_table S n \<longrightarrow> is_table S' n)"
  by (induction ds arbitrary: S)
    (auto simp: bindr_Inr_iff dest: exec_ddl_markers exec_ddl_table [where n = n])

lemma exec_all_append: "exec_all (ds @ es) S = bindr (exec_all ds S) (exec_all es)"
  by (induction ds arbitrary: S) (auto simp: bindr_assoc intro!: bindr_cong)

lemma apply_append:
  "apply_migrations A (ms @ ns) S = bindr (apply_migrations A ms S) (apply_migrations A ns)"
  by (induction ms arbitrary: S) (auto simp: bindr_assoc intro!: bindr_cong)

lemma apply_skip: "version ` set ms \<subseteq> A \<Longrightarrow> apply_migrations A ms S = Inr S"
  by (induction ms arbitrary: S) auto

lemma apply_cong:
  "A \<inter> version ` set ms = B \<inter> version ` set ms \<Longrightarrow> apply_migrations A ms S = apply_migrations B ms S"
  by (induction ms arbitrary: S) (auto intro!: bindr_cong)

lemma apply_keeps:
  "apply_migrations A ms S = Inr S' \<Longrightarrow>
   markers S' = markers S @ filter (\<lambda>v. v \<notin> A) (map version ms) \<and> (is_table S n \<longrightarrow> is_table S' n)"
proof (induction ms arbitrary: S)
  case (Cons m ms)
  then show ?case
    by (fastforce simp: bindr_Inr_iff insert_marker_def is_table_def [of "_\<lparr> markers := _ \<rparr>"]
        dest!: exec_all_keeps [where n = n] split: if_splits simp flip: is_table_def)
qed auto

lemma validate_iff:
  "validate_migrations ms = Inr () \<longleftrightarrow> distinct (map version ms) \<and> sorted (map version ms)"
  by (auto simp: validate_migrations_def Let_def card_distinct distinct_card sorted_sort_id
      simp flip: set_map intro: sorted_sort_id [THEN sym] dest!: arg_cong [of _ _ sorted])

lemma schema_table_exec:
  "is_table S ''schema_migrations'' \<Longrightarrow> exec_ddl schema_migrations_table S = Inr S"
  by (auto simp: schema_migrations_table_def is_table_def)

lemma exec_schema_table: "\<exists>S0. exec_ddl schema_migrations_table S = Inr S0"
  by (simp add: schema_migrations_table_def)

lemma bootstrap_tx_eq:
  assumes "validate_migrations ms = Inr ()" and "exec_ddl schema_migrations_table S = Inr S0"
    and "is_table S0 ''schema_migrations''"
  shows "set (markers S) \<subseteq> version ` set ms \<Longrightarrow>
      bootstrap_tx ms S = apply_migrations (set (markers S)) ms S0"
    and "\<not> set (markers S) \<subseteq> version ` set ms \<Longrightarrow> \<exists>m. bootstrap_tx ms S = Inl (RuntimeError m)"
proof -
  have rd: "read_markers S0 = Inr (sort (markers S))"
    using assms(3) exec_ddl_markers [OF assms(2)] by (auto simp: read_markers_def is_table_def)
  have unknown: "filter (\<lambda>v. v \<notin> version ` set ms) (sort (markers S)) = [] \<longleftrightarrow>
      set (markers S) \<subseteq> version ` set ms" by (auto simp: filter_empty_conv)
  show "set (markers S) \<subseteq> version ` set ms \<Longrightarrow>
      bootstrap_tx ms S = apply_migrations (set (markers S)) ms S0"
    and "\<not> set (markers S) \<subseteq> version ` set ms \<Longrightarrow> \<exists>m. bootstrap_tx ms S = Inl (RuntimeError m)"
    unfolding bootstrap_tx_def assms(1,2) rd bindr.simps Let_def unknown by simp_all
qed

lemma bootstrap_tx_cases:
  assumes "bootstrap_tx ms S = Inr S1"
  obtains S0 where "validate_migrations ms = Inr ()" "exec_ddl schema_migrations_table S = Inr S0"
    "is_table S0 ''schema_migrations''" "set (markers S) \<subseteq> version ` set ms"
    "apply_migrations (set (markers S)) ms S0 = Inr S1"
proof -
  obtain S0 where S0: "validate_migrations ms = Inr ()" "exec_ddl schema_migrations_table S = Inr S0"
    and ap: "bindr (read_markers S0) (\<lambda>applied.
      let unknown = filter (\<lambda>v. v \<notin> version ` set ms) applied
      in if unknown \<noteq> [] then Inl (RuntimeError (''Database has newer schema migrations unknown to this code: '' @
             join '', '' unknown))
         else apply_migrations (set applied) ms S0) = Inr S1"
    using assms by (auto simp: bootstrap_tx_def bindr_Inr_iff)
  from ap have tab: "is_table S0 ''schema_migrations''"
    by (auto simp: bindr_Inr_iff read_markers_def is_table_def split: option.splits relation.splits)
  have "set (markers S) \<subseteq> version ` set ms"
    using bootstrap_tx_eq(2) [OF S0 tab] assms by fastforce
  with that [OF S0 tab] bootstrap_tx_eq(1) [OF S0 tab] assms show thesis by simp
qed


lemmas table_defs = schema_migrations_table_def task_queue_table_def refunds_table_def
  attempts_table_def ticket_results_table_def workflow_run_table_def pending_signal_table_def
  sent_replies_table_def workflow_run_archive_table_def col_def

definition program_schema :: schema where
  "program_schema = \<lparr> relations = map_of program_relations, markers = map version MIGRATIONS \<rparr>"

lemma MIGRATIONS_valid: "validate_migrations MIGRATIONS = Inr ()"
  by (simp add: validate_iff MIGRATIONS_def)

lemma RUN_STATUSES_all: "set RUN_STATUSES = range status_value"
proof
  have "RUN_STATUSES = map status_value all_statuses"
    by (simp add: RUN_STATUSES_def all_statuses_def)
  then show "set RUN_STATUSES \<subseteq> range status_value" by (metis image_mono list.set_map subset_UNIV)
  have "status_value s \<in> set RUN_STATUSES" for s by (cases s) (simp_all add: RUN_STATUSES_def)
  then show "range status_value \<subseteq> set RUN_STATUSES" by auto
qed

lemma program_schema_fresh: "bootstrap MIGRATIONS empty_schema = (Inr (), program_schema)"
proof -
  define S0 where "S0 = empty_schema\<lparr> relations := map_of (table_of schema_migrations_table) \<rparr>"
  have S0: "exec_ddl schema_migrations_table empty_schema = Inr S0"
    by (simp add: S0_def empty_schema_def table_defs)
  have "apply_migrations {} MIGRATIONS S0 = Inr program_schema"
    by (simp add: S0_def empty_schema_def MIGRATIONS_def program_schema_def program_relations_def
        table_defs insert_marker_def)
  then show ?thesis
    using bootstrap_tx_eq(1) [OF MIGRATIONS_valid S0]
    by (simp add: bootstrap_def S0_def empty_schema_def is_table_def table_defs)
qed

text \<open>Every statement of the migrations is a no-op on the finished schema.\<close>

lemma program_schema_done:
  "m \<in> set MIGRATIONS \<Longrightarrow> relations S = relations program_schema \<Longrightarrow>
   exec_all (statements m) S = Inr S"
  by (auto simp: program_schema_def program_relations_def MIGRATIONS_def table_defs)

lemma apply_on_done:
  assumes "\<forall>m \<in> set ms. \<forall>S. relations S = R \<longrightarrow> exec_all (statements m) S = Inr S"
    and "relations S = R" and "distinct (map version ms)"
    and "\<forall>v \<in> version ` set ms. v \<notin> A \<longrightarrow> v \<notin> set (markers S)"
  shows "apply_migrations A ms S =
    Inr (S\<lparr> markers := markers S @ filter (\<lambda>v. v \<notin> A) (map version ms) \<rparr>)"
  using assms
proof (induction ms arbitrary: S)
  case (Cons m ms)
  show ?case
  proof (cases "version m \<in> A")
    case True
    then show ?thesis using Cons by auto
  next
    case False
    define S1 where "S1 = S\<lparr> markers := markers S @ [version m] \<rparr>"
    have "apply_migrations A (m # ms) S = apply_migrations A ms S1"
      using Cons.prems False by (simp add: insert_marker_def S1_def)
    also have "\<dots> = Inr (S1\<lparr> markers := markers S1 @ filter (\<lambda>v. v \<notin> A) (map version ms) \<rparr>)"
      by (rule Cons.IH) (use Cons.prems in \<open>simp_all add: S1_def, metis image_eqI\<close>)
    finally show ?thesis using False by (simp add: S1_def)
  qed
qed simp

text \<open>
  The program's migrations lead to the schema its statements use, and repair it: from an empty
  database they make every table and index of the program, with a status check that admits
  exactly the statuses the code writes and the unique index that allows one unconsumed signal
  per ticket and kind; when any of the markers are lost, the next bootstrap runs those
  migrations again, which changes no relation, and restores the markers.
\<close>

theorem bootstrap_repairs:
  "bootstrap MIGRATIONS empty_schema = (Inr (), program_schema) \<and>
   set RUN_STATUSES = range status_value \<and>
   relations program_schema ''ux_pending_signal_unconsumed_kind'' =
     Some (Index True ''pending_signal'' [''workflow_id'', ''kind''] (Some ''consumed = false'')) \<and>
   (let lost = program_schema\<lparr> markers := filter P (markers program_schema) \<rparr>;
        (out, S) = bootstrap MIGRATIONS lost
    in out = Inr () \<and> relations S = relations program_schema \<and> distinct (markers S) \<and>
       set (markers S) = set (markers program_schema))"
proof -
  let ?lost = "program_schema\<lparr> markers := filter P (markers program_schema) \<rparr>"
  let ?A = "set (markers ?lost)"
  have dist: "distinct (map version MIGRATIONS)" using MIGRATIONS_valid by (simp add: validate_iff)
  have tab: "is_table ?lost ''schema_migrations''"
    by (simp add: is_table_def program_schema_def program_relations_def MIGRATIONS_def table_defs)
  have m: "markers program_schema = map version MIGRATIONS" by (simp add: program_schema_def)
  have "apply_migrations ?A MIGRATIONS ?lost =
      Inr (?lost\<lparr> markers := markers ?lost @ filter (\<lambda>v. v \<notin> ?A) (map version MIGRATIONS) \<rparr>)"
    using program_schema_done dist by (intro apply_on_done) auto
  moreover have "?A \<subseteq> version ` set MIGRATIONS" by (auto simp: m)
  ultimately have "bootstrap MIGRATIONS ?lost =
      (Inr (), ?lost\<lparr> markers := markers ?lost @ filter (\<lambda>v. v \<notin> ?A) (map version MIGRATIONS) \<rparr>)"
    using bootstrap_tx_eq(1) [OF MIGRATIONS_valid schema_table_exec [OF tab] tab]
    by (simp add: bootstrap_def)
  moreover have "set RUN_STATUSES = range status_value" by (rule RUN_STATUSES_all)
  moreover have "relations program_schema ''ux_pending_signal_unconsumed_kind'' =
     Some (Index True ''pending_signal'' [''workflow_id'', ''kind''] (Some ''consumed = false''))"
    by (simp add: program_schema_def program_relations_def MIGRATIONS_def table_defs)
  ultimately show ?thesis using program_schema_fresh dist
    by (auto simp: Let_def m)
qed

lemma bootstrap_prefix:
  assumes "markers S = []" and "bootstrap ms S = (Inr (), S2)"
  shows "\<exists>S1. bootstrap (take n ms) S = (Inr (), S1)"
proof -
  have "bootstrap_tx ms S = Inr S2" using assms(2) by (simp add: bootstrap_def split: sum.splits)
  then obtain S0 where S0: "validate_migrations ms = Inr ()"
    "exec_ddl schema_migrations_table S = Inr S0" "is_table S0 ''schema_migrations''"
    "apply_migrations {} (take n ms @ drop n ms) S0 = Inr S2"
    using bootstrap_tx_cases [of ms S S2] assms(1) by auto
  have "validate_migrations (take n ms) = Inr ()"
    using S0(1) by (simp add: validate_iff sorted_wrt_take flip: take_map)
  moreover obtain S1 where "apply_migrations {} (take n ms) S0 = Inr S1"
    using S0(4) unfolding apply_append by (auto simp: bindr_Inr_iff)
  ultimately show ?thesis
    using bootstrap_tx_eq(1) [OF _ S0(2,3), of "take n ms"] assms(1) by (simp add: bootstrap_def)
qed


end
