(* ===== verification/Logging.thy ===== *)
theory Logging
  imports Api
begin

text \<open>
  Logging: \<^verbatim>\<open>src/ticketflow/logging.py\<close> and the log fields of \<^verbatim>\<open>config.py\<close>. A log
  record carries what the standard library has put into it; the two attributes the filter fills
  in may be absent. The rendered message and time are those of the standard library.
\<close>

section \<open>Log records\<close>

record log_record =
  lr_asctime :: string
  lr_levelname :: string
  lr_name :: string
  lr_message :: string
  lr_ticket_id :: "string option"
  lr_task_queue :: "string option"
  lr_module :: string
  lr_function :: string
  lr_lineno :: int

definition SUPPORTED_FIELDS :: "string list" where
  "SUPPORTED_FIELDS = [''time'', ''level'', ''logger'', ''message'', ''ticket_id'', ''task_queue'',
     ''module'', ''function'', ''line'']"

text \<open>\<^verbatim>\<open>ContextFilter.filter\<close>: the context variable is unset (empty) outside a request.\<close>

definition context_filter :: "string option \<Rightarrow> log_record \<Rightarrow> log_record" where
  "context_filter ctx r =
     r\<lparr> lr_ticket_id := Some (case lr_ticket_id r of Some t \<Rightarrow> t
          | None \<Rightarrow> (case ctx of Some t \<Rightarrow> t | None \<Rightarrow> [])),
        lr_task_queue := Some (case lr_task_queue r of Some q \<Rightarrow> q | None \<Rightarrow> []) \<rparr>"

text \<open>\<^verbatim>\<open>JsonFormatter._value\<close>.\<close>

definition field_value :: "log_record \<Rightarrow> string \<Rightarrow> exn + json" where
  "field_value r f =
     (if f = ''time'' then Inr (JStr (lr_asctime r))
      else if f = ''level'' then Inr (JStr (lr_levelname r))
      else if f = ''logger'' then Inr (JStr (lr_name r))
      else if f = ''message'' then Inr (JStr (lr_message r))
      else if f = ''ticket_id'' then Inr (JStr (case lr_ticket_id r of Some t \<Rightarrow> t | None \<Rightarrow> []))
      else if f = ''task_queue'' then Inr (JStr (case lr_task_queue r of Some q \<Rightarrow> q | None \<Rightarrow> []))
      else if f = ''module'' then Inr (JStr (lr_module r))
      else if f = ''function'' then Inr (JStr (lr_function r))
      else if f = ''line'' then Inr (JNum (of_int (lr_lineno r)))
      else Inl (ValueError (''Unsupported log field: '' @ f)))"

text \<open>Storing a key in a Python dict: in place when it is there, at the end otherwise.\<close>

fun dict_put :: "'k \<Rightarrow> 'v \<Rightarrow> ('k \<times> 'v) list \<Rightarrow> ('k \<times> 'v) list" where
  "dict_put k v [] = [(k, v)]"
| "dict_put k v ((k', v') # d) = (if k' = k then (k, v) # d else (k', v') # dict_put k v d)"

fun field_dict ::
  "log_record \<Rightarrow> string list \<Rightarrow> (string \<times> json) list \<Rightarrow> exn + (string \<times> json) list" where
  "field_dict r [] d = Inr d"
| "field_dict r (f # fs) d = bindr (field_value r f) (\<lambda>v. field_dict r fs (dict_put f v d))"

definition json_format :: "string list \<Rightarrow> log_record \<Rightarrow> exn + json" where
  "json_format fs r = bindr (field_dict r fs []) (\<lambda>d. Inr (JObj d))"

text \<open>\<^verbatim>\<open>str\<close> of a field's value; the values are texts but for the line number.\<close>

fun field_str :: "json \<Rightarrow> string" where
  "field_str (JStr s) = s"
| "field_str (JNum n) = show_int \<lfloor>n\<rfloor>"
| "field_str _ = []"

fun field_values :: "log_record \<Rightarrow> string list \<Rightarrow> exn + string list" where
  "field_values r [] = Inr []"
| "field_values r (f # fs) =
     bindr (field_value r f) (\<lambda>v. bindr (field_values r fs) (\<lambda>vs. Inr (field_str v # vs)))"

definition text_format :: "string list \<Rightarrow> log_record \<Rightarrow> exn + string" where
  "text_format fs r = bindr (field_values r fs) (\<lambda>vs. Inr (join '' | '' vs))"

section \<open>Setting up the root logger\<close>

datatype log_level = Level_name string | Level_no int

datatype log_formatter = Json_formatter "string list" | Text_formatter "string list"

record root_logger =
  handlers :: "log_formatter list"
  root_level :: log_level

record log_config =
  LOG_FORMAT :: string
  LOG_LEVEL :: log_level
  LOG_FIELDS :: "string list"

text \<open>\<^verbatim>\<open>config.LOG_FIELDS\<close>: the comma-separated fields, stripped, without empty ones.\<close>

definition log_fields_of :: "string \<Rightarrow> string list" where
  "log_fields_of text = filter (\<lambda>f. f \<noteq> []) (map strip (split_on CHR '','' text))"

definition LEVEL_NAMES :: "string list" where
  "LEVEL_NAMES = [''CRITICAL'', ''FATAL'', ''ERROR'', ''WARN'', ''WARNING'', ''INFO'', ''DEBUG'',
     ''NOTSET'']"

text \<open>The standard library's \<^verbatim>\<open>setLevel\<close>.\<close>

definition set_level :: "log_level \<Rightarrow> root_logger \<Rightarrow> (exn + unit) \<times> root_logger" where
  "set_level lv R =
     (case lv of
        Level_name n \<Rightarrow> if n \<in> set LEVEL_NAMES then (Inr (), R\<lparr> root_level := lv \<rparr>)
                       else (Inl (ValueError (''Unknown level: '' @ quoted n)), R)
      | Level_no n \<Rightarrow> (Inr (), R\<lparr> root_level := lv \<rparr>))"

definition falsy_level :: "log_level \<Rightarrow> bool" where
  "falsy_level lv = (lv = Level_name [] \<or> lv = Level_no 0)"

definition or_else :: "'x option \<Rightarrow> ('x \<Rightarrow> bool) \<Rightarrow> 'x \<Rightarrow> 'x" where
  "or_else x falsy d = (case x of None \<Rightarrow> d | Some v \<Rightarrow> if falsy v then d else v)"

definition format_record :: "log_formatter \<Rightarrow> log_record \<Rightarrow> exn + string + json" where
  "format_record h r =
     (case h of Json_formatter fs \<Rightarrow> map_sum id Inr (json_format fs r)
      | Text_formatter fs \<Rightarrow> map_sum id Inl (text_format fs r))"

definition setup_logging ::
  "log_config \<Rightarrow> string option \<Rightarrow> log_level option \<Rightarrow> string list option \<Rightarrow> root_logger
     \<Rightarrow> (exn + unit) \<times> root_logger" where
  "setup_logging C log_format level fs R =
     (let resolved_format = lower (or_else log_format (\<lambda>s. s = []) (LOG_FORMAT C));
          resolved_fields = or_else fs (\<lambda>xs. xs = []) (LOG_FIELDS C);
          unsupported = sort (filter (\<lambda>f. f \<notin> set SUPPORTED_FIELDS) resolved_fields)
      in if resolved_format \<notin> {''json'', ''text''}
         then (Inl (ValueError (''Unsupported log format: '' @ resolved_format)), R)
         else if unsupported \<noteq> []
         then (Inl (ValueError (''Unsupported log field: '' @ hd unsupported)), R)
         else set_level (or_else level falsy_level (LOG_LEVEL C))
           (R\<lparr> handlers := [if resolved_format = ''json'' then Json_formatter resolved_fields
                            else Text_formatter resolved_fields] \<rparr>))"

section \<open>Properties\<close>

lemma field_value_supported: "(\<exists>v. field_value r f = Inr v) \<longleftrightarrow> f \<in> set SUPPORTED_FIELDS"
  by (simp add: field_value_def SUPPORTED_FIELDS_def)

lemma map_of_dict_put [simp]: "map_of (dict_put k v d) = (map_of d)(k \<mapsto> v)"
  by (induction d) (auto simp: fun_eq_iff)

lemma field_dict_total:
  assumes "set fs \<subseteq> set SUPPORTED_FIELDS"
  shows "\<exists>d'. field_dict r fs d = Inr d' \<and> (\<forall>f. map_of d' f =
    (if f \<in> set fs then (case field_value r f of Inr v \<Rightarrow> Some v | Inl e \<Rightarrow> None) else map_of d f))"
  using assms
proof (induction fs arbitrary: d)
  case (Cons f fs)
  then obtain v where v: "field_value r f = Inr v" using field_value_supported [of r f] by auto
  obtain d' where d': "field_dict r fs (dict_put f v d) = Inr d'"
    "\<forall>g. map_of d' g = (if g \<in> set fs then (case field_value r g of Inr v \<Rightarrow> Some v | Inl e \<Rightarrow> None)
      else map_of (dict_put f v d) g)"
    using Cons.IH [of "dict_put f v d"] Cons.prems by auto
  then show ?case using v by (intro exI [of _ d']) auto
qed simp

lemma field_values_total:
  assumes "set fs \<subseteq> set SUPPORTED_FIELDS"
  shows "\<exists>vs. field_values r fs = Inr vs \<and> length vs = length fs"
  using assms
proof (induction fs)
  case (Cons f fs)
  then obtain v where "field_value r f = Inr v" using field_value_supported [of r f] by auto
  with Cons show ?case by auto
qed simp

lemma format_record_total:
  assumes "set fs \<subseteq> set SUPPORTED_FIELDS"
  shows "\<exists>s. format_record (Text_formatter fs) r = Inr (Inl s)"
    and "\<exists>j. format_record (Json_formatter fs) r = Inr (Inr j) \<and>
      (\<forall>f. jget j f = (if f \<in> set fs then (case field_value r f of Inr v \<Rightarrow> Some v | Inl e \<Rightarrow> None)
                       else None))"
  using field_values_total [OF assms, of r] field_dict_total [OF assms, of r "[]"]
  by (auto simp: format_record_def text_format_def json_format_def)



lemma join_ends:
  assumes "ws \<noteq> []" and "\<forall>w \<in> set ws. w \<noteq> [] \<and> c \<notin> set w"
  shows "join [c] ws \<noteq> [] \<and> hd (join [c] ws) \<noteq> c \<and> last (join [c] ws) \<noteq> c"
  using assms
proof (induction "[c]" ws rule: join.induct)
  case (2 s)
  then show ?case by (auto dest: hd_in_set last_in_set)
next
  case (3 s s' ss)
  then show ?case by (auto dest: hd_in_set simp: hd_append)
qed simp

lemma dropWhile_hd: "xs \<noteq> [] \<Longrightarrow> \<not> P (hd xs) \<Longrightarrow> dropWhile P xs = xs"
  by (cases xs) auto

lemma path_parts_join:
  assumes "ws \<noteq> []" and "\<forall>w \<in> set ws. w \<noteq> [] \<and> CHR ''/'' \<notin> set w"
  shows "path_parts (CHR ''/'' # join ''/'' ws) = ws"
  using join_ends [OF assms] split_on_join [OF assms(1), of "CHR ''/''"] assms(2)
  by (simp add: path_parts_def dropWhile_hd hd_rev)

text \<open>
  What is logged for a ticket says so: while a request on a ticket's path is handled, every
  record that has no ticket id of its own is given the path's, and afterwards the context is what
  it was, whether the handler answered or raised; other requests leave the context alone.
\<close>

theorem request_logs_ticket:
  assumes "tid \<noteq> []" and "CHR ''/'' \<notin> set tid" and "sub = None \<or> sub = Some ''approval''"
    and "lr_ticket_id r = None"
  shows "\<exists>r'. ticket_context_middleware
      (''/tickets/'' @ tid @ (case sub of None \<Rightarrow> [] | Some a \<Rightarrow> ''/'' @ a))
      (\<lambda>ctx rs. (out, ctx, rs @ [context_filter ctx r])) ctx0 rs0 = (out, ctx0, rs0 @ [r']) \<and>
      lr_ticket_id r' = Some tid \<and>
      ticket_context_middleware ''/tickets'' call_next ctx0 s0 = call_next ctx0 s0"
proof -
  define ws where "ws = [''tickets'', tid] @ (case sub of None \<Rightarrow> [] | Some a \<Rightarrow> [a])"
  have "''/tickets/'' @ tid @ (case sub of None \<Rightarrow> [] | Some a \<Rightarrow> ''/'' @ a) = CHR ''/'' # join ''/'' ws"
    using assms(3) by (auto simp: ws_def)
  moreover have "path_parts (CHR ''/'' # join ''/'' ws) = ws"
    by (rule path_parts_join) (use assms(1-3) in \<open>auto simp: ws_def\<close>)
  ultimately have "path_ticket (''/tickets/'' @ tid @ (case sub of None \<Rightarrow> [] | Some a \<Rightarrow> ''/'' @ a))
      = Some tid"
    using assms(1) by (simp add: path_ticket_def ws_def)
  moreover have "path_ticket ''/tickets'' = None" by (simp add: path_ticket_def path_parts_def)
  then have "ticket_context_middleware ''/tickets'' call_next ctx0 s0 = call_next ctx0 s0"
    by (cases "call_next ctx0 s0") (simp add: ticket_context_middleware_def)
  ultimately show ?thesis
    using assms(4) by (simp add: ticket_context_middleware_def context_filter_def)
qed

theorem request_logs_ticket_witness:
  "\<exists>r'. ticket_context_middleware ''/tickets/42/approval''
      (\<lambda>ctx rs. (Inl TimeoutException :: exn + unit, ctx, rs @ [context_filter ctx
        \<lparr> lr_asctime = ''t'', lr_levelname = ''INFO'', lr_name = ''n'', lr_message = ''m'',
          lr_ticket_id = None, lr_task_queue = None, lr_module = ''mod'', lr_function = ''f'',
          lr_lineno = 7 \<rparr>])) None [] = (Inl TimeoutException, None, [r']) \<and>
      lr_ticket_id r' = Some ''42''"
  using request_logs_ticket [of "''42''" "Some ''approval''"
      "\<lparr> lr_asctime = ''t'', lr_levelname = ''INFO'', lr_name = ''n'', lr_message = ''m'',
          lr_ticket_id = None, lr_task_queue = None, lr_module = ''mod'', lr_function = ''f'',
          lr_lineno = 7 \<rparr>" "Inl TimeoutException :: exn + unit" None "[]"
      "\<lambda>ctx s. (Inr (), ctx, s)" "()"]
  by auto

end
