(* ===== verification/Batch.thy ===== *)
theory Batch
  imports Logging
begin

text \<open>
  The batch driver of \<^verbatim>\<open>scripts/batch.py\<close>: creating many tickets, polling them until they
  settle or the deadline has passed, and summing them up. The HTTP client's answers, the event
  loop's clock and the order in which the answers of one round arrive are parameters. Of an HTTP
  error only the status code is kept; \<^verbatim>\<open>pystr\<close> is Python's \<^verbatim>\<open>str\<close> of a JSON value.
\<close>

section \<open>HTTP answers\<close>

text \<open>A body that is no JSON is \<^verbatim>\<open>None\<close>.\<close>

datatype http_response =
    Response int "json option"
  | Timed_out
  | Request_failed string

definition raise_for_status :: "int \<Rightarrow> exn + unit" where
  "raise_for_status code =
     (if 200 \<le> code \<and> code \<le> 299 then Inr () else Inl (HTTPError (''HTTP '' @ show_int code)))"

definition response_json :: "json option \<Rightarrow> exn + json" where
  "response_json b = (case b of None \<Rightarrow> Inl (ValueError ''invalid JSON'') | Some j \<Rightarrow> Inr j)"

text \<open>\<^verbatim>\<open>j[key]\<close>.\<close>

definition subscript :: "string \<Rightarrow> json \<Rightarrow> exn + json" where
  "subscript key j =
     (if \<not> is_jobj j then Inl (TypeError key)
      else case jget j key of None \<Rightarrow> Inl (KeyError key) | Some v \<Rightarrow> Inr v)"

fun jstr :: "json option \<Rightarrow> string option" where
  "jstr (Some (JStr s)) = Some s"
| "jstr _ = None"

text \<open>\<^verbatim>\<open>d.get(key)\<close> when \<^verbatim>\<open>d\<close> is a dict, \<^verbatim>\<open>None\<close> otherwise.\<close>

definition sub_get :: "json \<Rightarrow> string \<Rightarrow> string \<Rightarrow> string option" where
  "sub_get j k key = (case jget j k of Some d \<Rightarrow> jstr (jget d key) | None \<Rightarrow> None)"

section \<open>Creating tickets\<close>

definition KEYWORD_TEMPLATES :: "(string \<times> string) list" where
  "KEYWORD_TEMPLATES =
     [(''Refund request for duplicate charge'',
       ''I need a refund because my card shows the same charge twice.''),
      (''App crash when opening report'',
       ''The dashboard shows an error and then the app crashes.''),
      (''Password reset login help'', ''I cannot login after changing my password.''),
      (''Question about account options'',
       ''I would like to understand which plan is right for our team.'')]"

definition make_ticket_payloads :: "nat \<Rightarrow> create_ticket_request list" where
  "make_ticket_payloads count =
     map (\<lambda>i. let (s, b) = KEYWORD_TEMPLATES ! (i mod length KEYWORD_TEMPLATES)
              in \<lparr> req_customer_email = ''batch-'' @ show_nat (i + 1) @ ''@example.com'',
                   req_subject = s @ '' #'' @ show_nat (i + 1), req_body = b \<rparr>) [0..<count]"

definition create_one :: "(json \<Rightarrow> string) \<Rightarrow> http_response \<Rightarrow> exn + string" where
  "create_one pystr resp =
     (case resp of
        Timed_out \<Rightarrow> Inl TimeoutException
      | Request_failed m \<Rightarrow> Inl (HTTPError m)
      | Response code b \<Rightarrow>
          bindr (raise_for_status code) (\<lambda>_.
          bindr (response_json b) (\<lambda>j.
          bindr (subscript ''ticket_id'' j) (\<lambda>v. Inr (pystr v)))))"

fun create_tickets :: "(json \<Rightarrow> string) \<Rightarrow> http_response list \<Rightarrow> exn + string list" where
  "create_tickets pystr [] = Inr []"
| "create_tickets pystr (r # rs) =
     bindr (create_one pystr r) (\<lambda>i. bindr (create_tickets pystr rs) (\<lambda>is. Inr (i # is)))"

section \<open>Polling\<close>

definition SETTLED_STATUSES :: "string list" where
  "SETTLED_STATUSES = [''resolved'', ''escalated'', ''rejected'', ''awaiting_approval'']"

definition TRANSIENT_STATUS_CODES :: "int list" where
  "TRANSIENT_STATUS_CODES = [500, 502, 503, 504]"

record ticket_snapshot =
  sn_status :: string
  sn_model_path :: "string option"

definition extract_model_path :: "json \<Rightarrow> string option" where
  "extract_model_path b =
     (case sub_get b ''result'' ''model_path'' of
        Some p \<Rightarrow> Some p
      | None \<Rightarrow>
          (case (sub_get b ''classification'' ''model'', sub_get b ''draft'' ''model'') of
             (Some c, Some d) \<Rightarrow> Some (c @ ''/'' @ d)
           | _ \<Rightarrow> None))"

text \<open>\<^verbatim>\<open>check_one\<close>: nothing is learnt from a timeout or a transient status.\<close>

definition check_one :: "(json \<Rightarrow> string) \<Rightarrow> http_response \<Rightarrow> exn + ticket_snapshot option" where
  "check_one pystr resp =
     (case resp of
        Timed_out \<Rightarrow> Inr None
      | Request_failed m \<Rightarrow> Inl (HTTPError m)
      | Response code b \<Rightarrow>
          if code \<in> set TRANSIENT_STATUS_CODES then Inr None
          else
            bindr (raise_for_status code) (\<lambda>_.
            bindr (response_json b) (\<lambda>j.
            bindr (subscript ''status'' j) (\<lambda>st.
            Inr (Some \<lparr> sn_status = pystr st, sn_model_path = extract_model_path j \<rparr>)))))"

record poll_state =
  unsettled :: "string list"
  snapshots :: "(string \<times> ticket_snapshot) list"

definition poll_start :: "string list \<Rightarrow> poll_state" where
  "poll_start ids = \<lparr> unsettled = sort (remdups ids), snapshots = [] \<rparr>"

definition note_snapshot :: "string \<Rightarrow> ticket_snapshot option \<Rightarrow> poll_state \<Rightarrow> poll_state" where
  "note_snapshot t obs S =
     (case obs of
        None \<Rightarrow> S
      | Some sn \<Rightarrow> S\<lparr> snapshots := dict_put t sn (snapshots S),
          unsettled := (if sn_status sn \<in> set SETTLED_STATUSES
                        then filter (\<lambda>x. x \<noteq> t) (unsettled S) else unsettled S) \<rparr>)"

text \<open>
  One round: the answers in the order in which they arrive; the first exception ends the poll.
\<close>

fun poll_round ::
  "(json \<Rightarrow> string) \<Rightarrow> (string \<times> http_response) list \<Rightarrow> poll_state \<Rightarrow> exn + poll_state" where
  "poll_round pystr [] S = Inr S"
| "poll_round pystr ((t, r) # rs) S =
     bindr (check_one pystr r) (\<lambda>obs. poll_round pystr rs (note_snapshot t obs S))"

definition waiting_message :: "string list \<Rightarrow> string" where
  "waiting_message ids = ''Timed out waiting for tickets: '' @ join '', '' ids"

text \<open>
  \<^verbatim>\<open>poll_ticket_snapshots\<close> from round \<^verbatim>\<open>k\<close> on: \<^verbatim>\<open>clock k\<close> is the time at which the
  round begins, \<^verbatim>\<open>answers k\<close> what each ticket's request gets, \<^verbatim>\<open>arrival k\<close> the order in
  which that happens. \<^verbatim>\<open>None\<close>: the fuel is used up.
\<close>

fun poll ::
  "nat \<Rightarrow> (json \<Rightarrow> string) \<Rightarrow> rat \<Rightarrow> (nat \<Rightarrow> rat) \<Rightarrow> (nat \<Rightarrow> string list \<Rightarrow> string list)
     \<Rightarrow> (nat \<Rightarrow> string \<Rightarrow> http_response) \<Rightarrow> nat \<Rightarrow> poll_state
     \<Rightarrow> (exn + (string \<times> ticket_snapshot) list) option" where
  "poll 0 pystr deadline clock arrival answers k S = None"
| "poll (Suc n) pystr deadline clock arrival answers k S =
     (if unsettled S = [] then Some (Inr (snapshots S))
      else if deadline \<le> clock k
      then Some (Inl (BatchTimeoutError (waiting_message (unsettled S))))
      else case poll_round pystr (map (\<lambda>t. (t, answers k t)) (arrival k (unsettled S))) S of
             Inl e \<Rightarrow> Some (Inl e)
           | Inr S' \<Rightarrow> poll n pystr deadline clock arrival answers (Suc k) S')"

definition poll_ticket_snapshots ::
  "nat \<Rightarrow> (json \<Rightarrow> string) \<Rightarrow> rat \<Rightarrow> (nat \<Rightarrow> rat) \<Rightarrow> (nat \<Rightarrow> string list \<Rightarrow> string list)
     \<Rightarrow> (nat \<Rightarrow> string \<Rightarrow> http_response) \<Rightarrow> string list
     \<Rightarrow> (exn + (string \<times> ticket_snapshot) list) option" where
  "poll_ticket_snapshots fuel pystr timeout clock arrival answers ids =
     poll fuel pystr (clock 0 + timeout) clock arrival answers 0 (poll_start ids)"

definition poll_ticket_statuses ::
  "nat \<Rightarrow> (json \<Rightarrow> string) \<Rightarrow> rat \<Rightarrow> (nat \<Rightarrow> rat) \<Rightarrow> (nat \<Rightarrow> string list \<Rightarrow> string list)
     \<Rightarrow> (nat \<Rightarrow> string \<Rightarrow> http_response) \<Rightarrow> string list \<Rightarrow> (exn + (string \<times> string) list) option" where
  "poll_ticket_statuses fuel pystr timeout clock arrival answers ids =
     map_option (map_sum id (map (\<lambda>(t, sn). (t, sn_status sn))))
       (poll_ticket_snapshots fuel pystr timeout clock arrival answers ids)"

section \<open>Summing up\<close>

definition count_of :: "'k \<Rightarrow> 'k list \<Rightarrow> nat" where
  "count_of k xs = length (filter (\<lambda>x. x = k) xs)"

text \<open>Both histograms: a count per key in the keys' order, and the total.\<close>

definition histogram :: "string list \<Rightarrow> (string \<times> nat) list" where
  "histogram xs =
     dict_put ''total'' (length xs) (map (\<lambda>k. (k, count_of k xs)) (sort (remdups xs)))"

definition status_histogram :: "(string \<times> string) list \<Rightarrow> (string \<times> nat) list" where
  "status_histogram statuses = histogram (map snd statuses)"

definition path_or_unknown :: "ticket_snapshot \<Rightarrow> string" where
  "path_or_unknown sn = or_else (sn_model_path sn) (\<lambda>p. p = []) ''unknown''"

definition model_path_histogram :: "(string \<times> ticket_snapshot) list \<Rightarrow> (string \<times> nat) list" where
  "model_path_histogram sns = histogram (map (\<lambda>(t, sn). path_or_unknown sn) sns)"

record batch_summary =
  bs_statuses :: "(string \<times> nat) list"
  bs_model_paths :: "(string \<times> nat) list"

definition fallback_model_path_count :: "batch_summary \<Rightarrow> nat" where
  "fallback_model_path_count b =
     sum_list (map snd (filter (\<lambda>(p, n). p \<noteq> ''total'' \<and> ''fallback'' \<in> set (split_on CHR ''/'' p))
       (bs_model_paths b)))"

definition summarize :: "(string \<times> ticket_snapshot) list \<Rightarrow> batch_summary" where
  "summarize sns =
     \<lparr> bs_statuses = status_histogram (map (\<lambda>(t, sn). (t, sn_status sn)) sns),
       bs_model_paths = model_path_histogram sns \<rparr>"

text \<open>\<^verbatim>\<open>run_batch\<close>: the create requests' answers, then the poll.\<close>

definition run_batch ::
  "nat \<Rightarrow> (json \<Rightarrow> string) \<Rightarrow> http_response list \<Rightarrow> rat \<Rightarrow> (nat \<Rightarrow> rat)
     \<Rightarrow> (nat \<Rightarrow> string list \<Rightarrow> string list) \<Rightarrow> (nat \<Rightarrow> string \<Rightarrow> http_response)
     \<Rightarrow> (exn + batch_summary) option" where
  "run_batch fuel pystr created timeout clock arrival answers =
     (case create_tickets pystr created of
        Inl e \<Rightarrow> Some (Inl e)
      | Inr ids \<Rightarrow>
          map_option (map_sum id summarize)
            (poll_ticket_snapshots fuel pystr timeout clock arrival answers ids))"

definition histogram_lines :: "batch_summary \<Rightarrow> string list" where
  "histogram_lines b =
     ''statuses:'' # map (\<lambda>(k, n). k @ '': '' @ show_nat n) (bs_statuses b) @
     ''model_paths:'' # map (\<lambda>(k, n). k @ '': '' @ show_nat n) (bs_model_paths b)"

text \<open>
  \<^verbatim>\<open>main\<close>: the exit code and the lines printed; only the caught exceptions become one.
\<close>

fun batch_failure :: "exn \<Rightarrow> string option" where
  "batch_failure (BatchTimeoutError m) = Some m"
| "batch_failure (HTTPError m) = Some m"
| "batch_failure TimeoutException = Some []"
| "batch_failure _ = None"

definition batch_main ::
  "bool \<Rightarrow> nat \<Rightarrow> exn + batch_summary \<Rightarrow> exn + int \<times> string list" where
  "batch_main require_fallback min_fallback out =
     (case out of
        Inl e \<Rightarrow> (case batch_failure e of
                    Some m \<Rightarrow> Inr (1, [''batch failed: '' @ m]) | None \<Rightarrow> Inl e)
      | Inr b \<Rightarrow>
          (let observed = fallback_model_path_count b
           in if require_fallback \<and> observed < min_fallback
              then Inr (1, histogram_lines b @
                [''batch failed: expected at least '' @ show_nat min_fallback @
                 '' fallback-routed ticket, observed '' @ show_nat observed])
              else Inr (0, histogram_lines b)))"

text \<open>The command line's positive numbers.\<close>

definition positive_int :: "int option \<Rightarrow> exn + int" where
  "positive_int parsed =
     (case parsed of None \<Rightarrow> Inl (ValueError ''invalid literal'')
      | Some n \<Rightarrow> if n \<le> 0 then Inl (ValueError ''must be greater than zero'') else Inr n)"

definition positive_float :: "rat option \<Rightarrow> exn + rat" where
  "positive_float parsed =
     (case parsed of None \<Rightarrow> Inl (ValueError ''could not convert'')
      | Some x \<Rightarrow> if x \<le> 0 then Inl (ValueError ''must be greater than zero'') else Inr x)"

section \<open>Properties of the poll\<close>

lemma keys_dict_put: "fst ` set (dict_put k v d) = insert k (fst ` set d)"
proof (induction d)
  case (Cons x d)
  then show ?case by (cases x) (simp add: insert_commute)
qed simp

lemma distinct_dict_put: "distinct (map fst d) \<Longrightarrow> distinct (map fst (dict_put k v d))"
  by (induction d) (auto simp: keys_dict_put)

lemma set_dict_put:
  "distinct (map fst d) \<Longrightarrow> set (dict_put k v d) = insert (k, v) {x \<in> set d. fst x \<noteq> k}"
proof (induction d)
  case (Cons x d)
  then show ?case by (cases x) (force split: if_splits)
qed simp

text \<open>What the poll knows between answers.\<close>

definition poll_inv ::
  "(json \<Rightarrow> string) \<Rightarrow> (nat \<Rightarrow> string \<Rightarrow> http_response) \<Rightarrow> string list \<Rightarrow> poll_state \<Rightarrow> bool" where
  "poll_inv pystr answers ids S =
     (set (unsettled S) \<subseteq> set ids \<and> distinct (map fst (snapshots S)) \<and>
      set ids \<subseteq> set (unsettled S) \<union> fst ` set (snapshots S) \<and>
      (\<forall>(t, sn) \<in> set (snapshots S). t \<in> set ids \<and>
         (\<exists>k. check_one pystr (answers k t) = Inr (Some sn)) \<and>
         (t \<notin> set (unsettled S) \<longrightarrow> sn_status sn \<in> set SETTLED_STATUSES)))"

lemma poll_inv_note:
  assumes "poll_inv pystr answers ids S" and "t \<in> set (unsettled S)"
    and "check_one pystr (answers k t) = Inr obs"
  shows "poll_inv pystr answers ids (note_snapshot t obs S)"
proof (cases obs)
  case (Some sn)
  have d: "distinct (map fst (snapshots S))" using assms(1) by (simp add: poll_inv_def)
  show ?thesis using assms Some
    by (auto simp: poll_inv_def note_snapshot_def keys_dict_put distinct_dict_put set_dict_put [OF d])
qed (use assms in \<open>simp add: note_snapshot_def\<close>)

lemma poll_round_inv:
  assumes "poll_inv pystr answers ids S" and "distinct ts" and "set ts \<subseteq> set (unsettled S)"
  shows "case poll_round pystr (map (\<lambda>t. (t, answers k t)) ts) S of
      Inr S' \<Rightarrow> poll_inv pystr answers ids S'
    | Inl e \<Rightarrow> \<exists>t \<in> set ids. check_one pystr (answers k t) = Inl e"
  using assms
proof (induction ts arbitrary: S)
  case (Cons t ts)
  show ?case
  proof (cases "check_one pystr (answers k t)")
    case (Inl e)
    then show ?thesis using Cons.prems by (auto simp: poll_inv_def)
  next
    case (Inr obs)
    have "poll_inv pystr answers ids (note_snapshot t obs S)"
      using poll_inv_note [OF Cons.prems(1) _ Inr] Cons.prems(3) by simp
    moreover have "set ts \<subseteq> set (unsettled (note_snapshot t obs S))"
      using Cons.prems(2,3) by (auto simp: note_snapshot_def split: option.splits)
    ultimately show ?thesis using Cons.IH [of "note_snapshot t obs S"] Cons.prems(2) Inr by simp
  qed
qed simp

lemma poll_round_distinct:
  "poll_round pystr rs S = Inr S' \<Longrightarrow> distinct (unsettled S) \<Longrightarrow> distinct (unsettled S')"
proof (induction rs arbitrary: S)
  case (Cons x rs)
  obtain t r obs where "x = (t, r)" "check_one pystr r = Inr obs"
    "poll_round pystr rs (note_snapshot t obs S) = Inr S'"
    using Cons.prems(1) by (cases x) (auto simp: bindr_Inr_iff)
  moreover have "distinct (unsettled (note_snapshot t obs S))"
    using Cons.prems(2) by (simp add: note_snapshot_def split: option.splits)
  ultimately show ?case using Cons.IH by blast
qed simp

text \<open>What the poll may answer.\<close>

definition poll_answer ::
  "(json \<Rightarrow> string) \<Rightarrow> (nat \<Rightarrow> string \<Rightarrow> http_response) \<Rightarrow> string list
     \<Rightarrow> exn + (string \<times> ticket_snapshot) list \<Rightarrow> bool" where
  "poll_answer pystr answers ids out =
     (case out of
        Inr sns \<Rightarrow> distinct (map fst sns) \<and> fst ` set sns = set ids \<and>
          (\<forall>(t, sn) \<in> set sns. sn_status sn \<in> set SETTLED_STATUSES \<and>
             (\<exists>k. check_one pystr (answers k t) = Inr (Some sn)))
      | Inl e \<Rightarrow>
          (\<exists>ts. ts \<noteq> [] \<and> set ts \<subseteq> set ids \<and> e = BatchTimeoutError (waiting_message ts)) \<or>
          (\<exists>k. \<exists>t \<in> set ids. check_one pystr (answers k t) = Inl e))"

lemma poll_inv_done:
  "poll_inv pystr answers ids S \<Longrightarrow> unsettled S = [] \<Longrightarrow>
   poll_answer pystr answers ids (Inr (snapshots S))"
  by (fastforce simp: poll_inv_def poll_answer_def)

lemma poll_total:
  assumes "0 < d" and "\<forall>k. clock k + d \<le> clock (Suc k)"
    and "\<forall>k xs. distinct xs \<longrightarrow> distinct (arrival k xs) \<and> set (arrival k xs) = set xs"
    and "deadline \<le> clock k + of_nat n * d" and "poll_inv pystr answers ids S"
    and "distinct (unsettled S)"
  shows "\<exists>out. poll (Suc n) pystr deadline clock arrival answers k S = Some out \<and>
    poll_answer pystr answers ids out"
  using assms(4-6)
proof (induction n arbitrary: k S)
  case 0
  have "poll_answer pystr answers ids (Inl (BatchTimeoutError (waiting_message (unsettled S))))"
    if "unsettled S \<noteq> []"
    using that 0(2) by (auto simp: poll_answer_def poll_inv_def)
  then show ?case using 0 poll_inv_done [OF 0(2)] by simp
next
  case (Suc n)
  let ?ts = "arrival k (unsettled S)"
  let ?round = "poll_round pystr (map (\<lambda>t. (t, answers k t)) ?ts) S"
  have ts: "distinct ?ts" "set ?ts = set (unsettled S)" using assms(3) Suc.prems(3) by auto
  note round = poll_round_inv [OF Suc.prems(2) ts(1), of k]
  consider "unsettled S = []" | "unsettled S \<noteq> []" "deadline \<le> clock k"
    | e where "unsettled S \<noteq> []" "\<not> deadline \<le> clock k" "?round = Inl e"
    | S' where "unsettled S \<noteq> []" "\<not> deadline \<le> clock k" "?round = Inr S'"
    by (cases ?round) auto
  then show ?case
  proof cases
    case 1
    then show ?thesis using poll_inv_done [OF Suc.prems(2)] by simp
  next
    case 2
    then show ?thesis using Suc.prems(2) by (auto simp: poll_answer_def poll_inv_def)
  next
    case 3
    then show ?thesis using round ts(2) by (auto simp: poll_answer_def)
  next
    case 4
    have "distinct (unsettled S')" using 4(3) Suc.prems(3) by (rule poll_round_distinct)
    moreover have "deadline \<le> clock (Suc k) + of_nat n * d"
      using Suc.prems(1) assms(2) [THEN spec, of k] by (simp add: algebra_simps)
    ultimately show ?thesis using Suc.IH [of "Suc k" S'] 4 round ts(2) by simp
  qed
qed

text \<open>
  C31: the poll ends and tells the truth: when a round takes at least \<^verbatim>\<open>d\<close> seconds, the poll
  is over after \<^verbatim>\<open>timeout / d\<close> rounds at most, whatever the API answers. It then has one
  snapshot for each ticket, with a settled status and taken from one of that ticket's answers; or
  it names tickets of the batch in its timeout; or it raises what one of the requests raised.
\<close>

theorem poll_settles:
  assumes "0 < d" and "\<forall>k. clock k + d \<le> clock (Suc k)" and "timeout \<le> of_nat n * d"
    and "\<forall>k xs. distinct xs \<longrightarrow> distinct (arrival k xs) \<and> set (arrival k xs) = set xs"
  shows "\<exists>out. poll_ticket_snapshots (Suc n) pystr timeout clock arrival answers ids = Some out \<and>
    (case out of
        Inr sns \<Rightarrow> distinct (map fst sns) \<and> fst ` set sns = set ids \<and>
          (\<forall>(t, sn) \<in> set sns. sn_status sn \<in> set SETTLED_STATUSES \<and>
             (\<exists>k. check_one pystr (answers k t) = Inr (Some sn)))
      | Inl e \<Rightarrow>
          (\<exists>ts. ts \<noteq> [] \<and> set ts \<subseteq> set ids \<and> e = BatchTimeoutError (waiting_message ts)) \<or>
          (\<exists>k. \<exists>t \<in> set ids. check_one pystr (answers k t) = Inl e))"
  using poll_total [OF assms(1,2,4), of "clock 0 + timeout" 0 n pystr answers ids "poll_start ids"]
    assms(3)
  by (auto simp: poll_ticket_snapshots_def poll_start_def poll_inv_def poll_answer_def)

text \<open>A body with a status, and one round in which it has settled.\<close>

definition plain_str :: "json \<Rightarrow> string" where
  "plain_str j = (case j of JStr s \<Rightarrow> s | _ \<Rightarrow> [])"

definition demo_answers :: "nat \<Rightarrow> string \<Rightarrow> http_response" where
  "demo_answers k t = (if k = 0 then Timed_out
     else Response 200 (Some (JObj [(''status'', JStr ''resolved'')])))"

theorem poll_settles_witness:
  "poll_ticket_snapshots 4 plain_str 3 of_nat (\<lambda>k xs. rev xs) demo_answers [''b'', ''a''] =
     Some (Inr [(''b'', \<lparr> sn_status = ''resolved'', sn_model_path = None \<rparr>),
       (''a'', \<lparr> sn_status = ''resolved'', sn_model_path = None \<rparr>)]) \<and>
   (\<exists>out. poll_ticket_snapshots 4 plain_str 3 of_nat (\<lambda>k xs. rev xs) demo_answers [''b'', ''a''] =
      Some out)"
proof
  show "poll_ticket_snapshots 4 plain_str 3 of_nat (\<lambda>k xs. rev xs) demo_answers [''b'', ''a''] =
     Some (Inr [(''b'', \<lparr> sn_status = ''resolved'', sn_model_path = None \<rparr>),
       (''a'', \<lparr> sn_status = ''resolved'', sn_model_path = None \<rparr>)])"
    by code_simp
  from poll_settles [of 1 "of_nat :: nat \<Rightarrow> rat" 3 3 "\<lambda>k xs. rev xs"]
  show "\<exists>out. poll_ticket_snapshots 4 plain_str 3 of_nat (\<lambda>k xs. rev xs) demo_answers [''b'', ''a''] =
      Some out" by fastforce
qed

section \<open>Properties of the summary\<close>

lemma count_of_list: "count_of k xs = count_list xs k"
  by (induction xs) (simp_all add: count_of_def)

lemma sum_counts:
  "sum_list (map (\<lambda>k. count_of k xs) (filter Q (sort (remdups xs)))) = length (filter Q xs)"
proof -
  have "sum_list (map (\<lambda>k. count_of k xs) (filter Q (sort (remdups xs))))
      = (\<Sum>k \<in> set (filter Q xs). count_of k xs)"
    by (subst sum_list_distinct_conv_sum_set) simp_all
  also have "\<dots> = (\<Sum>k \<in> set (filter Q xs). count_list (filter Q xs) k)"
    by (rule sum.cong) (auto simp: count_of_def count_list_eq_length_filter filter_filter
        intro!: arg_cong [of _ _ length] filter_cong)
  also have "\<dots> = length (filter Q xs)" by (rule sum_count_set) simp_all
  finally show ?thesis .
qed

lemma filter_dict_put_out: "\<not> P (k, v) \<Longrightarrow> (\<And>w. \<not> P (k, w)) \<Longrightarrow> filter P (dict_put k v d) = filter P d"
  by (induction d) auto

lemma map_of_counts:
  "map_of (map (\<lambda>k. (k, count_of k xs)) ks) k = (if k \<in> set ks then Some (count_of k xs) else None)"
  by (induction ks) auto

text \<open>
  The summary counts the tickets: every status and every model path stands in its histogram
  with the number of tickets that have it (the total under its own name), and the fallback count
  that the demo is judged by is the number of tickets with a fallback part in their model path,
  also when a model path is missing, empty or called \<^verbatim>\<open>total\<close>.
\<close>

theorem batch_summary_counts:
  "map_of (bs_statuses (summarize sns)) st =
     (if st = ''total'' then Some (length sns)
      else if st \<in> set (map (\<lambda>(t, sn). sn_status sn) sns)
      then Some (length (filter (\<lambda>(t, sn). sn_status sn = st) sns)) else None) \<and>
   map_of (bs_model_paths (summarize sns)) p =
     (if p = ''total'' then Some (length sns)
      else if p \<in> set (map (\<lambda>(t, sn). path_or_unknown sn) sns)
      then Some (length (filter (\<lambda>(t, sn). path_or_unknown sn = p) sns)) else None) \<and>
   fallback_model_path_count (summarize sns) =
     length (filter (\<lambda>(t, sn). ''fallback'' \<in> set (split_on CHR ''/'' (path_or_unknown sn))) sns)"
proof -
  have entries: "map_of (histogram xs) k = (if k = ''total'' then Some (length xs)
      else if k \<in> set xs then Some (count_of k xs) else None)" for xs k
    by (simp add: histogram_def map_of_counts)
  have counts: "count_of k (map g sns) = length (filter (\<lambda>x. g x = k) sns)" for k and g :: "_ \<Rightarrow> string"
    by (simp add: count_of_def filter_map o_def)
  let ?F = "\<lambda>p. p \<noteq> ''total'' \<and> ''fallback'' \<in> set (split_on CHR ''/'' p)"
  let ?paths = "map (\<lambda>(t, sn). path_or_unknown sn) sns"
  have "filter (\<lambda>(p, n). ?F p) (histogram ?paths) =
      map (\<lambda>k. (k, count_of k ?paths)) (filter ?F (sort (remdups ?paths)))"
    unfolding histogram_def by (subst filter_dict_put_out) (simp_all add: filter_map o_def)
  then have "fallback_model_path_count (summarize sns) = length (filter ?F ?paths)"
    using sum_counts [of ?paths ?F]
    by (simp add: fallback_model_path_count_def summarize_def model_path_histogram_def o_def)
  also have "\<dots> = length (filter (\<lambda>(t, sn). ''fallback'' \<in> set (split_on CHR ''/'' (path_or_unknown sn))) sns)"
    by (auto simp: filter_map o_def split_beta intro!: arg_cong [of _ _ length] filter_cong)
  finally show ?thesis
    by (auto simp: summarize_def status_histogram_def model_path_histogram_def entries counts
        case_prod_unfold o_def)
qed

section \<open>What the driver reads from the API\<close>

text \<open>The JSON of \<^verbatim>\<open>GET /tickets/{id}\<close>.\<close>

definition info_dump :: "ticket_status_info \<Rightarrow> json" where
  "info_dump i = JObj
     [(''ticket_id'', JStr (i_ticket_id i)), (''status'', JStr (status_value (i_status i))),
      (''classification'', opt_json classification_dump (i_classification i)),
      (''draft'', opt_json draft_dump (i_draft i)),
      (''decision'', opt_json decision_dump (i_decision i)),
      (''result'', opt_json result_dump (i_result i))]"

text \<open>
  The driver reads what the API says: from the answer to a status request it takes the ticket's
  status, which is settled exactly when the ticket is at an end or waits for a human; and while
  the workflow runs, and after it has ended with its result, the model path it finds is that of
  the ticket's classification and draft.
\<close>

theorem batch_reads_ticket:
  assumes "\<forall>s. pystr (JStr s) = s"
  shows "\<exists>sn. check_one pystr (Response 200 (Some (info_dump i))) = Inr (Some sn) \<and>
    sn_status sn = status_value (i_status i) \<and>
    (sn_status sn \<in> set SETTLED_STATUSES \<longleftrightarrow> terminal (i_status i) \<or> i_status i = AWAITING_APPROVAL) \<and>
    (\<forall>c d. i_classification i = Some c \<longrightarrow> i_draft i = Some d \<longrightarrow>
       (i_result i = None \<or>
        (\<exists>t st b. i_result i = Some ((expected_result t c d st)\<lparr> refund_executed := b \<rparr>))) \<longrightarrow>
       sn_model_path sn = Some (c_model c @ ''/'' @ d_model d))"
proof -
  have settled: "status_value s \<in> set SETTLED_STATUSES \<longleftrightarrow> terminal s \<or> s = AWAITING_APPROVAL" for s
    by (cases s) (simp_all add: SETTLED_STATUSES_def)
  show ?thesis using assms
    by (auto simp: check_one_def info_dump_def raise_for_status_def response_json_def subscript_def
        TRANSIENT_STATUS_CODES_def settled extract_model_path_def sub_get_def expected_result_def
        result_dump_def classification_dump_def draft_dump_def split: option.splits)
qed

theorem batch_reads_ticket_witness:
  "\<exists>sn. check_one plain_str (Response 200 (Some (info_dump \<lparr> i_ticket_id = ''t1'',
        i_status = AWAITING_APPROVAL, i_classification = Some demo_class, i_draft = Some demo_refund,
        i_decision = None, i_result = None \<rparr>))) = Inr (Some sn) \<and>
     sn_status sn = ''awaiting_approval'' \<and> sn_model_path sn = Some ''primary/primary''"
  using batch_reads_ticket [of plain_str "\<lparr> i_ticket_id = ''t1'',
        i_status = AWAITING_APPROVAL, i_classification = Some demo_class, i_draft = Some demo_refund,
        i_decision = None, i_result = None \<rparr>"]
  by (auto simp: plain_str_def demo_class_def demo_refund_def)

end
