(* ===== verification/Checks.thy ===== *)
theory Checks
  imports Batch
begin

text \<open>
  The operator's checks: \<^verbatim>\<open>scripts/doctor.py\<close>, \<^verbatim>\<open>scripts/wait_for_api.py\<close> and
  \<^verbatim>\<open>scripts/reset.py\<close>. The HTTP client's answers and the clock are parameters, as in the
  batch driver; so is the text of a failed request.
\<close>

section \<open>The doctor\<close>

record check_result =
  exit_code :: int
  check_lines :: "string list"

text \<open>\<^verbatim>\<open>d.get(key, default)\<close> and \<^verbatim>\<open>str\<close> of its answer.\<close>

definition py_get :: "json \<Rightarrow> string \<Rightarrow> json \<Rightarrow> exn + json" where
  "py_get d key dflt =
     (if \<not> is_jobj d then Inl (AttributeError ''get'')
      else case jget d key of None \<Rightarrow> Inr dflt | Some v \<Rightarrow> Inr v)"

definition config_value :: "(json \<Rightarrow> string) \<Rightarrow> json \<Rightarrow> string \<Rightarrow> exn + string" where
  "config_value pystr cfg key = bindr (py_get cfg key (JStr ''unknown'')) (\<lambda>v. Inr (pystr v))"

definition unavailable :: "string \<Rightarrow> check_result" where
  "unavailable why = \<lparr> exit_code = 1, check_lines =
     [''api: unavailable ('' @ why @ ''run `make api`)'', ''database: unknown'',
      ''orchestration: unknown''] \<rparr>"

definition check_ready :: "(json \<Rightarrow> string) \<Rightarrow> int \<Rightarrow> json \<Rightarrow> exn + check_result" where
  "check_ready pystr code b =
     bindr (py_get b ''config'' (JObj [])) (\<lambda>cfg.
     bindr (py_get b ''database'' (JObj [])) (\<lambda>database.
     bindr (py_get b ''orchestration'' (JObj [])) (\<lambda>orchestration.
     bindr (py_get database ''status'' (JStr ''unknown'')) (\<lambda>database_status.
     bindr (py_get orchestration ''status'' (JStr ''unknown'')) (\<lambda>orchestration_status.
     bindr (config_value pystr cfg ''database_url'') (\<lambda>url.
     bindr (py_get orchestration ''message'' JNull) (\<lambda>message.
     bindr (py_get b ''status'' JNull) (\<lambda>status.
     Inr \<lparr> exit_code = (if code < 500 \<and> status = JStr ''healthy'' then 0 else 1),
       check_lines =
         [''api: healthy'', ''database: '' @ pystr database_status @ '' ('' @ url @ '')'',
          ''orchestration: '' @ pystr orchestration_status] @
         (case message of
            JStr m \<Rightarrow> if m \<noteq> [] then [''orchestration: '' @ m] else []
          | _ \<Rightarrow> []) \<rparr>))))))))"

definition ready_unknown :: check_result where
  "ready_unknown = \<lparr> exit_code = 1,
     check_lines = [''api: healthy'', ''database: unknown'', ''orchestration: unknown''] \<rparr>"

definition check_stack ::
  "(json \<Rightarrow> string) \<Rightarrow> http_response \<Rightarrow> http_response \<Rightarrow> exn + check_result" where
  "check_stack pystr health_answer ready_answer =
     (case health_answer of
        Response code _ \<Rightarrow>
          if code \<noteq> 200 then Inr (unavailable (''HTTP '' @ show_int code @ ''; ''))
          else (case ready_answer of
                  Response ready_code (Some b) \<Rightarrow> check_ready pystr ready_code b
                | _ \<Rightarrow> Inr ready_unknown)
      | _ \<Rightarrow> Inr (unavailable []))"

definition lines_to_print :: "bool \<Rightarrow> check_result \<Rightarrow> string list" where
  "lines_to_print quiet r = (if quiet \<and> exit_code r = 0 then [] else check_lines r)"

definition doctor_main :: "bool \<Rightarrow> exn + check_result \<Rightarrow> exn + int \<times> string list" where
  "doctor_main quiet out =
     (case out of Inl e \<Rightarrow> Inl e | Inr r \<Rightarrow> Inr (exit_code r, lines_to_print quiet r))"

section \<open>Waiting for the API\<close>

definition healthy_answer :: "http_response \<Rightarrow> bool" where
  "healthy_answer a = (case a of Response code _ \<Rightarrow> code = 200 | _ \<Rightarrow> False)"

definition last_status_of :: "(http_response \<Rightarrow> string) \<Rightarrow> http_response \<Rightarrow> string" where
  "last_status_of describe a =
     (case a of Response code _ \<Rightarrow> ''HTTP '' @ show_int code | _ \<Rightarrow> describe a)"

definition unavailable_message :: "(rat \<Rightarrow> string) \<Rightarrow> rat \<Rightarrow> string \<Rightarrow> string" where
  "unavailable_message fmt timeout last_status =
     ''api: unavailable after '' @ fmt timeout @ ''s (last status: '' @ last_status @ '')''"

text \<open>
  \<^verbatim>\<open>wait_until_healthy\<close> from attempt \<^verbatim>\<open>k\<close> on: \<^verbatim>\<open>clock k\<close> is the time after it.
\<close>

fun wait_loop ::
  "nat \<Rightarrow> (http_response \<Rightarrow> string) \<Rightarrow> (rat \<Rightarrow> string) \<Rightarrow> rat \<Rightarrow> rat \<Rightarrow> (nat \<Rightarrow> rat)
     \<Rightarrow> (nat \<Rightarrow> http_response) \<Rightarrow> nat \<Rightarrow> string option option" where
  "wait_loop 0 describe fmt timeout deadline clock answers k = None"
| "wait_loop (Suc n) describe fmt timeout deadline clock answers k =
     (if healthy_answer (answers k) then Some None
      else if deadline \<le> clock k
      then Some (Some (unavailable_message fmt timeout (last_status_of describe (answers k))))
      else wait_loop n describe fmt timeout deadline clock answers (Suc k))"

definition wait_until_healthy ::
  "nat \<Rightarrow> (http_response \<Rightarrow> string) \<Rightarrow> (rat \<Rightarrow> string) \<Rightarrow> rat \<Rightarrow> rat \<Rightarrow> (nat \<Rightarrow> rat)
     \<Rightarrow> (nat \<Rightarrow> http_response) \<Rightarrow> string option option" where
  "wait_until_healthy fuel describe fmt begun timeout clock answers =
     wait_loop fuel describe fmt timeout (begun + timeout) clock answers 0"

definition wait_run :: "string option \<Rightarrow> int \<times> string list" where
  "wait_run out = (case out of None \<Rightarrow> (0, []) | Some message \<Rightarrow> (1, [message]))"

section \<open>Resetting the read model\<close>

definition run_reset :: "ledger_store \<Rightarrow> nat \<times> ledger_store" where
  "run_reset L = clear L"

definition reset_main :: "ledger_store \<Rightarrow> (int \<times> string list) \<times> ledger_store" where
  "reset_main L =
     (let (n, L') = run_reset L in ((0, [''read_model_rows_cleared: '' @ show_nat n]), L'))"

section \<open>Properties\<close>

text \<open>The JSON of \<^verbatim>\<open>GET /ready\<close>.\<close>

definition ready_dump :: "readiness \<Rightarrow> json" where
  "ready_dump r = JObj
     [(''status'', JStr (rd_status r)), (''database'', JObj [(''status'', JStr (rd_database r))]),
      (''orchestration'', JObj [(''status'', JStr (rd_orchestration r))]),
      (''config'', JObj (map (\<lambda>(k, v). (k, JStr v)) (rd_config r)))]"

text \<open>
  C32: the doctor says what the API's readiness says: against a live API it finds the stack healthy
  exactly when the database answers and the graph is compiled, names each part's state with the
  database's URL, never raises, and in quiet mode stays silent exactly when all is well.
\<close>

theorem doctor_agrees:
  assumes "\<forall>s. pystr (JStr s) = s"
  shows "\<exists>r. check_stack pystr (Response 200 b)
      (Response 200 (Some (ready_dump (ready url E ping compiled)))) = Inr r \<and>
    (exit_code r = 0 \<longleftrightarrow> database_connected ping \<and> compiled \<noteq> None) \<and>
    check_lines r = [''api: healthy'',
      ''database: '' @ (if database_connected ping then ''connected'' else ''unavailable'') @
        '' ('' @ url @ '')'',
      ''orchestration: '' @ (if compiled \<noteq> None then ''ready'' else ''not_ready'')] \<and>
    (lines_to_print True r = [] \<longleftrightarrow> database_connected ping \<and> compiled \<noteq> None)"
  using assms
  by (auto simp: check_stack_def check_ready_def ready_dump_def ready_def readiness_config_def
      py_get_def config_value_def lines_to_print_def Let_def)

theorem doctor_agrees_witness:
  "\<exists>r. check_stack plain_str (Response 200 None)
      (Response 200 (Some (ready_dump (ready ''pg'' default_env None (Some ref_engine))))) = Inr r \<and>
    exit_code r = 1 \<and> check_lines r = [''api: healthy'', ''database: unavailable (pg)'',
      ''orchestration: ready'']"
  using doctor_agrees [of plain_str None "''pg''" default_env None "Some ref_engine"]
  by (force simp: plain_str_def database_connected_def check_stack_def check_ready_def ready_dump_def
      ready_def readiness_config_def py_get_def config_value_def Let_def)

text \<open>
  Waiting for the API ends and tells the truth: when an attempt takes at least \<^verbatim>\<open>d\<close>
  seconds, it is over after \<^verbatim>\<open>timeout / d\<close> attempts at most; it reports success only when
  the last attempt was answered with 200, and otherwise that the deadline has passed with no such
  answer so far, with the last attempt's status.
\<close>

theorem wait_settles:
  assumes "0 < d" and "begun \<le> clock 0" and "\<forall>k. clock k + d \<le> clock (Suc k)"
    and "timeout \<le> of_nat n * d"
  shows "\<exists>j \<le> n. \<exists>out.
    wait_until_healthy (Suc n) describe fmt begun timeout clock answers = Some out \<and>
    (\<forall>i < j. \<not> healthy_answer (answers i) \<and> clock i < begun + timeout) \<and>
    (if healthy_answer (answers j) then out = None
     else begun + timeout \<le> clock j \<and>
       out = Some (unavailable_message fmt timeout (last_status_of describe (answers j))))"
proof -
  have "\<exists>j \<ge> k. j \<le> k + n \<and> (\<exists>out.
      wait_loop (Suc n) describe fmt timeout (begun + timeout) clock answers k = Some out \<and>
      (\<forall>i. k \<le> i \<and> i < j \<longrightarrow> \<not> healthy_answer (answers i) \<and> clock i < begun + timeout) \<and>
      (if healthy_answer (answers j) then out = None
       else begun + timeout \<le> clock j \<and>
         out = Some (unavailable_message fmt timeout (last_status_of describe (answers j)))))"
    if "begun + timeout \<le> clock k + of_nat n * d" for k n
    using that
  proof (induction n arbitrary: k)
    case 0
    then show ?case by (intro exI [of _ k]) auto
  next
    case (Suc n)
    show ?case
    proof (cases "healthy_answer (answers k) \<or> begun + timeout \<le> clock k")
      case True
      then show ?thesis by (intro exI [of _ k]) auto
    next
      case False
      have "begun + timeout \<le> clock (Suc k) + of_nat n * d"
        using Suc.prems assms(3) [THEN spec, of k] by (simp add: algebra_simps)
      from Suc.IH [OF this] obtain j out where j: "Suc k \<le> j" "j \<le> Suc k + n"
        "wait_loop (Suc n) describe fmt timeout (begun + timeout) clock answers (Suc k) = Some out"
        "\<forall>i. Suc k \<le> i \<and> i < j \<longrightarrow> \<not> healthy_answer (answers i) \<and> clock i < begun + timeout"
        "if healthy_answer (answers j) then out = None
         else begun + timeout \<le> clock j \<and>
           out = Some (unavailable_message fmt timeout (last_status_of describe (answers j)))"
        by blast
      have "\<not> healthy_answer (answers i) \<and> clock i < begun + timeout" if "k \<le> i" "i < j" for i
        using that j(4) False by (cases "i = k") auto
      moreover have "wait_loop (Suc (Suc n)) describe fmt timeout (begun + timeout) clock answers k
          = Some out"
        using j(3) False by simp
      ultimately show ?thesis using j(1,2,5) by (intro exI [of _ j]) auto
    qed
  qed
  from this [of 0 n] show ?thesis using assms(2,4) by (auto simp: wait_until_healthy_def)
qed

theorem wait_settles_witness:
  "wait_until_healthy 3 (\<lambda>a. ''refused'') (\<lambda>x. ''2.0'') 0 2 of_nat (\<lambda>k. Request_failed []) =
     Some (Some ''api: unavailable after 2.0s (last status: refused)'')"
  using wait_settles [of 1 0 "of_nat :: nat \<Rightarrow> rat" 2 2 "\<lambda>a. ''refused''" "\<lambda>x. ''2.0''"
        "\<lambda>k. Request_failed []"]
  by (auto simp: healthy_answer_def unavailable_message_def last_status_of_def)

end
