(* ===== verification/Spec2Isabelle.thy ===== *)
theory Spec2Isabelle
  imports Refinement Operations RunnerFaults Rows Pacing Lifecycle Migrations Checks Startup
begin

text \<open>
  \<^bold>\<open>Verification of ticketflow\<close>

  ticketflow resolves support tickets: an agent classifies a ticket and drafts a reply, a draft
  that proposes a refund or is not confident waits for a human, and a worker carries the outcome
  out. Postgres holds all state; LangGraph keeps one checkpointed thread per ticket. The
  processes are the HTTP API, runners (which also sweep leases and old data), agent workers,
  fallback workers and side-effect workers; they share nothing but the tables.

  \<^bold>\<open>Theories and what they model\<close> (paths under \<^verbatim>\<open>src/ticketflow\<close>)

  \<^item> \<^verbatim>\<open>TF_Prelude\<close>: time stamps (integer microseconds), Python's exceptions as values of
    \<^verbatim>\<open>exn\<close>, fallible results as \<^verbatim>\<open>exn + 'a\<close>, JSON, tables as lists of rows.
  \<^item> \<^verbatim>\<open>Models\<close>: \<^verbatim>\<open>models.py\<close>. Records and enumerations, \<^verbatim>\<open>model_dump\<close> and
    \<^verbatim>\<open>model_validate\<close>; pydantic's coercion of numbers is the parameter \<^verbatim>\<open>coercion\<close>.
  \<^item> \<^verbatim>\<open>Config\<close>: \<^verbatim>\<open>workflows.py\<close>, \<^verbatim>\<open>signals.py\<close> and the settings the code reads.
  \<^item> \<^verbatim>\<open>Interfaces\<close>: the contracts that several components share, as locales: tables with
    exclusive leases, at-most-once ledgers. Each is interpreted on the model in the theory of
    the component that provides it.
  \<^item> \<^verbatim>\<open>TaskQueue\<close>: \<^verbatim>\<open>taskqueue.py\<close> and \<^verbatim>\<open>db.dequeue\<close>, one function per statement.
  \<^item> \<^verbatim>\<open>WorkflowRuns\<close>: the statements of \<^verbatim>\<open>db.py\<close> on \<^verbatim>\<open>workflow_run\<close>, its archive and
    \<^verbatim>\<open>pending_signal\<close>.
  \<^item> \<^verbatim>\<open>Rows\<close>: how \<^verbatim>\<open>db.py\<close> reads a returned row, column by column.
  \<^item> \<^verbatim>\<open>Ledger\<close>: \<^verbatim>\<open>ledger.py\<close> and \<^verbatim>\<open>readmodel.py\<close>.
  \<^item> \<^verbatim>\<open>Migrations\<close>: \<^verbatim>\<open>db.MIGRATIONS\<close> as data and \<^verbatim>\<open>db.bootstrap\<close> as one transaction.
  \<^item> \<^verbatim>\<open>Graph\<close>: \<^verbatim>\<open>graph.py\<close>. One function per node; a node returns, is suspended by
    \<^verbatim>\<open>interrupt()\<close> or raises, and a resumed node runs again from its start. LangGraph is
    the locale \<^verbatim>\<open>langgraph\<close>: an engine that drives nodes along edges and keeps a thread.
    \<^verbatim>\<open>ref_engine\<close> is a concrete engine and interprets it.
  \<^item> \<^verbatim>\<open>GraphProps\<close>: what holds of every thread that any sequence of invocations leaves
    (\<^verbatim>\<open>history\<close>), and how each waiting point goes on.
  \<^item> \<^verbatim>\<open>Runner\<close>, \<^verbatim>\<open>RunnerProps\<close>: \<^verbatim>\<open>runner.py\<close>. \<^verbatim>\<open>RunnerFaults\<close>: where it does
    what its documentation does not say.
  \<^item> \<^verbatim>\<open>Api\<close>: \<^verbatim>\<open>api.py\<close>.
  \<^item> \<^verbatim>\<open>Agent\<close>: \<^verbatim>\<open>agent/base.py\<close> (the locale \<^verbatim>\<open>agent_backend\<close>), \<^verbatim>\<open>agent/mock.py\<close>
    over a stream of random draws (its interpretation) and \<^verbatim>\<open>activities.py\<close>.
  \<^item> \<^verbatim>\<open>Workers\<close>: one task through a worker (\<^verbatim>\<open>agent_worker.process_one_task\<close>), and
    \<^verbatim>\<open>side_effect_worker.run_finalize\<close> with its commits one by one.
  \<^item> \<^verbatim>\<open>Pacing\<close>: the token bucket and the drain loop of \<^verbatim>\<open>agent_worker.run_forever\<close>.
  \<^item> \<^verbatim>\<open>Lifecycle\<close>: pools and entry points as plans with \<^verbatim>\<open>try ... finally\<close>.
  \<^item> \<^verbatim>\<open>System\<close>: all processes together, as interleaved commits on the shared state. Three
    history fields, which no process reads, remember the ids drawn, the decisions the API
    accepted and the drafts put before a human.
  \<^item> \<^verbatim>\<open>Refinement\<close>: the abstract support desk, and that the processes implement it.
  \<^item> \<^verbatim>\<open>Schedule\<close>, \<^verbatim>\<open>EndToEnd\<close>: one ticket from the API's request to its end, as
    schedules of the processes' own operations.
  \<^item> \<^verbatim>\<open>Operations\<close>: the processes' whole operations are sequences of the system's commits,
    and so are the schedules of \<^verbatim>\<open>EndToEnd\<close>.
  \<^item> \<^verbatim>\<open>Logging\<close>: \<^verbatim>\<open>logging.py\<close> (the context filter, both formatters,
    \<^verbatim>\<open>setup_logging\<close>).
  \<^item> \<^verbatim>\<open>Startup\<close>: what importing the program does. \<^verbatim>\<open>__init__.py\<close>,
    \<^verbatim>\<open>config.py\<close>, \<^verbatim>\<open>tracing.py\<close> and the module statements of \<^verbatim>\<open>api.py\<close>.
  \<^item> \<^verbatim>\<open>Batch\<close>: \<^verbatim>\<open>scripts/batch.py\<close>. Making tickets, polling them through the API, the
    summary and the exit code.
  \<^item> \<^verbatim>\<open>Checks\<close>: \<^verbatim>\<open>scripts/doctor.py\<close>, \<^verbatim>\<open>wait_for_api.py\<close> and
    \<^verbatim>\<open>reset.py\<close>.

  \<^bold>\<open>How the model reads\<close>

  A statement on the database is a function from the table to its answer and the table after it;
  a handler or step composes them in the code's order, with a time stamp per transaction as an
  argument. \<^verbatim>\<open>FOR UPDATE SKIP LOCKED\<close> is a set of rows other transactions hold. Floats are
  rationals. A crash is the absence of the next commit, so crash properties quantify over
  prefixes of commits. Where Python raises, the model returns \<^verbatim>\<open>Inl\<close>.

  \<^bold>\<open>What is shown\<close>

  Each table keeps its well-formedness under every statement, leases are exclusive while they
  live, settled tasks are final, and retries stay in the budget while no lease is reclaimed. The
  graph resolves, rejects and escalates as documented, resolves a gated draft only with a
  human's approval, and its nodes can be replayed. A runner's step projects the checkpoint into
  the run. Finalizing survives any crashes with one refund and one reply. The processes'
  operations are runs of a system of commits, which allows any interleaving and any crash; that
  system refines a support desk that knows no queues, leases or crashes; so a refund exists only
  for an approved ticket, at most once and of exactly the amount the human saw, and every
  outcome is one the agents or a human are answerable for. With processes that take their turns,
  a ticket comes to the outcome its agents' answers or failures, the timers and the human
  determine, on either agent's queue, and leaves no work behind. An upgraded database is a fresh
  one, and the doctor's verdict is the API's state. Some theorems show where the code does not
  do what it promises: a finalize task that fails for good, a second approval decision, a stray
  or a lost wake-up, a crash inside a redispatch, one between the checkpoint and the run's row,
  and one inside the retention sweep.

  \<^bold>\<open>Bounds\<close>

  The graph's edges have no cycle (\<^verbatim>\<open>rank\<close>), loops over rows are structural, and the
  processes' endless loops are modelled pass by pass or as step relations. Fuel, a number of
  rounds, is used for the two client loops that end by a deadline: \<^verbatim>\<open>poll\<close> in \<^verbatim>\<open>Batch\<close>
  and \<^verbatim>\<open>wait_loop\<close> in \<^verbatim>\<open>Checks\<close>. When each round takes at least \<^verbatim>\<open>d\<close> seconds and the
  timeout is at most \<^verbatim>\<open>n * d\<close>, \<^verbatim>\<open>Suc n\<close> rounds are enough (\<^verbatim>\<open>poll_settles\<close>,
  \<^verbatim>\<open>wait_settles\<close>).

  \<^bold>\<open>Not modelled\<close>

  Log calls inside the operations, the text \<^verbatim>\<open>json.dumps\<close> and \<^verbatim>\<open>logging\<close> make of a
  record, argparse, and what OpenTelemetry does with the spans. FastAPI's
  routing and request parsing, psycopg, asyncio's scheduler and LangGraph's internals are not
  part of the sources and appear as parameters, contracts or step relations.
\<close>

end
